(* ===== verification/Prelude.thy ===== *)
theory Prelude
  imports Main "HOL-Library.Word" "HOL-Library.AList"
begin

text \<open>
  Shared by every component of the development: the hint collections, the generic lemmas on
  lists and association lists (Go maps are association lists with distinct keys, listed in
  the order a \<open>range\<close> loop happens to visit them), the reachability predicate of a
  transition system and the locale by which an invariant is carried from the initial state to
  every reachable one.
\<close>

named_theorems handler_defs \<open>definitions of the handlers of a component\<close>
named_theorems frame_simps \<open>fields that an operation leaves unchanged\<close>
named_theorems inv_defs \<open>definitions of the conjuncts of an invariant\<close>

section \<open>Association lists with distinct keys\<close>

abbreviation keys :: "('k \<times> 'v) list \<Rightarrow> 'k list" where
  "keys m \<equiv> List.map fst m"

abbreviation vals :: "('k \<times> 'v) list \<Rightarrow> 'v list" where
  "vals m \<equiv> List.map snd m"

lemma distinct_keys_delete [intro, simp]:
  "distinct (keys m) \<Longrightarrow> distinct (keys (AList.delete k m))"
  by (rule distinct_delete)

lemma distinct_keys_update [intro, simp]:
  "distinct (keys m) \<Longrightarrow> distinct (keys (AList.update k v m))"
  by (rule distinct_update)

lemma update_new:
  "map_of m k = None \<Longrightarrow> AList.update k v m = m @ [(k, v)]"
  by (induction m) (auto split: if_splits)

lemma update_neq_Nil [simp]: "AList.update k v m \<noteq> []"
  by (induction m) auto

lemma set_vals_delete: "set (vals (AList.delete k m)) \<subseteq> set (vals m)"
  by (auto simp: AList.delete_eq)

lemma set_delete: "set (AList.delete k m) = {p \<in> set m. fst p \<noteq> k}"
  by (auto simp: AList.delete_eq)

lemma distinct_vals_delete [intro, simp]:
  "distinct (vals m) \<Longrightarrow> distinct (vals (AList.delete k m))"
  by (auto simp: AList.delete_eq distinct_map_filter)

lemma map_of_eq_NoneD: "map_of m k = None \<Longrightarrow> (k, v) \<notin> set m"
  by (metis option.distinct(1) weak_map_of_SomeI)

lemma map_of_mem_eq:
  "distinct (keys m) \<Longrightarrow> (k, v) \<in> set m \<Longrightarrow> map_of m k = Some v"
  by simp

lemma delete_absent [simp]: "map_of m k = None \<Longrightarrow> AList.delete k m = m"
  by (simp add: delete_id map_of_eq_None_iff)

section \<open>Transition systems\<close>

text \<open>
  \<open>reach init step s\<close>: the state \<open>s\<close> is reachable from a state satisfying \<open>init\<close>.
\<close>

inductive reach :: "('s \<Rightarrow> bool) \<Rightarrow> ('s \<Rightarrow> 's \<Rightarrow> bool) \<Rightarrow> 's \<Rightarrow> bool"
  for init :: "'s \<Rightarrow> bool" and step :: "'s \<Rightarrow> 's \<Rightarrow> bool" where
  reach_init: "init s \<Longrightarrow> reach init step s"
| reach_step: "reach init step s \<Longrightarrow> step s t \<Longrightarrow> reach init step t"

text \<open>Any number of steps from a given state.\<close>

inductive steps :: "('s \<Rightarrow> 's \<Rightarrow> bool) \<Rightarrow> 's \<Rightarrow> 's \<Rightarrow> bool" for step :: "'s \<Rightarrow> 's \<Rightarrow> bool" where
  steps_refl: "steps step s s"
| steps_step: "step s t \<Longrightarrow> steps step t u \<Longrightarrow> steps step s u"

lemma steps_one: "step s t \<Longrightarrow> steps step s t"
  by (blast intro: steps.intros)

lemma steps_trans: "steps step s t \<Longrightarrow> steps step t u \<Longrightarrow> steps step s u"
  by (induction rule: steps.induct) (auto intro: steps.intros)

lemma steps_preserve:
  assumes "steps step s t" and "\<And>a b. P a \<Longrightarrow> step a b \<Longrightarrow> P b" and "P s"
  shows "P t"
  using assms(1,3) by (induction rule: steps.induct) (auto intro: assms(2))

lemma reach_steps: "steps step s t \<Longrightarrow> reach init step s \<Longrightarrow> reach init step t"
  by (induction rule: steps.induct) (auto intro: reach.reach_step)

text \<open>
  The contract of a state machine: an invariant that holds initially and that every step
  keeps. Its client, the safety properties, reads it off every reachable state.
\<close>

locale machine =
  fixes init :: "'s \<Rightarrow> bool" and step :: "'s \<Rightarrow> 's \<Rightarrow> bool" and inv :: "'s \<Rightarrow> bool"
  assumes inv_init: "init s \<Longrightarrow> inv s"
    and inv_step: "inv s \<Longrightarrow> step s t \<Longrightarrow> inv t"
begin

lemma reach_inv: "reach init step s \<Longrightarrow> inv s"
  by (induction rule: reach.induct) (auto intro: inv_init inv_step)

lemma reach_stepD: "reach init step s \<Longrightarrow> step s t \<Longrightarrow> inv s \<and> inv t"
  by (blast intro: reach_inv inv_step)

end

end
