(* ===== verification/GoRuntime.thy ===== *)
theory GoRuntime
  imports Prelude
begin

text \<open>
  What the program uses of the Go language and its standard library: byte strings, error
  values with \<open>errors.Is\<close> and \<open>errors.Join\<close>, contexts, and the contracts of the two
  synchronisation idioms the components share, a \<open>sync.Once\<close>-guarded stop and a buffered
  channel with a non-blocking send.
\<close>

section \<open>Bytes and strings\<close>

text \<open>A Go string is a sequence of bytes; \<open>len\<close> counts bytes, as \<open>length\<close> does here.\<close>

type_synonym bytes = "8 word list"

definition bytes_of_string :: "string \<Rightarrow> bytes" where
  "bytes_of_string s = List.map (\<lambda>c. word_of_nat (of_char c)) s"

lemma byte_of_char_inj:
  "(word_of_nat (of_char c) :: 8 word) = word_of_nat (of_char d) \<Longrightarrow> c = d"
proof -
  assume eq: "(word_of_nat (of_char c) :: 8 word) = word_of_nat (of_char d)"
  then have "(of_char c :: nat) mod 256 = of_char d mod 256"
    by (simp add: word_of_nat_eq_iff take_bit_eq_mod del: of_char_mod_256)
  then show "c = d" by simp
qed

lemma bytes_of_string_inj: "bytes_of_string s = bytes_of_string t \<longleftrightarrow> s = t"
  proof
  assume "bytes_of_string s = bytes_of_string t"
  then show "s = t"
    unfolding bytes_of_string_def by (rule list.inj_map_strong [rotated]) (rule byte_of_char_inj)
qed simp

lemma length_bytes_of_string [simp]: "length (bytes_of_string s) = length s"
  by (simp add: bytes_of_string_def)

section \<open>Errors\<close>

text \<open>
  The error values of the program. Sentinels are constructors of their own, so that equality
  is the pointer identity \<open>errors.Is\<close> tests. \<open>ErrMsg\<close> is an \<open>errors.New\<close> or a
  \<open>fmt.Errorf\<close> of a constant text, \<open>Errorf\<close> a \<open>fmt.Errorf\<close> with its format and its
  arguments left unrendered, \<open>Wrapped\<close> one with \<open>%w\<close>, \<open>Joined\<close> the result of
  \<open>errors.Join\<close>, \<open>Status\<close> a gRPC status (code and message), \<open>External\<close> an opaque error
  of a third-party call. \<open>nil\<close> is \<open>None\<close> of \<open>goerr option\<close>.
\<close>

datatype goerr =
    ErrSlowSubscriber
  | ErrBoxClosed
  | ErrCenterClosed
  | ErrACKTimeout
  | CtxCanceled
  | CtxDeadlineExceeded
  | IoEOF
  | PubsubSubscriptionCancelled
  | ErrSyntax
  | ErrRange
  | ErrMsg string
  | Errorf string "string list"
  | Wrapped string goerr
  | Joined "goerr list"
  | Status nat string
  | External nat

text \<open>\<open>errors.Is\<close>: the error itself, or one it wraps.\<close>

fun errors_is :: "goerr \<Rightarrow> goerr \<Rightarrow> bool" where
  "errors_is (Wrapped m e) target \<longleftrightarrow> Wrapped m e = target \<or> errors_is e target"
| "errors_is (Joined es) target \<longleftrightarrow>
     Joined es = target \<or> list_ex (\<lambda>e. errors_is e target) es"
| "errors_is e target \<longleftrightarrow> e = target"

definition errors_Is :: "goerr option \<Rightarrow> goerr \<Rightarrow> bool" where
  "errors_Is err target = (case err of None \<Rightarrow> False | Some e \<Rightarrow> errors_is e target)"

text \<open>\<open>errors.Join\<close> discards nil errors and is nil when none is left.\<close>

definition errors_Join :: "goerr option list \<Rightarrow> goerr option" where
  "errors_Join errs =
     (case List.map_filter (\<lambda>e. e) errs of [] \<Rightarrow> None | es \<Rightarrow> Some (Joined es))"

lemma errors_is_refl [simp]: "errors_is e e"
  by (cases e) simp_all

lemma errors_Is_simps [simp]:
  "errors_Is None t \<longleftrightarrow> False"
  "errors_Is (Some e) t \<longleftrightarrow> errors_is e t"
  by (simp_all add: errors_Is_def)

lemma errors_Join_None_iff: "errors_Join errs = None \<longleftrightarrow> (\<forall>e \<in> set errs. e = None)"
  by (induction errs) (auto simp: errors_Join_def map_filter_simps split: list.splits option.splits)

text \<open>Every error handed to \<open>errors.Join\<close> is still found in the result.\<close>

lemma errors_Join_Is:
  assumes "Some e \<in> set errs" and "errors_is e t"
  shows "errors_Is (errors_Join errs) t"
proof -
  have mem: "e \<in> set (List.map_filter (\<lambda>e. e) errs)"
    using assms(1) by (force simp: map_filter_def)
  then obtain x xs where eq: "List.map_filter (\<lambda>e. e) errs = x # xs"
    by (cases "List.map_filter (\<lambda>e. e) errs") auto
  then have "errors_Join errs = Some (Joined (x # xs))"
    by (simp add: errors_Join_def)
  moreover have "\<exists>y \<in> set (x # xs). errors_is y t"
    using mem eq assms(2) by metis
  ultimately show ?thesis by (auto simp: list_ex_iff)
qed

text \<open>The end of a call that may panic.\<close>

datatype 'a outcome = Returns 'a | Panics string

section \<open>A stop guarded by sync.Once\<close>

text \<open>
  The contract of an operation that may be requested by several goroutines and takes effect
  once: the first call decides the error, later calls change nothing.
\<close>

locale stoppable =
  fixes halt :: "'e \<Rightarrow> 's \<Rightarrow> 's" and halted :: "'s \<Rightarrow> bool" and reason :: "'s \<Rightarrow> 'e"
  assumes halt_halts: "halted (halt e s)"
    and halt_first: "\<not> halted s \<Longrightarrow> reason (halt e s) = e"
    and halt_again: "halted s \<Longrightarrow> halt e s = s"
begin

lemma halt_idem: "halt e' (halt e s) = halt e s"
  by (rule halt_again) (rule halt_halts)

lemma halt_many: "halted s \<Longrightarrow> fold halt es s = s"
  by (induction es arbitrary: s) (auto simp: halt_again)

lemma reason_halt: "reason (halt e s) = (if halted s then reason s else e)"
  by (simp add: halt_first halt_again)

lemma first_wins:
  assumes "\<not> halted s"
  shows "reason (fold halt (e # es) s) = e" and "halted (fold halt (e # es) s)"
proof -
  have "fold halt (e # es) s = halt e s"
    by (simp add: halt_many halt_halts)
  then show "reason (fold halt (e # es) s) = e" "halted (fold halt (e # es) s)"
    using assms by (simp_all add: halt_first halt_halts)
qed

end

section \<open>A buffered channel with non-blocking send\<close>

text \<open>
  The contract of a buffered Go channel used with \<open>select \<dots> default\<close>: an offer appends when
  there is room and is refused, leaving everything as it was, when there is none; a receive
  takes the oldest item.
\<close>

locale bounded_chan =
  fixes items :: "'s \<Rightarrow> 'm list" and room :: "'s \<Rightarrow> nat"
    and offer :: "'m \<Rightarrow> 's \<Rightarrow> bool \<times> 's" and take_one :: "'s \<Rightarrow> ('m \<times> 's) option"
  assumes offer_ok: "length (items s) < room s \<Longrightarrow>
      fst (offer m s) \<and> items (snd (offer m s)) = items s @ [m]"
    and offer_full: "room s \<le> length (items s) \<Longrightarrow> offer m s = (False, s)"
    and offer_room: "room (snd (offer m s)) = room s"
    and take_none: "take_one s = None \<longleftrightarrow> items s = []"
    and take_some: "take_one s = Some (m, t) \<Longrightarrow> items s = m # items t \<and> room t = room s"
begin

lemma offer_bound:
  "length (items s) \<le> room s \<Longrightarrow> length (items (snd (offer m s))) \<le> room (snd (offer m s))"
  by (cases "length (items s) < room s") (auto simp: offer_ok offer_room offer_full)

fun offer_all :: "'m list \<Rightarrow> 's \<Rightarrow> bool list \<times> 's" where
  "offer_all [] s = ([], s)"
| "offer_all (m # ms) s =
     (let (r, s') = offer m s; (rs, s'') = offer_all ms s' in (r # rs, s''))"

lemma offer_iff: "fst (offer m s) \<longleftrightarrow> length (items s) < room s"
  by (cases "length (items s) < room s") (auto simp: offer_ok offer_full)

lemma items_offer: "items (snd (offer m s)) = items s @ (if fst (offer m s) then [m] else [])"
  by (cases "length (items s) < room s") (auto simp: offer_ok offer_full)

text \<open>The channel holds the accepted items, in the order in which they were offered.\<close>

lemma items_offer_all:
  "items (snd (offer_all ms s)) =
     items s @ List.map snd (filter fst (zip (fst (offer_all ms s)) ms))"
proof (induction ms arbitrary: s)
  case Nil
  then show ?case by simp
next
  case (Cons m ms)
  obtain r s' where o1: "offer m s = (r, s')" by force
  obtain rs s'' where o2: "offer_all ms s' = (rs, s'')" by force
  from Cons.IH [of s'] items_offer [of m s] show ?case
    by (simp add: o1 o2)
qed

end

end
