(* ===== verification/Config.thy ===== *)
theory Config
  imports GoRuntime
begin

text \<open>
  \<open>util/util.go\<close>, the environment settings read by \<open>util/grpc.go\<close> and \<open>msg/box.go\<close>
  when their packages start, and the rate-limiting interceptor. \<open>strconv.Itoa\<close>,
  \<open>strconv.Atoi\<close> and \<open>base64.RawStdEncoding\<close> are the standard library's, for a 64-bit
  \<open>int\<close>. The process environment is a partial map and the random bytes are an argument.
\<close>

section \<open>Decimal integers: strconv\<close>

definition digit_char :: "nat \<Rightarrow> char" where
  "digit_char d = char_of (48 + d)"

fun digits :: "nat \<Rightarrow> string" where
  "digits n = (if n < 10 then [digit_char n] else digits (n div 10) @ [digit_char (n mod 10)])"

declare digits.simps [simp del]

definition Itoa :: "int \<Rightarrow> string" where
  "Itoa i = (if i < 0 then CHR ''-'' # digits (nat (- i)) else digits (nat i))"

definition is_digit :: "char \<Rightarrow> bool" where
  "is_digit c \<longleftrightarrow> 48 \<le> (of_char c :: nat) \<and> (of_char c :: nat) \<le> 57"

text \<open>The loop of \<open>ParseUint\<close> with base 10: a wrong character or an overflow of 64 bits.\<close>

fun parse_uint :: "nat \<Rightarrow> string \<Rightarrow> goerr + nat" where
  "parse_uint n [] = Inr n"
| "parse_uint n (c # cs) =
     (if \<not> is_digit c then Inl ErrSyntax
      else let m = n * 10 + (of_char c - 48) in
        if 2 ^ 64 \<le> m then Inl ErrRange else parse_uint m cs)"

definition Atoi :: "string \<Rightarrow> goerr + int" where
  "Atoi s =
     (if s = [] then Inl ErrSyntax
      else
        let neg = (hd s = CHR ''-'');
            t = (if hd s = CHR ''-'' \<or> hd s = CHR ''+'' then tl s else s) in
        if t = [] then Inl ErrSyntax
        else
          (case parse_uint 0 t of
             Inl err \<Rightarrow> Inl err
           | Inr un \<Rightarrow>
               if \<not> neg \<and> 2 ^ 63 \<le> un then Inl ErrRange
               else if neg \<and> 2 ^ 63 < un then Inl ErrRange
               else Inr (if neg then - int un else int un)))"

lemma of_char_digit: "d < 10 \<Longrightarrow> (of_char (digit_char d) :: nat) = 48 + d"
  by (simp add: digit_char_def)

lemma is_digit_char [simp]: "d < 10 \<Longrightarrow> is_digit (digit_char d)"
  by (simp add: is_digit_def of_char_digit)

lemma parse_uint_append:
  "parse_uint n (xs @ ys) =
     (case parse_uint n xs of Inl e \<Rightarrow> Inl e | Inr m \<Rightarrow> parse_uint m ys)"
  by (induction n xs rule: parse_uint.induct) (auto simp: Let_def)

lemma parse_uint_digits: "n < 2 ^ 64 \<Longrightarrow> parse_uint 0 (digits n) = Inr n"
proof (induction n rule: digits.induct)
  case (1 n)
  show ?case
  proof (cases "n < 10")
    case True
    then show ?thesis by (simp add: digits.simps [of n] of_char_digit)
  next
    case False
    have "n div 10 < 2 ^ 64" using "1.prems" by simp
    with False "1.IH" have "parse_uint 0 (digits (n div 10)) = Inr (n div 10)" by simp
    with False "1.prems" show ?thesis
      by (simp add: digits.simps [of n] parse_uint_append of_char_digit)
  qed
qed

lemma digits_head: "\<exists>c cs. digits n = c # cs \<and> is_digit c"
proof (induction n rule: digits.induct)
  case (1 n)
  then show ?case
    by (cases "n < 10") (auto simp: digits.simps [of n])
qed

lemma is_digit_sign [simp]: "\<not> is_digit (CHR ''-'')" "\<not> is_digit (CHR ''+'')"
  by (simp_all add: is_digit_def)

lemma Atoi_Itoa:
  assumes "- (2 ^ 63) \<le> i" and "i < 2 ^ 63"
  shows "Atoi (Itoa i) = Inr i"
proof (cases "i < 0")
  case True
  then have "nat (- i) < 2 ^ 64" "\<not> 2 ^ 63 < nat (- i)" using assms by auto
  moreover obtain c cs where "digits (nat (- i)) = c # cs" using digits_head by blast
  ultimately show ?thesis
    using True parse_uint_digits [of "nat (- i)"] by (simp add: Atoi_def Itoa_def)
next
  case False
  then have b: "nat i < 2 ^ 64" "\<not> 2 ^ 63 \<le> nat i" using assms by auto
  obtain c cs where d: "digits (nat i) = c # cs" "is_digit c" using digits_head by blast
  then have "c \<noteq> CHR ''-''" "c \<noteq> CHR ''+''" by auto
  with b d False show ?thesis
    using parse_uint_digits [of "nat i"] by (simp add: Atoi_def Itoa_def)
qed

section \<open>Environment settings\<close>

type_synonym env = "string \<rightharpoonup> string"

definition getEnv :: "env \<Rightarrow> string \<Rightarrow> string \<Rightarrow> string" where
  "getEnv E key fallback = (case E key of None \<Rightarrow> fallback | Some v \<Rightarrow> v)"

definition GetEnv :: "env \<Rightarrow> string \<Rightarrow> string \<Rightarrow> string" where
  "GetEnv E key fallback = getEnv E key fallback"

definition getEnvInt :: "env \<Rightarrow> string \<Rightarrow> int \<Rightarrow> goerr + int" where
  "getEnvInt E key fallback =
     (let tmpStr = Itoa fallback; tmpStr = getEnv E key tmpStr in Atoi tmpStr)"

definition GetEnvInt :: "env \<Rightarrow> string \<Rightarrow> int \<Rightarrow> goerr + int" where
  "GetEnvInt E key fallback = getEnvInt E key fallback"

definition GetLogLevel :: "env \<Rightarrow> string" where
  "GetLogLevel E = GetEnv E ''LOG_LEVEL'' ''info''"

definition CheckStrLen :: "string \<Rightarrow> int \<Rightarrow> int \<Rightarrow> bool" where
  "CheckStrLen target mn mx = (let l = int (length target) in mn \<le> l \<and> l \<le> mx)"

definition DefaultInternalChanBufferSize :: int where
  "DefaultInternalChanBufferSize = 5000"

definition DefaultExternalChanBufferSize :: int where
  "DefaultExternalChanBufferSize = 256"

definition DefaultUnaryServerInterceptorRateLimit :: int where
  "DefaultUnaryServerInterceptorRateLimit = 10000"

text \<open>\<open>panic(err)\<close> of a parse error, and the explicit panic, end the process.\<close>

definition loadExternalChanBufferSize :: "env \<Rightarrow> int outcome" where
  "loadExternalChanBufferSize E =
     (case GetEnvInt E ''EXTERNAL_CHAN_BUFFER_SIZE'' DefaultExternalChanBufferSize of
        Inl err \<Rightarrow> Panics ''strconv.Atoi''
      | Inr size' \<Rightarrow>
          if size' \<le> 0 then Panics ''EXTERNAL_CHAN_BUFFER_SIZE must be greater than zero''
          else Returns size')"

text \<open>The package initialiser of \<open>msg/box.go\<close>: both buffer sizes, internal one first.\<close>

definition msg_init :: "env \<Rightarrow> (int \<times> int) outcome" where
  "msg_init E =
     (case GetEnvInt E ''INTERNAL_CHAN_BUFFER_SIZE'' DefaultInternalChanBufferSize of
        Inl err \<Rightarrow> Panics ''strconv.Atoi''
      | Inr tmp \<Rightarrow>
          (case loadExternalChanBufferSize E of
             Panics msg \<Rightarrow> Panics msg
           | Returns ext \<Rightarrow> Returns (tmp, ext)))"

definition grpc_init :: "env \<Rightarrow> int outcome" where
  "grpc_init E =
     (case getEnvInt E ''UNARY_SERVER_INTERCEPTOR_RATE_LIMIT''
        DefaultUnaryServerInterceptorRateLimit of
        Inl err \<Rightarrow> Panics ''strconv.Atoi''
      | Inr tmp \<Rightarrow> Returns tmp)"

text \<open>
  The interceptor takes a slot of the limiter for every call except the health check, then
  runs the handler; \<open>take'\<close> and \<open>handler\<close> act on the server state \<open>'s\<close>.
\<close>

definition UnaryServerInterceptor ::
    "string \<Rightarrow> ('s \<Rightarrow> 's) \<Rightarrow> string \<Rightarrow> ('s \<Rightarrow> 'r \<times> 's) \<Rightarrow> 's \<Rightarrow> 'r \<times> 's" where
  "UnaryServerInterceptor health_check take' fullMethod handler s =
     (let s = (if fullMethod \<noteq> health_check then take' s else s) in handler s)"

lemma getEnvInt_unset:
  "E key = None \<Longrightarrow> - (2 ^ 63) \<le> i \<Longrightarrow> i < 2 ^ 63 \<Longrightarrow> getEnvInt E key i = Inr i"
  by (simp add: getEnvInt_def getEnv_def Atoi_Itoa)

lemma GetEnvInt_cases:
  assumes "- (2 ^ 63) \<le> i" and "i < 2 ^ 63"
  shows "GetEnvInt E key i = (case E key of None \<Rightarrow> Inr i | Some s \<Rightarrow> Atoi s)"
  using assms by (simp add: GetEnvInt_def getEnvInt_def getEnv_def Atoi_Itoa split: option.splits)

lemma loadExternal_cases:
  "loadExternalChanBufferSize E =
     (case E ''EXTERNAL_CHAN_BUFFER_SIZE'' of
        None \<Rightarrow> Returns 256
      | Some s \<Rightarrow>
          (case Atoi s of
             Inl _ \<Rightarrow> Panics ''strconv.Atoi''
           | Inr n \<Rightarrow>
               if n \<le> 0 then Panics ''EXTERNAL_CHAN_BUFFER_SIZE must be greater than zero''
               else Returns n))"
  by (simp add: loadExternalChanBufferSize_def GetEnvInt_cases DefaultExternalChanBufferSize_def
      split: option.splits)

lemma loadExternal_positive: "loadExternalChanBufferSize E = Returns n \<Longrightarrow> 0 < n"
  by (auto simp: loadExternal_cases split: option.splits sum.splits if_splits)

section \<open>Random subscriber identifiers: unpadded base64\<close>

definition b64_alphabet :: string where
  "b64_alphabet = ''ABCDEFGHIJKLMNOPQRSTUVWXYZabcdefghijklmnopqrstuvwxyz0123456789+/''"

definition b64 :: "nat \<Rightarrow> char" where
  "b64 n = b64_alphabet ! n"

fun b64_encode :: "bytes \<Rightarrow> string" where
  "b64_encode (a # b # c # bs) =
     b64 (unat a div 4) # b64 (unat a mod 4 * 16 + unat b div 16) #
     b64 (unat b mod 16 * 4 + unat c div 64) # b64 (unat c mod 64) # b64_encode bs"
| "b64_encode [a, b] =
     [b64 (unat a div 4), b64 (unat a mod 4 * 16 + unat b div 16), b64 (unat b mod 16 * 4)]"
| "b64_encode [a] = [b64 (unat a div 4), b64 (unat a mod 4 * 16)]"
| "b64_encode [] = []"

text \<open>\<open>read\<close> is the outcome of \<open>rand.Read\<close> on a buffer of the given size.\<close>

definition GenerateRandomBase64String :: "(nat \<Rightarrow> goerr + bytes) \<Rightarrow> nat \<Rightarrow> string" where
  "GenerateRandomBase64String read sz =
     (case read sz of Inl err \<Rightarrow> [] | Inr bs \<Rightarrow> b64_encode bs)"

lemma b64_inj: "m < 64 \<Longrightarrow> n < 64 \<Longrightarrow> b64 m = b64 n \<longleftrightarrow> m = n"
proof -
  have "distinct b64_alphabet" "length b64_alphabet = 64"
    by (simp_all add: b64_alphabet_def)
  then show "m < 64 \<Longrightarrow> n < 64 \<Longrightarrow> b64 m = b64 n \<longleftrightarrow> m = n"
    by (simp add: b64_def nth_eq_iff_index_eq)
qed

lemma byte_bound [simp]: "unat (a :: 8 word) < 256"
  using unsigned_less [of a, where ?'a = nat] by simp

lemma byte_parts [simp]:
  fixes a b :: "8 word"
  shows "unat a div 4 < 64" "unat a mod 4 * 16 + unat b div 16 < 64" "unat a mod 4 * 16 < 64"
    "unat a mod 16 * 4 + unat b div 64 < 64" "unat a mod 16 * 4 < 64" "unat a mod 64 < 64"
proof -
  have "unat a < 256" "unat b < 256" by simp_all
  then show "unat a div 4 < 64" "unat a mod 4 * 16 + unat b div 16 < 64" "unat a mod 4 * 16 < 64"
    "unat a mod 16 * 4 + unat b div 64 < 64" "unat a mod 16 * 4 < 64" "unat a mod 64 < 64"
    by linarith+
qed

lemma b64_group_inj:
  fixes a a' b b' c c' :: nat
  assumes "a div 4 = a' div 4" "a mod 4 * 16 + b div 16 = a' mod 4 * 16 + b' div 16"
    "b mod 16 * 4 + c div 64 = b' mod 16 * 4 + c' div 64" "c mod 64 = c' mod 64"
    "b < 256" "b' < 256" "c < 256" "c' < 256"
  shows "a = a' \<and> b = b' \<and> c = c'"
proof -
  have split: "q = q' \<and> r = r'" if "q * m + r = q' * m + r'" "r < m" "r' < m" for q q' r r' m :: nat
    using that by (metis div_mult_self3 div_less add.commute add_diff_cancel_right' add_0
        less_nat_zero_code mult.commute)
  have ab: "a mod 4 = a' mod 4" "b div 16 = b' div 16"
    using split [OF assms(2)] assms(5,6) by (auto simp: less_mult_imp_div_less)
  have bc: "b mod 16 = b' mod 16" "c div 64 = c' div 64"
    using split [OF assms(3)] assms(7,8) by (auto simp: less_mult_imp_div_less)
  show ?thesis using assms(1,4) ab bc by (metis div_mod_decomp)
qed

lemma b64_encode_inj: "b64_encode xs = b64_encode ys \<Longrightarrow> xs = ys"
proof (induction xs arbitrary: ys rule: b64_encode.induct)
  case (1 a b c bs)
  then show ?case
    by (cases ys rule: b64_encode.cases)
      (auto simp: b64_inj word_unat_eq_iff dest: b64_group_inj)
next
  case (2 a b)
  then show ?case
    using b64_group_inj [of "unat a" _ "unat b" _ 0 0]
    by (cases ys rule: b64_encode.cases) (auto simp: b64_inj word_unat_eq_iff)
next
  case (3 a)
  then show ?case
    using b64_group_inj [of "unat a" _ 0 0 0 0]
    by (cases ys rule: b64_encode.cases) (auto simp: b64_inj word_unat_eq_iff)
next
  case 4
  then show ?case by (cases ys rule: b64_encode.cases) auto
qed

lemma length_b64_encode: "length (b64_encode bs) = (length bs * 4 + 2) div 3"
  by (induction bs rule: b64_encode.induct) auto

section \<open>Properties\<close>

text \<open>
  An integer setting is read as it was meant: an unset variable gives the default, a
  variable holding the decimal form of any \<open>int\<close> gives that integer (the round trip of
  \<open>strconv.Itoa\<close> and \<open>strconv.Atoi\<close>), and otherwise the setting is whatever \<open>Atoi\<close> makes of
  the text, errors included; the detour of the default through its decimal form is invisible.
\<close>

theorem env_int_setting:
  assumes "- (2 ^ 63) \<le> fallback" and "fallback < 2 ^ 63" and "- (2 ^ 63) \<le> i" and "i < 2 ^ 63"
  shows "GetEnvInt E key fallback = (case E key of None \<Rightarrow> Inr fallback | Some s \<Rightarrow> Atoi s) \<and>
    GetEnvInt (E(key \<mapsto> Itoa i)) key fallback = Inr i"
  using assms by (simp add: GetEnvInt_cases Atoi_Itoa)

theorem env_int_setting_witness:
  "GetEnvInt (\<lambda>_. None) ''K'' 5000 = Inr 5000 \<and>
   GetEnvInt [''K'' \<mapsto> Itoa (- 7)] ''K'' 5000 = Inr (- 7)"
  using env_int_setting [of 5000 "- 7" "\<lambda>_. None" "''K''"] by simp

text \<open>
  The external buffer size is positive whenever the process gets past its initialisers,
  whatever the environment: everything else ends in a panic. A subscriber of the box can
  therefore always hold at least one message.
\<close>

theorem external_buffer_positive:
  assumes "msg_init E = Returns (internal, external)"
  shows "0 < external \<and> loadExternalChanBufferSize E = Returns external"
proof -
  have "loadExternalChanBufferSize E = Returns external"
    using assms by (auto simp: msg_init_def split: sum.splits outcome.splits)
  then show ?thesis by (simp add: loadExternal_positive)
qed

lemma Atoi_small: "Atoi ''3'' = Inr 3"
  by (simp add: Atoi_def is_digit_def)

theorem external_buffer_positive_witness:
  "loadExternalChanBufferSize [''EXTERNAL_CHAN_BUFFER_SIZE'' \<mapsto> ''3''] = Returns 3"
proof -
  have "msg_init [''EXTERNAL_CHAN_BUFFER_SIZE'' \<mapsto> ''3''] = Returns (5000, 3)"
    by (simp add: msg_init_def GetEnvInt_cases DefaultInternalChanBufferSize_def
        loadExternal_cases Atoi_small)
  then show ?thesis using external_buffer_positive by blast
qed

text \<open>
  Subscriber identifiers lose no randomness: for one and the same length, different random
  bytes give different identifiers, and the ten bytes the service asks for give fourteen
  characters.
\<close>

theorem random_id_faithful:
  assumes "read sz = Inr bs" and "read' sz' = Inr bs'"
  shows "(GenerateRandomBase64String read sz = GenerateRandomBase64String read' sz' \<longleftrightarrow> bs = bs') \<and>
    length (GenerateRandomBase64String read sz) = (length bs * 4 + 2) div 3"
  using assms by (auto simp: GenerateRandomBase64String_def length_b64_encode dest: b64_encode_inj)

theorem random_id_faithful_witness:
  "length (GenerateRandomBase64String (\<lambda>n. Inr (replicate n 0)) 10) = 14"
  using random_id_faithful [of "\<lambda>n. Inr (replicate n 0)" 10 "replicate 10 0"
      "\<lambda>n. Inr (replicate n 0)" 10 "replicate 10 0"] by simp

end
