(* ===== verification/Proto.thy ===== *)
theory Proto
  imports GoRuntime
begin

text \<open>
  The messages of \<open>proto/msg-lake.proto\<close> as the generated Go code has them. A pointer to a
  message is an \<open>option\<close> and the getters are nil-safe. The bookkeeping fields
  \<open>state\<close> and \<open>sizeCache\<close> of the protobuf runtime are left out; \<open>unknownFields\<close> is
  kept where a message is relayed or signed, since the encoder writes those bytes back. The
  wire encoding itself belongs to the protobuf library and is a parameter of the theories that
  use it.
\<close>

section \<open>Capsules\<close>

record MsgCapsule =
  mc_TopicId :: string
  mc_Data :: bytes
  mc_IsEncrypted :: bool
  mc_unknownFields :: bytes

record Signature =
  sg_PubKey :: bytes
  sg_Data :: bytes
  sg_unknownFields :: bytes

record SignedMsgCapsule =
  sm_MsgCapsule :: "MsgCapsule option"
  sm_Signature :: "Signature option"
  sm_unknownFields :: bytes

text \<open>The timestamp is an \<open>int64\<close> of nanoseconds.\<close>

record TimestampedSignedMsgCapsule =
  ts_Timestamp :: "64 word"
  ts_SignedMsgCapsule :: "SignedMsgCapsule option"
  ts_unknownFields :: bytes

definition MsgCapsule_GetTopicId :: "MsgCapsule option \<Rightarrow> string" where
  "MsgCapsule_GetTopicId x = (case x of Some m \<Rightarrow> mc_TopicId m | None \<Rightarrow> [])"

definition MsgCapsule_GetData :: "MsgCapsule option \<Rightarrow> bytes" where
  "MsgCapsule_GetData x = (case x of Some m \<Rightarrow> mc_Data m | None \<Rightarrow> [])"

definition MsgCapsule_GetIsEncrypted :: "MsgCapsule option \<Rightarrow> bool" where
  "MsgCapsule_GetIsEncrypted x = (case x of Some m \<Rightarrow> mc_IsEncrypted m | None \<Rightarrow> False)"

definition Signature_GetPubKey :: "Signature option \<Rightarrow> bytes" where
  "Signature_GetPubKey x = (case x of Some m \<Rightarrow> sg_PubKey m | None \<Rightarrow> [])"

definition Signature_GetData :: "Signature option \<Rightarrow> bytes" where
  "Signature_GetData x = (case x of Some m \<Rightarrow> sg_Data m | None \<Rightarrow> [])"

definition Signed_GetMsgCapsule :: "SignedMsgCapsule option \<Rightarrow> MsgCapsule option" where
  "Signed_GetMsgCapsule x = (case x of Some m \<Rightarrow> sm_MsgCapsule m | None \<Rightarrow> None)"

definition Signed_GetSignature :: "SignedMsgCapsule option \<Rightarrow> Signature option" where
  "Signed_GetSignature x = (case x of Some m \<Rightarrow> sm_Signature m | None \<Rightarrow> None)"

definition Timestamped_GetTimestamp :: "TimestampedSignedMsgCapsule option \<Rightarrow> 64 word" where
  "Timestamped_GetTimestamp x = (case x of Some m \<Rightarrow> ts_Timestamp m | None \<Rightarrow> 0)"

definition Timestamped_GetSigned ::
    "TimestampedSignedMsgCapsule option \<Rightarrow> SignedMsgCapsule option" where
  "Timestamped_GetSigned x = (case x of Some m \<Rightarrow> ts_SignedMsgCapsule m | None \<Rightarrow> None)"

lemmas capsule_getters =
  MsgCapsule_GetTopicId_def MsgCapsule_GetData_def MsgCapsule_GetIsEncrypted_def
  Signature_GetPubKey_def Signature_GetData_def Signed_GetMsgCapsule_def
  Signed_GetSignature_def Timestamped_GetTimestamp_def Timestamped_GetSigned_def

section \<open>Requests and responses\<close>

text \<open>The response type is an open enumeration over \<open>int32\<close>.\<close>

type_synonym SubscribeResType = "32 word"

definition SUBSCRIBE_RES_TYPE_UNSPECIFIED :: SubscribeResType where
  "SUBSCRIBE_RES_TYPE_UNSPECIFIED = 0"

definition SUBSCRIBE_RES_TYPE_ACK :: SubscribeResType where
  "SUBSCRIBE_RES_TYPE_ACK = 1"

definition SUBSCRIBE_RES_TYPE_RELAY :: SubscribeResType where
  "SUBSCRIBE_RES_TYPE_RELAY = 2"

lemmas res_types =
  SUBSCRIBE_RES_TYPE_UNSPECIFIED_def SUBSCRIBE_RES_TYPE_ACK_def SUBSCRIBE_RES_TYPE_RELAY_def

record PublishReq =
  pq_SignedMsgCapsule :: "SignedMsgCapsule option"

record PublishRes =
  pr_TopicId :: string
  pr_Ok :: bool

record SubscribeReq =
  sq_TopicId :: string
  sq_Signature :: "Signature option"

datatype SubscribeRes_Res =
    SubscribeRes_Ok bool
  | SubscribeRes_Capsule "TimestampedSignedMsgCapsule option"

record SubscribeRes =
  sr_Type :: SubscribeResType
  sr_TopicId :: string
  sr_SubscriberId :: string
  sr_Res :: "SubscribeRes_Res option"

definition PublishReq_GetSignedMsgCapsule :: "PublishReq option \<Rightarrow> SignedMsgCapsule option" where
  "PublishReq_GetSignedMsgCapsule x =
     (case x of Some m \<Rightarrow> pq_SignedMsgCapsule m | None \<Rightarrow> None)"

definition PublishRes_GetOk :: "PublishRes option \<Rightarrow> bool" where
  "PublishRes_GetOk x = (case x of Some m \<Rightarrow> pr_Ok m | None \<Rightarrow> False)"

definition SubscribeReq_GetTopicId :: "SubscribeReq option \<Rightarrow> string" where
  "SubscribeReq_GetTopicId x = (case x of Some m \<Rightarrow> sq_TopicId m | None \<Rightarrow> [])"

definition SubscribeReq_GetSignature :: "SubscribeReq option \<Rightarrow> Signature option" where
  "SubscribeReq_GetSignature x = (case x of Some m \<Rightarrow> sq_Signature m | None \<Rightarrow> None)"

definition SubscribeRes_GetType :: "SubscribeRes option \<Rightarrow> SubscribeResType" where
  "SubscribeRes_GetType x =
     (case x of Some m \<Rightarrow> sr_Type m | None \<Rightarrow> SUBSCRIBE_RES_TYPE_UNSPECIFIED)"

definition SubscribeRes_GetOk :: "SubscribeRes option \<Rightarrow> bool" where
  "SubscribeRes_GetOk x =
     (case Option.bind x sr_Res of Some (SubscribeRes_Ok b) \<Rightarrow> b | _ \<Rightarrow> False)"

definition SubscribeRes_GetCapsule ::
    "SubscribeRes option \<Rightarrow> TimestampedSignedMsgCapsule option" where
  "SubscribeRes_GetCapsule x =
     (case Option.bind x sr_Res of Some (SubscribeRes_Capsule c) \<Rightarrow> c | _ \<Rightarrow> None)"

lemmas response_getters =
  PublishReq_GetSignedMsgCapsule_def PublishRes_GetOk_def SubscribeReq_GetTopicId_def
  SubscribeReq_GetSignature_def SubscribeRes_GetType_def SubscribeRes_GetOk_def
  SubscribeRes_GetCapsule_def

text \<open>An acknowledgement carries no capsule and a relay response no acknowledgement.\<close>

lemma SubscribeRes_exclusive:
  "SubscribeRes_GetOk x \<Longrightarrow> SubscribeRes_GetCapsule x = None"
  by (auto simp: response_getters split: option.splits SubscribeRes_Res.splits)

end
