(* ===== verification/Protocol.thy ===== *)
theory Protocol
  imports Proto
begin

text \<open>
  \<open>protocol/signature.go\<close>: what a publisher and a subscriber sign and how a signature is
  checked. Key parsing and signature checking (\<open>go-postie-lib/crypto\<close>) and the
  deterministic protobuf encoding are parameters, bundled in a record; \<open>'k\<close> is the type of
  parsed public keys.
\<close>

record 'k crypto =
  GenPubKeyFromBytes :: "bytes \<Rightarrow> goerr + 'k"
  PubKeyVerify :: "'k \<Rightarrow> bytes \<Rightarrow> bytes \<Rightarrow> bool"
  deterministicMarshal :: "MsgCapsule \<Rightarrow> goerr + bytes"

definition MsgCapsuleSigningBytes :: "'k crypto \<Rightarrow> MsgCapsule option \<Rightarrow> goerr + bytes" where
  "MsgCapsuleSigningBytes C msgCapsule =
     (case msgCapsule of
        None \<Rightarrow> Inl (ErrMsg ''msg capsule is required'')
      | Some m \<Rightarrow>
          (case deterministicMarshal C m of
             Inl err \<Rightarrow> Inl (Wrapped ''marshal msg capsule'' err)
           | Inr data \<Rightarrow> Inr data))"

definition SubscribeSigningBytes :: "string \<Rightarrow> bytes" where
  "SubscribeSigningBytes topicID = bytes_of_string topicID"

definition verify ::
    "'k crypto \<Rightarrow> ('v \<Rightarrow> goerr + bytes) \<Rightarrow> 'v \<Rightarrow> Signature option \<Rightarrow> goerr option" where
  "verify C signingBytes v signature =
     (if signature = None then Some (ErrMsg ''signature is required'')
      else if length (Signature_GetPubKey signature) = 0
      then Some (ErrMsg ''public key is required'')
      else
        (case GenPubKeyFromBytes C (Signature_GetPubKey signature) of
           Inl err \<Rightarrow> Some (Wrapped ''parse public key'' err)
         | Inr pubKey \<Rightarrow>
             (case signingBytes v of
                Inl err \<Rightarrow> Some err
              | Inr data \<Rightarrow>
                  if \<not> PubKeyVerify C pubKey data (Signature_GetData signature)
                  then Some (ErrMsg ''invalid signature'') else None)))"

definition VerifySignedMsgCapsule :: "'k crypto \<Rightarrow> SignedMsgCapsule option \<Rightarrow> goerr option" where
  "VerifySignedMsgCapsule C sc =
     (if sc = None then Some (ErrMsg ''signed msg capsule is required'')
      else if Signed_GetMsgCapsule sc = None then Some (ErrMsg ''msg capsule is required'')
      else verify C (MsgCapsuleSigningBytes C) (Signed_GetMsgCapsule sc)
             (Signed_GetSignature sc))"

definition VerifyTimestampedSignedMsgCapsule ::
    "'k crypto \<Rightarrow> TimestampedSignedMsgCapsule option \<Rightarrow> string \<Rightarrow> goerr option" where
  "VerifyTimestampedSignedMsgCapsule C timestamped expectedTopicID =
     (if timestamped = None
      then Some (ErrMsg ''timestamped signed msg capsule is required'')
      else
        let sc = Timestamped_GetSigned timestamped in
        if sc = None \<or> Signed_GetMsgCapsule sc = None
        then Some (ErrMsg ''signed msg capsule is required'')
        else
          let got = MsgCapsule_GetTopicId (Signed_GetMsgCapsule sc) in
          if got \<noteq> expectedTopicID
          then Some (Errorf ''topic id mismatch: got %q, want %q'' [got, expectedTopicID])
          else VerifySignedMsgCapsule C sc)"

definition VerifySubscribe :: "'k crypto \<Rightarrow> string \<Rightarrow> Signature option \<Rightarrow> goerr option" where
  "VerifySubscribe C topicID signature =
     verify C (\<lambda>topic. Inr (SubscribeSigningBytes topic)) topicID signature"

section \<open>Acceptance\<close>

text \<open>A valid signature of some bytes under the key that the signature names.\<close>

definition valid_sig :: "'k crypto \<Rightarrow> Signature \<Rightarrow> bytes \<Rightarrow> bool" where
  "valid_sig C sg data \<longleftrightarrow>
     sg_PubKey sg \<noteq> [] \<and>
     (case GenPubKeyFromBytes C (sg_PubKey sg) of
        Inl _ \<Rightarrow> False | Inr k \<Rightarrow> PubKeyVerify C k data (sg_Data sg))"

lemma verify_accept:
  "verify C f v signature = None \<longleftrightarrow>
     (\<exists>sg data. signature = Some sg \<and> f v = Inr data \<and> valid_sig C sg data)"
  by (auto simp: verify_def valid_sig_def capsule_getters split: option.splits sum.splits)

lemma signing_bytes_Inr:
  "MsgCapsuleSigningBytes C x = Inr data \<longleftrightarrow>
     (\<exists>m. x = Some m \<and> deterministicMarshal C m = Inr data)"
  by (auto simp: MsgCapsuleSigningBytes_def split: option.splits sum.splits)

lemma signed_accept:
  "VerifySignedMsgCapsule C sc = None \<longleftrightarrow>
     (\<exists>s m sg data. sc = Some s \<and> sm_MsgCapsule s = Some m \<and> sm_Signature s = Some sg \<and>
        deterministicMarshal C m = Inr data \<and> valid_sig C sg data)"
  by (auto simp: VerifySignedMsgCapsule_def verify_accept signing_bytes_Inr capsule_getters
      split: option.splits)

lemma timestamped_accept_signed:
  "VerifyTimestampedSignedMsgCapsule C timestamped topicID = None \<longleftrightarrow>
     (\<exists>t s m. timestamped = Some t \<and> ts_SignedMsgCapsule t = Some s \<and>
        sm_MsgCapsule s = Some m \<and> mc_TopicId m = topicID \<and>
        VerifySignedMsgCapsule C (Some s) = None)"
  by (auto simp: VerifyTimestampedSignedMsgCapsule_def Let_def capsule_getters split: option.splits)

section \<open>The contract of a capsule check\<close>

text \<open>
  What the validator of a topic and the receiving client rely on: an accepted capsule carries
  a signed message of exactly the expected topic.
\<close>

definition capsule_of :: "TimestampedSignedMsgCapsule option \<Rightarrow> MsgCapsule option" where
  "capsule_of t = Signed_GetMsgCapsule (Timestamped_GetSigned t)"

locale capsule_check =
  fixes check :: "TimestampedSignedMsgCapsule option \<Rightarrow> string \<Rightarrow> goerr option"
  assumes check_capsule: "check t topic = None \<Longrightarrow> capsule_of t \<noteq> None"
    and check_topic: "check t topic = None \<Longrightarrow> MsgCapsule_GetTopicId (capsule_of t) = topic"
begin

lemma check_unique_topic: "check t topic = None \<Longrightarrow> check t topic' = None \<Longrightarrow> topic = topic'"
  by (metis check_topic)

lemma check_all_topic:
  "\<forall>t \<in> set ts. check t topic = None \<Longrightarrow>
   List.map (\<lambda>t. MsgCapsule_GetTopicId (capsule_of t)) ts = replicate (length ts) topic"
  by (induction ts) (auto simp: check_topic)

end

interpretation proto: capsule_check "VerifyTimestampedSignedMsgCapsule C"
  for C :: "'k crypto"
  by unfold_locales (auto simp: timestamped_accept_signed capsule_of_def capsule_getters)

section \<open>Acceptance of a relayed capsule\<close>

text \<open>
  Acceptance of a relayed capsule, in full: it is accepted on a
  topic exactly when a signed capsule of that very topic is present together with a signature
  whose key parses and verifies the deterministic encoding of the capsule. Timestamp and
  unknown outer fields play no part.
\<close>

lemma timestamped_accept:
  "VerifyTimestampedSignedMsgCapsule C timestamped topicID = None \<longleftrightarrow>
     (\<exists>t s m sg data. timestamped = Some t \<and> ts_SignedMsgCapsule t = Some s \<and>
        sm_MsgCapsule s = Some m \<and> sm_Signature s = Some sg \<and> mc_TopicId m = topicID \<and>
        deterministicMarshal C m = Inr data \<and> valid_sig C sg data)"
  by (auto simp: timestamped_accept_signed signed_accept)

end
