(* ===== verification/Subscriber.thy ===== *)
theory Subscriber
  imports Proto
begin

text \<open>
  \<open>msg/msg.go\<close>: a subscriber is a buffered queue of capsules and a one-shot stop with the
  error that caused it. The buffered channel is its contents, oldest first, and its capacity;
  the mutex makes \<open>stop\<close> and \<open>Err\<close> atomic.
\<close>

record Subscriber =
  sub_messages :: "TimestampedSignedMsgCapsule list"
  sub_capacity :: nat
  sub_done :: bool
  sub_err :: "goerr option"
  sub_stopOnce :: bool

definition newSubscriber :: "nat \<Rightarrow> Subscriber" where
  "newSubscriber bufferSize =
     \<lparr>sub_messages = [], sub_capacity = bufferSize, sub_done = False, sub_err = None,
      sub_stopOnce = False\<rparr>"

definition Messages :: "Subscriber \<Rightarrow> TimestampedSignedMsgCapsule list" where
  "Messages s = sub_messages s"

definition Done :: "Subscriber \<Rightarrow> bool" where
  "Done s = sub_done s"

definition Err :: "Subscriber \<Rightarrow> goerr option" where
  "Err s = sub_err s"

definition stop :: "goerr option \<Rightarrow> Subscriber \<Rightarrow> Subscriber" where
  "stop err s =
     (if sub_stopOnce s then s
      else s\<lparr>sub_stopOnce := True, sub_err := err, sub_done := True\<rparr>)"

text \<open>The \<open>select\<close> with \<open>default\<close> by which the dispatcher queues a capsule.\<close>

definition offer :: "TimestampedSignedMsgCapsule \<Rightarrow> Subscriber \<Rightarrow> bool \<times> Subscriber" where
  "offer capsule s =
     (if length (sub_messages s) < sub_capacity s
      then (True, s\<lparr>sub_messages := sub_messages s @ [capsule]\<rparr>) else (False, s))"

text \<open>A receive from the message channel by the sender of the stream.\<close>

definition receive :: "Subscriber \<Rightarrow> (TimestampedSignedMsgCapsule \<times> Subscriber) option" where
  "receive s =
     (case sub_messages s of [] \<Rightarrow> None | m # ms \<Rightarrow> Some (m, s\<lparr>sub_messages := ms\<rparr>))"

text \<open>The done channel is closed exactly when the once has run.\<close>

definition sub_wf :: "Subscriber \<Rightarrow> bool" where
  "sub_wf s \<longleftrightarrow> sub_done s = sub_stopOnce s \<and> (\<not> sub_done s \<longrightarrow> sub_err s = None) \<and>
     length (sub_messages s) \<le> sub_capacity s"

section \<open>The contracts a subscriber provides\<close>

interpretation sub: stoppable stop sub_stopOnce sub_err
  by unfold_locales (auto simp: stop_def)

interpretation subq: bounded_chan sub_messages sub_capacity offer receive
  by unfold_locales (auto simp: offer_def receive_def split: list.splits)

lemma newSubscriber_wf [simp]: "sub_wf (newSubscriber n)"
  by (simp add: sub_wf_def newSubscriber_def)

lemma stop_wf [simp]: "sub_wf s \<Longrightarrow> sub_wf (stop e s)"
  by (simp add: sub_wf_def stop_def)

lemma offer_wf [simp]: "sub_wf s \<Longrightarrow> sub_wf (snd (offer m s))"
  by (simp add: sub_wf_def offer_def)

lemma receive_wf: "sub_wf s \<Longrightarrow> receive s = Some (m, t) \<Longrightarrow> sub_wf t"
  by (auto simp: sub_wf_def receive_def split: list.splits)

lemma stop_simps [simp]:
  "sub_messages (stop e s) = sub_messages s"
  "sub_capacity (stop e s) = sub_capacity s"
  "sub_stopOnce (stop e s)"
  "stop e' (stop e s) = stop e s"
  by (simp_all add: stop_def)

lemma offer_frame [simp]:
  "sub_done (snd (offer m s)) = sub_done s"
  "sub_err (snd (offer m s)) = sub_err s"
  "sub_stopOnce (snd (offer m s)) = sub_stopOnce s"
  by (simp_all add: offer_def)

lemma stop_done: "sub_wf s \<Longrightarrow> sub_done (stop e s)"
  by (simp add: sub_wf_def stop_def)

lemma offer_stop: "offer m (stop e s) = (fst (offer m s), stop e (snd (offer m s)))"
  by (simp add: offer_def stop_def)

end
