(* ===== verification/Box.thy ===== *)
theory Box
  imports Subscriber Config
begin

text \<open>
  \<open>msg/box.go\<close>, the data and the dispatcher. A box fans the messages of one topic out to its
  subscribers. One goroutine, the dispatcher, owns the subscription state and handles control
  events; one worker goroutine per generation reads the subscription.

  Pointers and channels are references (\<open>nat\<close>) into stores of the record \<open>Box\<close>: subscribers,
  join-reply channels, acknowledgement channels of leave and stop requests, contexts. Workers
  are numbered in the order in which they are started; the \<open>activation\<close> channel, the context
  and the cancel function of a worker are named by its number. Go maps are association lists
  in the order in which a \<open>range\<close> loop visits them. Log calls are left out. The channels for
  join replies and activations have capacity one; a send appends, and the theory
  \<open>BoxSafety\<close> proves that they never hold more than one item, so that no send blocks.
\<close>

section \<open>Data\<close>

datatype subscriptionState =
  subscriptionIdle | subscriptionStarting | subscriptionRunning | subscriptionStopping |
  subscriptionClosing

record joinResult =
  res_subscriber :: "nat option"
  res_err :: "goerr option"

record joinRequest =
  jr_subscriberID :: string
  jr_subscriber :: nat
  jr_reply :: nat
  jr_ctx :: "nat option"

datatype controlEvent =
    JoinReq joinRequest
  | CancelJoinReq string nat
  | LeaveReq string nat
  | StopReq nat
  | CloseReq
  | StartResult "64 word" nat "goerr option"
  | WorkerStopped "64 word" "goerr option"

record subscriptionMessage =
  smsg_generation :: "64 word"
  smsg_capsule :: TimestampedSignedMsgCapsule

text \<open>
  Where a worker goroutine stands: about to subscribe, offering its start result, waiting for
  the activation decision, cancelling a subscription that was not activated and offering the
  terminal event, reading, queueing a capsule, cancelling after the loop and offering the
  terminal event, and after that event, before and after the deferred \<open>workerWG.Done\<close>.
\<close>

datatype workerPC =
    WSubscribe
  | WSendStart "goerr option"
  | WAwait
  | WCancelInactive
  | WStopInactive
  | WNext
  | WQueue TimestampedSignedMsgCapsule
  | WLoopCheck
  | WCancel "goerr option"
  | WStop "goerr option"
  | WReturning
  | WDone

record worker =
  w_generation :: "64 word"
  w_pc :: workerPC
  w_ctxDone :: bool
  w_activation :: "bool list"

text \<open>Where the dispatcher stands: in its loop, in \<open>workerWG.Wait\<close>, returned.\<close>

datatype dispatcherPC = DLoop | DWait | DReturned

text \<open>Where a caller of \<open>JoinSubContext\<close> stands, and what it returned.\<close>

datatype callPC =
    CNone
  | CSend
  | CWait
  | CReturned joinResult

record Box =
  topicID :: string
  boxCtxDone :: bool
  messageCh :: "subscriptionMessage list"
  messageCap :: nat
  boxDone :: bool
  boxCloseErr :: "goerr option"
  closeOnce :: bool
  topicCloses :: nat
  state :: subscriptionState
  generation :: "64 word"
  pending :: "(string \<times> joinRequest) list"
  active :: "(string \<times> nat) list"
  workerCancel :: "nat option"
  dispatcher :: dispatcherPC
  workers :: "worker list"
  subs :: "nat \<Rightarrow> Subscriber"
  replies :: "nat \<Rightarrow> joinResult list"
  acks :: "nat \<Rightarrow> nat"
  ctxs :: "nat \<Rightarrow> goerr option"
  calls :: "nat \<Rightarrow> callPC"
  reqs :: "nat \<Rightarrow> joinRequest"
  nextRef :: nat
  cancels :: "nat list"

text \<open>
  \<open>make(chan subscriptionMessage, size)\<close> panics for a negative size; the other channels are
  created empty and the dispatcher starts idle.
\<close>

definition newBoxWithBackend :: "int \<Rightarrow> string \<Rightarrow> (nat \<Rightarrow> goerr option) \<Rightarrow> Box outcome" where
  "newBoxWithBackend internalChanBufferSize topic ctx0 =
     (if internalChanBufferSize < 0 then Panics ''makechan: size out of range''
      else Returns
        \<lparr>topicID = topic, boxCtxDone = False, messageCh = [],
         messageCap = nat internalChanBufferSize, boxDone = False, boxCloseErr = None,
         closeOnce = False, topicCloses = 0,
         state = subscriptionIdle, generation = 0, pending = [], active = [],
         workerCancel = None, dispatcher = DLoop, workers = [],
         subs = (\<lambda>_. newSubscriber 0), replies = (\<lambda>_. []), acks = (\<lambda>_. 0), ctxs = ctx0,
         calls = (\<lambda>_. CNone),
         reqs = (\<lambda>_. \<lparr>jr_subscriberID = [], jr_subscriber = 0, jr_reply = 0, jr_ctx = None\<rparr>),
         nextRef = 0, cancels = []\<rparr>)"

section \<open>Effects on the stores\<close>

definition sub_stop :: "nat \<Rightarrow> goerr option \<Rightarrow> Box \<Rightarrow> Box" where
  "sub_stop r err b = b\<lparr>subs := (subs b)(r := stop err (subs b r))\<rparr>"

definition send_reply :: "nat \<Rightarrow> joinResult \<Rightarrow> Box \<Rightarrow> Box" where
  "send_reply r res b = b\<lparr>replies := (replies b)(r := replies b r @ [res])\<rparr>"

definition send_ack :: "nat \<Rightarrow> Box \<Rightarrow> Box" where
  "send_ack r b = b\<lparr>acks := (acks b)(r := Suc (acks b r))\<rparr>"

definition send_activation :: "nat \<Rightarrow> bool \<Rightarrow> Box \<Rightarrow> Box" where
  "send_activation w a b =
     b\<lparr>workers := (workers b)[w := (workers b ! w)\<lparr>w_activation := w_activation (workers b ! w) @ [a]\<rparr>]\<rparr>"

definition cancel_worker :: "nat \<Rightarrow> Box \<Rightarrow> Box" where
  "cancel_worker w b = b\<lparr>workers := (workers b)[w := (workers b ! w)\<lparr>w_ctxDone := True\<rparr>]\<rparr>"

text \<open>\<open>request.ctx != nil\<close> and its \<open>Err()\<close>.\<close>

definition ctx_err :: "Box \<Rightarrow> nat option \<Rightarrow> goerr option" where
  "ctx_err b c = (case c of None \<Rightarrow> None | Some r \<Rightarrow> ctxs b r)"

lemmas store_defs = sub_stop_def send_reply_def send_ack_def send_activation_def cancel_worker_def

section \<open>The dispatcher's helpers\<close>

definition startWorker :: "64 word \<Rightarrow> Box \<Rightarrow> Box" where
  "startWorker gen b =
     b\<lparr>workers := workers b @
        [\<lparr>w_generation = gen, w_pc = WSubscribe, w_ctxDone = False, w_activation = []\<rparr>]\<rparr>"

definition startGeneration :: "Box \<Rightarrow> Box" where
  "startGeneration b =
     (let b = b\<lparr>generation := generation b + 1\<rparr>;
          b = b\<lparr>state := subscriptionStarting\<rparr>;
          b = b\<lparr>workerCancel := Some (length (workers b))\<rparr>
      in startWorker (generation b) b)"

definition beginStopping :: "Box \<Rightarrow> Box" where
  "beginStopping b =
     (let b = b\<lparr>state := subscriptionStopping\<rparr>
      in case workerCancel b of None \<Rightarrow> b | Some w \<Rightarrow> cancel_worker w b)"

definition restartOrIdle :: "Box \<Rightarrow> Box" where
  "restartOrIdle b =
     (if pending b = [] then b\<lparr>state := subscriptionIdle\<rparr> else startGeneration b)"

definition fail_request :: "goerr option \<Rightarrow> string \<times> joinRequest \<Rightarrow> Box \<Rightarrow> Box" where
  "fail_request err p b =
     (let b = b\<lparr>pending := AList.delete (fst p) (pending b)\<rparr>;
          b = sub_stop (jr_subscriber (snd p)) err b
      in send_reply (jr_reply (snd p)) \<lparr>res_subscriber = None, res_err = err\<rparr> b)"

definition failPending :: "goerr option \<Rightarrow> Box \<Rightarrow> Box" where
  "failPending err b = fold (fail_request err) (pending b) b"

definition stop_subscriber :: "goerr option \<Rightarrow> string \<times> nat \<Rightarrow> Box \<Rightarrow> Box" where
  "stop_subscriber err p b =
     sub_stop (snd p) err (b\<lparr>active := AList.delete (fst p) (active b)\<rparr>)"

definition stopActive :: "goerr option \<Rightarrow> Box \<Rightarrow> Box" where
  "stopActive err b = fold (stop_subscriber err) (active b) b"

definition rejectDuplicate :: "joinRequest \<Rightarrow> Box \<Rightarrow> Box" where
  "rejectDuplicate request b =
     (let err = Some (Errorf ''%s is already subscribing'' [jr_subscriberID request]);
          b = sub_stop (jr_subscriber request) err b
      in send_reply (jr_reply request) \<lparr>res_subscriber = None, res_err = err\<rparr> b)"

section \<open>The handlers\<close>

definition handleJoin :: "joinRequest \<Rightarrow> Box \<Rightarrow> Box" where
  "handleJoin request b =
     (if ctx_err b (jr_ctx request) \<noteq> None
      then send_reply (jr_reply request)
             \<lparr>res_subscriber = None, res_err = ctx_err b (jr_ctx request)\<rparr>
             (sub_stop (jr_subscriber request) (ctx_err b (jr_ctx request)) b)
      else if state b = subscriptionClosing
      then send_reply (jr_reply request) \<lparr>res_subscriber = None, res_err = Some ErrBoxClosed\<rparr>
             (sub_stop (jr_subscriber request) (Some ErrBoxClosed) b)
      else if map_of (active b) (jr_subscriberID request) \<noteq> None then rejectDuplicate request b
      else if map_of (pending b) (jr_subscriberID request) \<noteq> None then rejectDuplicate request b
      else
        (case state b of
           subscriptionIdle \<Rightarrow>
             startGeneration
               (b\<lparr>pending := AList.update (jr_subscriberID request) request (pending b)\<rparr>)
         | subscriptionStarting \<Rightarrow>
             b\<lparr>pending := AList.update (jr_subscriberID request) request (pending b)\<rparr>
         | subscriptionStopping \<Rightarrow>
             b\<lparr>pending := AList.update (jr_subscriberID request) request (pending b)\<rparr>
         | subscriptionRunning \<Rightarrow>
             send_reply (jr_reply request)
               \<lparr>res_subscriber = Some (jr_subscriber request), res_err = None\<rparr>
               (b\<lparr>active := AList.update (jr_subscriberID request) (jr_subscriber request)
                    (active b)\<rparr>)
         | subscriptionClosing \<Rightarrow> b))"

definition cancelPending :: "string \<Rightarrow> nat \<Rightarrow> Box \<Rightarrow> Box" where
  "cancelPending subscriberID subscriber b =
     (case map_of (pending b) subscriberID of
        None \<Rightarrow> b
      | Some p \<Rightarrow>
          if jr_subscriber p = subscriber then
            let b = fail_request (Some CtxCanceled) (subscriberID, p) b in
            if pending b = [] \<and> state b = subscriptionStarting then beginStopping b else b
          else b)"

definition cancelActive :: "string \<Rightarrow> nat \<Rightarrow> Box \<Rightarrow> Box" where
  "cancelActive subscriberID subscriber b =
     (case map_of (active b) subscriberID of
        None \<Rightarrow> b
      | Some a \<Rightarrow>
          if a = subscriber then
            let b = stop_subscriber (Some CtxCanceled) (subscriberID, a) b in
            if active b = [] \<and> state b = subscriptionRunning then beginStopping b else b
          else b)"

definition handleCancelJoin :: "string \<Rightarrow> nat \<Rightarrow> Box \<Rightarrow> Box" where
  "handleCancelJoin subscriberID subscriber b =
     cancelActive subscriberID subscriber (cancelPending subscriberID subscriber b)"

definition handleLeave :: "string \<Rightarrow> nat \<Rightarrow> Box \<Rightarrow> Box" where
  "handleLeave subscriberID reply b =
     send_ack reply
       (case map_of (active b) subscriberID of
          None \<Rightarrow> b
        | Some subscriber \<Rightarrow>
            let b = stop_subscriber None (subscriberID, subscriber) b in
            if active b = [] \<and> state b = subscriptionRunning then beginStopping b else b)"

definition handleStop :: "nat \<Rightarrow> Box \<Rightarrow> Box" where
  "handleStop reply b =
     (let b = stopActive None b;
          b = (if state b = subscriptionStarting \<or> state b = subscriptionRunning
               then beginStopping b else b)
      in send_ack reply b)"

definition handleClose :: "Box \<Rightarrow> Box" where
  "handleClose b =
     (if state b = subscriptionClosing then b
      else
        let b = b\<lparr>state := subscriptionClosing\<rparr>;
            b = b\<lparr>boxCtxDone := True\<rparr>;
            b = failPending (Some ErrBoxClosed) b;
            b = stopActive (Some ErrBoxClosed) b
        in case workerCancel b of None \<Rightarrow> b | Some w \<Rightarrow> cancel_worker w b)"

definition drop_expired :: "string \<times> joinRequest \<Rightarrow> Box \<Rightarrow> Box" where
  "drop_expired p b =
     (if ctx_err b (jr_ctx (snd p)) \<noteq> None
      then fail_request (ctx_err b (jr_ctx (snd p))) p b else b)"

definition dropExpired :: "Box \<Rightarrow> Box" where
  "dropExpired b = fold drop_expired (pending b) b"

definition admit_request :: "string \<times> joinRequest \<Rightarrow> Box \<Rightarrow> Box" where
  "admit_request p b =
     (let b = b\<lparr>pending := AList.delete (fst p) (pending b)\<rparr>;
          b = b\<lparr>active := AList.update (fst p) (jr_subscriber (snd p)) (active b)\<rparr>
      in send_reply (jr_reply (snd p))
           \<lparr>res_subscriber = Some (jr_subscriber (snd p)), res_err = None\<rparr> b)"

definition admitPending :: "Box \<Rightarrow> Box" where
  "admitPending b = fold admit_request (pending b) b"

definition handleStartResult :: "64 word \<Rightarrow> nat \<Rightarrow> goerr option \<Rightarrow> Box \<Rightarrow> Box" where
  "handleStartResult gen activation err b =
     (if gen \<noteq> generation b
      then (if err = None then send_activation activation False b else b)
      else if err \<noteq> None then
        let b = b\<lparr>workerCancel := None\<rparr> in
        (case state b of
           subscriptionStarting \<Rightarrow> (failPending err b)\<lparr>state := subscriptionIdle\<rparr>
         | subscriptionStopping \<Rightarrow> restartOrIdle b
         | _ \<Rightarrow> b)
      else
        (case state b of
           subscriptionStarting \<Rightarrow>
             let b = dropExpired b in
             if pending b = [] then send_activation activation False (beginStopping b)
             else
               let b = b\<lparr>state := subscriptionRunning\<rparr>;
                   b = send_activation activation True b
               in admitPending b
         | _ \<Rightarrow> send_activation activation False b))"

definition handleWorkerStopped :: "64 word \<Rightarrow> goerr option \<Rightarrow> Box \<Rightarrow> Box" where
  "handleWorkerStopped gen err b =
     (if gen \<noteq> generation b then b
      else
        let b = b\<lparr>workerCancel := None\<rparr> in
        (case state b of
           subscriptionRunning \<Rightarrow> (stopActive err b)\<lparr>state := subscriptionIdle\<rparr>
         | subscriptionStopping \<Rightarrow> restartOrIdle b
         | _ \<Rightarrow> b))"

definition fan_out :: "TimestampedSignedMsgCapsule \<Rightarrow> string \<times> nat \<Rightarrow> Box \<Rightarrow> Box" where
  "fan_out capsule p b =
     (if fst (offer capsule (subs b (snd p)))
      then b\<lparr>subs := (subs b)(snd p := snd (offer capsule (subs b (snd p))))\<rparr>
      else stop_subscriber (Some ErrSlowSubscriber) p b)"

definition handleMessage :: "subscriptionMessage \<Rightarrow> Box \<Rightarrow> Box" where
  "handleMessage message b =
     (if state b \<noteq> subscriptionRunning \<or> smsg_generation message \<noteq> generation b then b
      else
        let b = fold (fan_out (smsg_capsule message)) (active b) b in
        if active b = [] then beginStopping b else b)"

text \<open>
  \<open>handleControl\<close>: the event's handler, then the test whether the dispatcher is closing and no
  worker remains; in that case it goes on to wait for the worker group.
\<close>

fun dispatch :: "controlEvent \<Rightarrow> Box \<Rightarrow> Box" where
  "dispatch (JoinReq r) b = handleJoin r b"
| "dispatch (CancelJoinReq i s) b = handleCancelJoin i s b"
| "dispatch (LeaveReq i r) b = handleLeave i r b"
| "dispatch (StopReq r) b = handleStop r b"
| "dispatch CloseReq b = handleClose b"
| "dispatch (StartResult g a e) b = handleStartResult g a e b"
| "dispatch (WorkerStopped g e) b = handleWorkerStopped g e b"

definition handleControl :: "controlEvent \<Rightarrow> Box \<Rightarrow> Box" where
  "handleControl event b =
     (let b = dispatch event b in
      if state b \<noteq> subscriptionClosing \<or> workerCancel b \<noteq> None then b
      else b\<lparr>dispatcher := DWait\<rparr>)"

text \<open>The end of \<open>handleControl\<close>, after \<open>workerWG.Wait()\<close>; \<open>err\<close> is what \<open>topic.Close()\<close> returns.\<close>

definition finishClose :: "goerr option \<Rightarrow> Box \<Rightarrow> Box" where
  "finishClose err b =
     b\<lparr>boxCloseErr := err, topicCloses := Suc (topicCloses b), boxDone := True,
       dispatcher := DReturned\<rparr>"

lemmas handler_bodies [handler_defs] =
  handleJoin_def handleCancelJoin_def cancelPending_def cancelActive_def handleLeave_def
  handleStop_def handleClose_def handleStartResult_def handleWorkerStopped_def
  handleMessage_def rejectDuplicate_def restartOrIdle_def

section \<open>Publishing\<close>

text \<open>
  \<open>marshal\<close> is the protobuf encoder, \<open>publish\<close> the topic's publish under the box's context
  (whose only visible state is whether it is cancelled), \<open>now\<close> the clock.
\<close>

definition Box_Publish ::
    "(TimestampedSignedMsgCapsule \<Rightarrow> goerr + bytes) \<Rightarrow> (bool \<Rightarrow> bytes \<Rightarrow> goerr option) \<Rightarrow>
     64 word \<Rightarrow> SignedMsgCapsule option \<Rightarrow> Box \<Rightarrow> goerr option" where
  "Box_Publish marshal publish now signedMsgCapsule b =
     (let timestamped = \<lparr>ts_Timestamp = now, ts_SignedMsgCapsule = signedMsgCapsule,
                         ts_unknownFields = []\<rparr>
      in case marshal timestamped of
           Inl err \<Rightarrow> Some err
         | Inr data \<Rightarrow> publish (boxCtxDone b) data)"

end
