(* ===== verification/BoxLoops.thy ===== *)
theory BoxLoops
  imports Box "HOL-Library.Multiset"
begin

text \<open>
  The \<open>range\<close> loops of the dispatcher in closed form: each is an iteration that updates the
  stores entry by entry, and each equals one simultaneous update. From the closed forms it
  follows that the order in which Go visits a map cannot be observed.
\<close>

lemma filter_delete:
  "filter (\<lambda>p. fst p \<notin> A) (AList.delete k m) = filter (\<lambda>p. fst p \<notin> insert k A) m"
  by (auto simp: AList.delete_eq intro: filter_cong)

lemma filter_own_keys [simp]: "filter (\<lambda>p. fst p \<notin> fst ` set m) m = []"
  by (auto simp: filter_empty_conv)

section \<open>Failing requests and stopping subscribers\<close>

definition sub_refs :: "(string \<times> joinRequest) list \<Rightarrow> nat list" where
  "sub_refs ps = List.map (\<lambda>p. jr_subscriber (snd p)) ps"

definition reply_refs :: "(string \<times> joinRequest) list \<Rightarrow> nat list" where
  "reply_refs ps = List.map (\<lambda>p. jr_reply (snd p)) ps"

lemma sub_refs_simps [simp]:
  "sub_refs [] = []" "sub_refs (p # ps) = jr_subscriber (snd p) # sub_refs ps"
  "sub_refs (ps @ qs) = sub_refs ps @ sub_refs qs"
  by (simp_all add: sub_refs_def)

lemma reply_refs_simps [simp]:
  "reply_refs [] = []" "reply_refs (p # ps) = jr_reply (snd p) # reply_refs ps"
  "reply_refs (ps @ qs) = reply_refs ps @ reply_refs qs"
  by (simp_all add: reply_refs_def)

lemma fail_request_eq:
  "fail_request err p b =
     b\<lparr>pending := AList.delete (fst p) (pending b),
       subs := (subs b)(jr_subscriber (snd p) := stop err (subs b (jr_subscriber (snd p)))),
       replies := (replies b)(jr_reply (snd p) :=
         replies b (jr_reply (snd p)) @ [\<lparr>res_subscriber = None, res_err = err\<rparr>])\<rparr>"
  by (simp add: fail_request_def sub_stop_def send_reply_def Let_def)

lemma stop_subscriber_eq:
  "stop_subscriber err p b =
     b\<lparr>active := AList.delete (fst p) (active b),
       subs := (subs b)(snd p := stop err (subs b (snd p)))\<rparr>"
  by (simp add: stop_subscriber_def sub_stop_def)

lemma fold_fail_request:
  "fold (fail_request err) ps b =
     b\<lparr>pending := filter (\<lambda>p. fst p \<notin> fst ` set ps) (pending b),
       subs := (\<lambda>r. if r \<in> set (sub_refs ps) then stop err (subs b r) else subs b r),
       replies := (\<lambda>r. replies b r @
         replicate (count_list (reply_refs ps) r) \<lparr>res_subscriber = None, res_err = err\<rparr>)\<rparr>"
proof (induction ps arbitrary: b)
  case Nil
  then show ?case by simp
next
  case (Cons p ps)
  show ?case
    by (simp add: Cons.IH) (simp add: fail_request_eq filter_delete fun_eq_iff)
qed

lemma failPending_eq:
  "failPending err b =
     b\<lparr>pending := [],
       subs := (\<lambda>r. if r \<in> set (sub_refs (pending b)) then stop err (subs b r) else subs b r),
       replies := (\<lambda>r. replies b r @ replicate (count_list (reply_refs (pending b)) r)
                   \<lparr>res_subscriber = None, res_err = err\<rparr>)\<rparr>"
  by (simp add: failPending_def fold_fail_request)

lemma fold_stop_subscriber:
  "fold (stop_subscriber err) ps b =
     b\<lparr>active := filter (\<lambda>p. fst p \<notin> fst ` set ps) (active b),
       subs := (\<lambda>r. if r \<in> snd ` set ps then stop err (subs b r) else subs b r)\<rparr>"
proof (induction ps arbitrary: b)
  case Nil
  then show ?case by simp
next
  case (Cons p ps)
  show ?case
    by (simp add: Cons.IH) (simp add: stop_subscriber_eq filter_delete fun_eq_iff)
qed

lemma stopActive_eq:
  "stopActive err b =
     b\<lparr>active := [],
       subs := (\<lambda>r. if r \<in> snd ` set (active b) then stop err (subs b r) else subs b r)\<rparr>"
  by (simp add: stopActive_def fold_stop_subscriber)

section \<open>Admitting and expiring requests\<close>

definition expired :: "Box \<Rightarrow> string \<times> joinRequest \<Rightarrow> bool" where
  "expired b p \<longleftrightarrow> ctx_err b (jr_ctx (snd p)) \<noteq> None"

definition expiry_reply :: "Box \<Rightarrow> string \<times> joinRequest \<Rightarrow> joinResult" where
  "expiry_reply b p = \<lparr>res_subscriber = None, res_err = ctx_err b (jr_ctx (snd p))\<rparr>"

lemma ctx_err_fail_request [simp]: "ctx_err (fail_request e p b) c = ctx_err b c"
  by (simp add: ctx_err_def fail_request_eq split: option.splits)

lemma expired_fail_request [simp]:
  "expired (fail_request e p b) q = expired b q"
  "expiry_reply (fail_request e p b) q = expiry_reply b q"
  by (simp_all add: expired_def expiry_reply_def)

definition stop_expired ::
    "Box \<Rightarrow> (string \<times> joinRequest) list \<Rightarrow> nat \<Rightarrow> Subscriber \<Rightarrow> Subscriber" where
  "stop_expired b ps r s =
     fold (\<lambda>p s. if expired b p \<and> jr_subscriber (snd p) = r
                 then stop (ctx_err b (jr_ctx (snd p))) s else s) ps s"

lemma fold_drop_expired:
  "fold drop_expired ps b =
     b\<lparr>pending := filter (\<lambda>p. fst p \<notin> fst ` set (filter (expired b) ps)) (pending b),
       subs := (\<lambda>r. stop_expired b ps r (subs b r)),
       replies := (\<lambda>r. replies b r @ List.map (expiry_reply b)
         (filter (\<lambda>p. expired b p \<and> jr_reply (snd p) = r) ps))\<rparr>"
proof (induction ps arbitrary: b)
  case Nil
  then show ?case by (simp add: stop_expired_def)
next
  case (Cons p ps)
  show ?case
  proof (cases "expired b p")
    case False
    then have "drop_expired p b = b" by (simp add: drop_expired_def expired_def)
    with False show ?thesis by (simp add: Cons.IH stop_expired_def)
  next
    case True
    define b1 where "b1 = fail_request (ctx_err b (jr_ctx (snd p))) p b"
    from True have step: "drop_expired p b = b1"
      by (simp add: drop_expired_def expired_def b1_def)
    have frame [simp]: "expired b1 = expired b" "expiry_reply b1 = expiry_reply b"
      "ctx_err b1 = ctx_err b"
      by (simp_all add: b1_def fun_eq_iff)
    have stops [simp]: "stop_expired b1 = stop_expired b"
      by (intro ext) (unfold stop_expired_def frame, rule refl)
    have subs1: "subs b1 = (subs b)(jr_subscriber (snd p) :=
        stop (ctx_err b (jr_ctx (snd p))) (subs b (jr_subscriber (snd p))))"
      by (simp add: b1_def fail_request_eq)
    have se: "stop_expired b ps r (subs b1 r) = stop_expired b (p # ps) r (subs b r)" for r
      using True by (simp add: stop_expired_def subs1)
    have rest: "b1\<lparr>pending := x, subs := y, replies := z\<rparr> =
        b\<lparr>pending := x, subs := y, replies := z\<rparr>"
      and pend: "pending b1 = AList.delete (fst p) (pending b)"
      and reply: "replies b1 = (replies b)(jr_reply (snd p) :=
         replies b (jr_reply (snd p)) @ [expiry_reply b p])" for x y z
      by (simp_all add: b1_def fail_request_eq expiry_reply_def)
    from True show ?thesis
      by (simp add: Cons.IH step se rest pend reply filter_delete)
        (simp add: fun_eq_iff)
  qed
qed

lemma dropExpired_pending:
  assumes "distinct (keys (pending b))"
  shows "pending (dropExpired b) = filter (\<lambda>p. \<not> expired b p) (pending b)"
proof -
  have "fst p \<in> fst ` set (filter (expired b) (pending b)) \<longleftrightarrow> expired b p"
    if "p \<in> set (pending b)" for p
    using that assms by (force simp: distinct_map inj_on_def)
  then have "filter (\<lambda>p. fst p \<notin> fst ` set (filter (expired b) (pending b))) (pending b) =
      filter (\<lambda>p. \<not> expired b p) (pending b)"
    by (intro filter_cong) auto
  then show ?thesis
    by (simp only: dropExpired_def fold_drop_expired) simp
qed

definition admit_reply :: "string \<times> joinRequest \<Rightarrow> joinResult" where
  "admit_reply p = \<lparr>res_subscriber = Some (jr_subscriber (snd p)), res_err = None\<rparr>"

definition admit_active ::
    "(string \<times> joinRequest) list \<Rightarrow> (string \<times> nat) list \<Rightarrow> (string \<times> nat) list" where
  "admit_active ps m = fold (\<lambda>p. AList.update (fst p) (jr_subscriber (snd p))) ps m"

lemma fold_admit_request:
  "fold admit_request ps b =
     b\<lparr>pending := filter (\<lambda>p. fst p \<notin> fst ` set ps) (pending b),
       active := admit_active ps (active b),
       replies := (\<lambda>r. replies b r @
         List.map admit_reply (filter (\<lambda>p. jr_reply (snd p) = r) ps))\<rparr>"
proof (induction ps arbitrary: b)
  case Nil
  then show ?case by (simp add: admit_active_def)
next
  case (Cons p ps)
  show ?case
    by (simp add: Cons.IH)
      (simp add: admit_request_def send_reply_def Let_def admit_active_def filter_delete
        fun_eq_iff admit_reply_def)
qed

lemma admitPending_eq:
  "admitPending b =
     b\<lparr>pending := [], active := admit_active (pending b) (active b),
       replies := (\<lambda>r. replies b r @
         List.map admit_reply (filter (\<lambda>p. jr_reply (snd p) = r) (pending b)))\<rparr>"
  by (simp add: admitPending_def fold_admit_request)

lemma admit_active_fresh:
  assumes "distinct (keys ps)" and "fst ` set ps \<inter> fst ` set m = {}"
  shows "admit_active ps m = m @ List.map (\<lambda>p. (fst p, jr_subscriber (snd p))) ps"
  using assms
proof (induction ps arbitrary: m)
  case Nil
  then show ?case by (simp add: admit_active_def)
next
  case (Cons p ps)
  have "map_of m (fst p) = None" using Cons.prems(2) by (auto simp: map_of_eq_None_iff)
  then have upd: "AList.update (fst p) (jr_subscriber (snd p)) m =
      m @ [(fst p, jr_subscriber (snd p))]"
    by (rule update_new)
  have "admit_active ps (m @ [(fst p, jr_subscriber (snd p))]) =
      (m @ [(fst p, jr_subscriber (snd p))]) @
      List.map (\<lambda>p. (fst p, jr_subscriber (snd p))) ps"
    using Cons.prems by (intro Cons.IH) auto
  then show ?case by (simp add: admit_active_def upd)
qed

section \<open>Fan-out\<close>

definition has_room :: "Box \<Rightarrow> nat \<Rightarrow> bool" where
  "has_room b r \<longleftrightarrow> length (sub_messages (subs b r)) < sub_capacity (subs b r)"

definition fanned :: "TimestampedSignedMsgCapsule \<Rightarrow> Subscriber \<Rightarrow> Subscriber" where
  "fanned c s = (if fst (offer c s) then snd (offer c s) else stop (Some ErrSlowSubscriber) s)"

lemma offer_room_iff: "fst (offer c (subs b r)) \<longleftrightarrow> has_room b r"
  by (simp add: has_room_def subq.offer_iff)

lemma fan_out_eq:
  "fan_out c p b =
     b\<lparr>active := (if has_room b (snd p) then active b else AList.delete (fst p) (active b)),
       subs := (subs b)(snd p := fanned c (subs b (snd p)))\<rparr>"
  by (simp add: fan_out_def stop_subscriber_eq fanned_def offer_room_iff)

lemma fold_fan_out:
  assumes "distinct (vals ps)"
  shows "fold (fan_out c) ps b =
     b\<lparr>active := filter (\<lambda>p. fst p \<notin> fst ` {q \<in> set ps. \<not> has_room b (snd q)}) (active b),
       subs := (\<lambda>r. if r \<in> snd ` set ps then fanned c (subs b r) else subs b r)\<rparr>"
  using assms
proof (induction ps arbitrary: b)
  case Nil
  then show ?case by simp
next
  case (Cons p ps)
  have room: "has_room (fan_out c p b) (snd q) = has_room b (snd q)" if "q \<in> set ps" for q
  proof -
    have "snd q \<noteq> snd p" using that Cons.prems by (auto simp: image_iff)
    then have "subs (fan_out c p b) (snd q) = subs b (snd q)" by (simp add: fan_out_eq)
    then show ?thesis by (simp add: has_room_def)
  qed
  have sets: "{q \<in> set ps. \<not> has_room (fan_out c p b) (snd q)} = {q \<in> set ps. \<not> has_room b (snd q)}"
    using room by blast
  have "fold (fan_out c) (p # ps) b = fold (fan_out c) ps (fan_out c p b)" by simp
  also have "\<dots> = (fan_out c p b)
     \<lparr>active := filter (\<lambda>p. fst p \<notin> fst ` {q \<in> set ps. \<not> has_room b (snd q)})
        (active (fan_out c p b)),
      subs := (\<lambda>r. if r \<in> snd ` set ps then fanned c (subs (fan_out c p b) r)
        else subs (fan_out c p b) r)\<rparr>"
    using Cons.prems by (simp add: Cons.IH sets)
  also have "\<dots> = b\<lparr>active :=
        filter (\<lambda>q. fst q \<notin> fst ` {q \<in> set (p # ps). \<not> has_room b (snd q)}) (active b),
      subs := (\<lambda>r. if r \<in> snd ` set (p # ps) then fanned c (subs b r) else subs b r)\<rparr>"
  proof -
    have eq: "{q. (q = p \<or> q \<in> set ps) \<and> \<not> has_room b (snd q)} =
        (if has_room b (snd p) then {q \<in> set ps. \<not> has_room b (snd q)}
         else insert p {q \<in> set ps. \<not> has_room b (snd q)})"
      by auto
    show ?thesis
      using Cons.prems by (auto simp: fan_out_eq filter_delete fun_eq_iff eq)
  qed
  finally show ?case .
qed

lemma fan_out_active:
  assumes "distinct (vals (active b))" and "distinct (keys (active b))"
  shows "fold (fan_out c) (active b) b =
     b\<lparr>active := filter (\<lambda>p. has_room b (snd p)) (active b),
       subs := (\<lambda>r. if r \<in> snd ` set (active b) then fanned c (subs b r) else subs b r)\<rparr>"
proof -
  have "fst p \<in> fst ` {q \<in> set (active b). \<not> has_room b (snd q)} \<longleftrightarrow> \<not> has_room b (snd p)"
    if "p \<in> set (active b)" for p
    using that assms(2) by (force simp: distinct_map inj_on_def)
  then have "filter (\<lambda>p. fst p \<notin> fst ` {q \<in> set (active b). \<not> has_room b (snd q)}) (active b) =
      filter (\<lambda>p. has_room b (snd p)) (active b)"
    by (intro filter_cong) auto
  with assms(1) show ?thesis by (simp add: fold_fan_out)
qed

lemma handleMessage_eq:
  assumes "distinct (vals (active b))" and "distinct (keys (active b))"
    and "state b = subscriptionRunning" and "smsg_generation m = generation b"
  shows "handleMessage m b =
     (let b' = b\<lparr>active := filter (\<lambda>p. has_room b (snd p)) (active b),
                 subs := (\<lambda>r. if r \<in> snd ` set (active b)
                              then fanned (smsg_capsule m) (subs b r) else subs b r)\<rparr>
      in if active b' = [] then beginStopping b' else b')"
  using assms by (simp add: handleMessage_def fan_out_active)

end
