(* ===== verification/BoxSystem.thy ===== *)
theory BoxSystem
  imports BoxLoops
begin

text \<open>
  \<open>msg/box.go\<close> as a concurrent system: the dispatcher's loop, the worker goroutines of
  \<open>startWorker\<close>, the callers of \<open>JoinSubContext\<close> with the goroutines that cancel an
  abandoned join, \<open>LeaveSub\<close>, \<open>StopSub\<close> and \<open>Close\<close>. One rule is one atomic action of one
  goroutine; \<open>controlCh\<close> is unbuffered, so that sending and handling a control event is one
  step, possible only while the dispatcher is in its loop. What the environment decides (the
  outcome of \<open>Subscribe\<close>, \<open>Next\<close> and \<open>topic.Close\<close>, when a context ends, which ready
  case a \<open>select\<close> takes) is left open.

  A caller of \<open>JoinSubContext\<close> is named by the reference of its freshly allocated subscriber,
  which is also that of its reply channel. \<open>U\<close> is the protobuf decoder (\<open>None\<close> on error)
  and \<open>ext\<close> the external channel buffer size.
\<close>

definition set_pc :: "nat \<Rightarrow> workerPC \<Rightarrow> Box \<Rightarrow> Box" where
  "set_pc w pc b = b\<lparr>workers := (workers b)[w := (workers b ! w)\<lparr>w_pc := pc\<rparr>]\<rparr>"

definition set_call :: "nat \<Rightarrow> callPC \<Rightarrow> Box \<Rightarrow> Box" where
  "set_call r pc b = b\<lparr>calls := (calls b)(r := pc)\<rparr>"

definition join_error :: "goerr \<Rightarrow> callPC" where
  "join_error e = CReturned \<lparr>res_subscriber = None, res_err = Some e\<rparr>"

section \<open>Callers of JoinSubContext\<close>

text \<open>The entry: a context that has already ended, or the allocation of subscriber and reply.\<close>

definition join_enter :: "nat \<Rightarrow> string \<Rightarrow> nat \<Rightarrow> Box \<Rightarrow> Box" where
  "join_enter ext subscriberID ctx b =
     (let r = nextRef b; b = b\<lparr>nextRef := Suc r\<rparr> in
      case ctxs b ctx of
        Some e \<Rightarrow> set_call r (join_error e) b
      | None \<Rightarrow>
          set_call r CSend
            (b\<lparr>subs := (subs b)(r := newSubscriber ext),
               replies := (replies b)(r := []),
               reqs := (reqs b)(r := \<lparr>jr_subscriberID = subscriberID, jr_subscriber = r,
                 jr_reply = r, jr_ctx = Some ctx\<rparr>)\<rparr>))"

definition join_send :: "nat \<Rightarrow> Box \<Rightarrow> Box" where
  "join_send r b = handleControl (JoinReq (reqs b r)) (set_call r CWait b)"

definition join_closed :: "nat \<Rightarrow> Box \<Rightarrow> Box" where
  "join_closed r b = set_call r (join_error ErrBoxClosed) (sub_stop r (Some ErrBoxClosed) b)"

definition join_ctx :: "nat \<Rightarrow> goerr \<Rightarrow> Box \<Rightarrow> Box" where
  "join_ctx r e b = set_call r (join_error e) (sub_stop r (Some e) b)"

text \<open>The second \<open>select\<close>: an ended context also starts the cancelling goroutine.\<close>

definition spawn_cancel :: "nat \<Rightarrow> Box \<Rightarrow> Box" where
  "spawn_cancel r b = b\<lparr>cancels := r # cancels b\<rparr>"

definition join_result :: "nat \<Rightarrow> Box \<Rightarrow> Box" where
  "join_result r b =
     (case replies b r of
        [] \<Rightarrow> b
      | result # rest \<Rightarrow>
          let b = b\<lparr>replies := (replies b)(r := rest)\<rparr> in
          case res_err result of
            Some e \<Rightarrow> set_call r (join_error e) b
          | None \<Rightarrow>
              (case ctx_err b (jr_ctx (reqs b r)) of
                 Some e \<Rightarrow> set_call r (join_error e) (spawn_cancel r b)
               | None \<Rightarrow>
                   set_call r
                     (CReturned \<lparr>res_subscriber = res_subscriber result, res_err = None\<rparr>) b))"

definition deliver_cancel :: "nat \<Rightarrow> Box \<Rightarrow> Box" where
  "deliver_cancel r b =
     (let b = handleControl (CancelJoinReq (jr_subscriberID (reqs b r)) r) b
      in b\<lparr>cancels := remove1 r (cancels b)\<rparr>)"

inductive call_step :: "nat \<Rightarrow> Box \<Rightarrow> Box \<Rightarrow> bool" for ext :: nat where
  enter: "call_step ext b (join_enter ext subscriberID ctx b)"
| send: "calls b r = CSend \<Longrightarrow> dispatcher b = DLoop \<Longrightarrow> call_step ext b (join_send r b)"
| send_ctx: "calls b r = CSend \<Longrightarrow> ctx_err b (jr_ctx (reqs b r)) = Some e \<Longrightarrow>
    call_step ext b (join_ctx r e b)"
| send_closed: "calls b r = CSend \<Longrightarrow> boxCtxDone b \<or> boxDone b \<Longrightarrow>
    call_step ext b (join_closed r b)"
| wait_ctx: "calls b r = CWait \<Longrightarrow> ctx_err b (jr_ctx (reqs b r)) = Some e \<Longrightarrow>
    call_step ext b (spawn_cancel r (join_ctx r e b))"
| wait_closed: "calls b r = CWait \<Longrightarrow> boxCtxDone b \<or> boxDone b \<Longrightarrow>
    call_step ext b (join_closed r b)"
| wait_reply: "calls b r = CWait \<Longrightarrow> replies b r \<noteq> [] \<Longrightarrow> call_step ext b (join_result r b)"
| cancel_deliver: "r \<in> set (cancels b) \<Longrightarrow> dispatcher b = DLoop \<Longrightarrow>
    call_step ext b (deliver_cancel r b)"
| cancel_abandon: "r \<in> set (cancels b) \<Longrightarrow> boxDone b \<Longrightarrow>
    call_step ext b (b\<lparr>cancels := remove1 r (cancels b)\<rparr>)"
| leave: "dispatcher b = DLoop \<Longrightarrow>
    call_step ext b (handleControl (LeaveReq subscriberID ack) b)"
| stop_sub: "dispatcher b = DLoop \<Longrightarrow> call_step ext b (handleControl (StopReq ack) b)"
| close: "\<not> closeOnce b \<Longrightarrow> dispatcher b = DLoop \<Longrightarrow>
    call_step ext b (handleControl CloseReq (b\<lparr>closeOnce := True\<rparr>))"

section \<open>Worker goroutines\<close>

text \<open>The offer of the start result; a failed start ends the goroutine.\<close>

definition worker_start :: "nat \<Rightarrow> goerr option \<Rightarrow> Box \<Rightarrow> Box" where
  "worker_start w err b =
     handleControl (StartResult (w_generation (workers b ! w)) w err)
       (set_pc w (if err = None then WAwait else WReturning) b)"

definition worker_activate :: "nat \<Rightarrow> Box \<Rightarrow> Box" where
  "worker_activate w b =
     (case w_activation (workers b ! w) of
        [] \<Rightarrow> b
      | a # rest \<Rightarrow>
          b\<lparr>workers := (workers b)[w := (workers b ! w)\<lparr>w_activation := rest,
              w_pc := (if a then WNext else WCancelInactive)\<rparr>]\<rparr>)"

definition worker_stopped :: "nat \<Rightarrow> goerr option \<Rightarrow> Box \<Rightarrow> Box" where
  "worker_stopped w err b =
     handleControl (WorkerStopped (w_generation (workers b ! w)) err) (set_pc w WReturning b)"

text \<open>Which errors of \<open>Next\<close> are reported: none after a cancellation.\<close>

definition terminal_error :: "bool \<Rightarrow> goerr \<Rightarrow> goerr option" where
  "terminal_error ctxDone nextErr =
     (if \<not> ctxDone \<and> \<not> errors_is nextErr CtxCanceled \<and>
         \<not> errors_is nextErr PubsubSubscriptionCancelled
      then Some nextErr else None)"

definition enqueue_message :: "nat \<Rightarrow> TimestampedSignedMsgCapsule \<Rightarrow> Box \<Rightarrow> Box" where
  "enqueue_message w c b =
     b\<lparr>messageCh := messageCh b @
        [\<lparr>smsg_generation = w_generation (workers b ! w), smsg_capsule = c\<rparr>]\<rparr>"

inductive worker_step ::
    "(bytes \<Rightarrow> TimestampedSignedMsgCapsule option) \<Rightarrow> nat \<Rightarrow> Box \<Rightarrow> Box \<Rightarrow> bool"
  for U :: "bytes \<Rightarrow> TimestampedSignedMsgCapsule option" and w :: nat where
  subscribe: "w_pc (workers b ! w) = WSubscribe \<Longrightarrow>
    worker_step U w b (set_pc w (WSendStart err) b)"
| start: "w_pc (workers b ! w) = WSendStart err \<Longrightarrow> dispatcher b = DLoop \<Longrightarrow>
    worker_step U w b (worker_start w err b)"
| activate: "w_pc (workers b ! w) = WAwait \<Longrightarrow> w_activation (workers b ! w) \<noteq> [] \<Longrightarrow>
    worker_step U w b (worker_activate w b)"
| cancel_inactive: "w_pc (workers b ! w) = WCancelInactive \<Longrightarrow>
    worker_step U w b (set_pc w WStopInactive b)"
| stop_inactive: "w_pc (workers b ! w) = WStopInactive \<Longrightarrow> dispatcher b = DLoop \<Longrightarrow>
    worker_step U w b (worker_stopped w None b)"
| next_error: "w_pc (workers b ! w) = WNext \<Longrightarrow>
    worker_step U w b
      (set_pc w (WCancel (terminal_error (w_ctxDone (workers b ! w)) nextErr)) b)"
| next_undecodable: "w_pc (workers b ! w) = WNext \<Longrightarrow> U data = None \<Longrightarrow> worker_step U w b b"
| next_capsule: "w_pc (workers b ! w) = WNext \<Longrightarrow> U data = Some c \<Longrightarrow>
    worker_step U w b (set_pc w (WQueue c) b)"
| queue: "w_pc (workers b ! w) = WQueue c \<Longrightarrow> length (messageCh b) < messageCap b \<Longrightarrow>
    worker_step U w b (enqueue_message w c (set_pc w WLoopCheck b))"
| queue_unbuffered: "w_pc (workers b ! w) = WQueue c \<Longrightarrow> messageCap b = 0 \<Longrightarrow>
    dispatcher b = DLoop \<Longrightarrow>
    worker_step U w b
      (handleMessage \<lparr>smsg_generation = w_generation (workers b ! w), smsg_capsule = c\<rparr>
        (set_pc w WLoopCheck b))"
| queue_cancelled: "w_pc (workers b ! w) = WQueue c \<Longrightarrow> w_ctxDone (workers b ! w) \<Longrightarrow>
    worker_step U w b (set_pc w WLoopCheck b)"
| loop_check: "w_pc (workers b ! w) = WLoopCheck \<Longrightarrow>
    worker_step U w b
      (set_pc w (if w_ctxDone (workers b ! w) then WCancel None else WNext) b)"
| cancel: "w_pc (workers b ! w) = WCancel e \<Longrightarrow> worker_step U w b (set_pc w (WStop e) b)"
| stopped: "w_pc (workers b ! w) = WStop e \<Longrightarrow> dispatcher b = DLoop \<Longrightarrow>
    worker_step U w b (worker_stopped w e b)"
| return: "w_pc (workers b ! w) = WReturning \<Longrightarrow> worker_step U w b (set_pc w WDone b)"

section \<open>The dispatcher, and the whole box\<close>

inductive dispatcher_step :: "Box \<Rightarrow> Box \<Rightarrow> bool" where
  message: "dispatcher b = DLoop \<Longrightarrow> messageCh b = m # ms \<Longrightarrow>
    dispatcher_step b (handleMessage m (b\<lparr>messageCh := ms\<rparr>))"
| finish: "dispatcher b = DWait \<Longrightarrow> \<forall>x \<in> set (workers b). w_pc x = WDone \<Longrightarrow>
    dispatcher_step b (finishClose err b)"

text \<open>A context ends, and stays ended; the reader of a stream takes a queued capsule.\<close>

inductive env_step :: "Box \<Rightarrow> Box \<Rightarrow> bool" where
  ctx_end: "ctxs b c = None \<Longrightarrow> env_step b (b\<lparr>ctxs := (ctxs b)(c := Some e)\<rparr>)"
| consume: "receive (subs b r) = Some (m, s) \<Longrightarrow>
    env_step b (b\<lparr>subs := (subs b)(r := s)\<rparr>)"

inductive box_step ::
    "(bytes \<Rightarrow> TimestampedSignedMsgCapsule option) \<Rightarrow> nat \<Rightarrow> Box \<Rightarrow> Box \<Rightarrow> bool"
  for U :: "bytes \<Rightarrow> TimestampedSignedMsgCapsule option" and ext :: nat where
  box_call: "call_step ext b c \<Longrightarrow> box_step U ext b c"
| box_worker: "w < length (workers b) \<Longrightarrow> worker_step U w b c \<Longrightarrow> box_step U ext b c"
| box_dispatcher: "dispatcher_step b c \<Longrightarrow> box_step U ext b c"
| box_env: "env_step b c \<Longrightarrow> box_step U ext b c"

definition box_init :: "Box \<Rightarrow> bool" where
  "box_init b \<longleftrightarrow> (\<exists>size' topic ctx0. newBoxWithBackend size' topic ctx0 = Returns b)"

inductive_cases box_stepE: "box_step U ext b c"
inductive_cases call_stepE: "call_step ext b c"
inductive_cases worker_stepE: "worker_step U w b c"
inductive_cases dispatcher_stepE: "dispatcher_step b c"
inductive_cases env_stepE: "env_step b c"

lemmas caller_defs =
  join_enter_def join_send_def join_closed_def join_ctx_def spawn_cancel_def join_result_def
  deliver_cancel_def set_call_def join_error_def

lemmas worker_defs =
  worker_start_def worker_activate_def worker_stopped_def enqueue_message_def set_pc_def

end
