(* ===== verification/Validator.thy ===== *)
theory Validator
  imports Protocol
begin

text \<open>
  \<open>msg/validator.go\<close>: the validator that \<open>createBox\<close> registers for its topic. A pubsub
  message is a pointer to a wrapper whose embedded message may be nil as well, so it is an
  option of an option of the data field. \<open>U\<close> is the protobuf decoder, \<open>None\<close> on error.
\<close>

datatype ValidationResult = ValidationAccept | ValidationReject | ValidationIgnore

type_synonym pubsub_message = "bytes option option"

definition validateTopicMessage ::
    "'k crypto \<Rightarrow> (bytes \<Rightarrow> TimestampedSignedMsgCapsule option) \<Rightarrow> string \<Rightarrow> pubsub_message \<Rightarrow>
     ValidationResult" where
  "validateTopicMessage C U topicID message =
     (case message of
        None \<Rightarrow> ValidationReject
      | Some None \<Rightarrow> ValidationReject
      | Some (Some data) \<Rightarrow>
          (case U data of
             None \<Rightarrow> ValidationReject
           | Some timestamped \<Rightarrow>
               if VerifyTimestampedSignedMsgCapsule C (Some timestamped) topicID \<noteq> None
               then ValidationReject else ValidationAccept))"

definition newTopicValidator ::
    "'k crypto \<Rightarrow> (bytes \<Rightarrow> TimestampedSignedMsgCapsule option) \<Rightarrow> string \<Rightarrow>
     pubsub_message \<Rightarrow> ValidationResult" where
  "newTopicValidator C U topicID = (\<lambda>message. validateTopicMessage C U topicID message)"

lemma validate_accept:
  "validateTopicMessage C U topic message = ValidationAccept \<longleftrightarrow>
     (\<exists>data t. message = Some (Some data) \<and> U data = Some t \<and>
        VerifyTimestampedSignedMsgCapsule C (Some t) topic = None)"
  by (auto simp: validateTopicMessage_def split: option.splits)

lemma validate_never_ignores: "validateTopicMessage C U topic message \<noteq> ValidationIgnore"
  by (auto simp: validateTopicMessage_def split: option.splits)

section \<open>Topic isolation\<close>

text \<open>
  A toy instance of the external code, at which the properties are applied: every non-empty
  key parses to its bytes, a signature is valid when it equals key followed by data, and the
  encoding of a capsule is its topic followed by its data.
\<close>

definition toy_crypto :: "bytes crypto" where
  "toy_crypto =
     \<lparr>GenPubKeyFromBytes = (\<lambda>k. Inr k), PubKeyVerify = (\<lambda>k data s. s = k @ data),
      deterministicMarshal = (\<lambda>m. Inr (bytes_of_string (mc_TopicId m) @ mc_Data m))\<rparr>"

definition toy_capsule :: "string \<Rightarrow> bytes \<Rightarrow> TimestampedSignedMsgCapsule" where
  "toy_capsule topic data =
     \<lparr>ts_Timestamp = 0,
      ts_SignedMsgCapsule = Some
        \<lparr>sm_MsgCapsule = Some \<lparr>mc_TopicId = topic, mc_Data = data, mc_IsEncrypted = False, mc_unknownFields = []\<rparr>,
         sm_Signature = Some \<lparr>sg_PubKey = [7], sg_Data = [7] @ bytes_of_string topic @ data, sg_unknownFields = []\<rparr>,
         sm_unknownFields = []\<rparr>,
      ts_unknownFields = []\<rparr>"

lemma toy_capsule_accepted:
  "VerifyTimestampedSignedMsgCapsule toy_crypto (Some (toy_capsule topic data)) topic = None"
  by (simp add: timestamped_accept_signed signed_accept toy_capsule_def toy_crypto_def valid_sig_def)

text \<open>
  C7. Topics are isolated: bytes that the validator of one topic accepts are accepted by the
  validator of no other topic, whatever the decoder and the signature scheme are; a signed
  message cannot be replayed on a topic it was not signed for.
\<close>

theorem validator_topic_isolation:
  assumes "newTopicValidator C U topic message = ValidationAccept" and "topic' \<noteq> topic"
  shows "newTopicValidator C U topic' message = ValidationReject"
proof -
  obtain data t where t: "message = Some (Some data)" "U data = Some t"
    "VerifyTimestampedSignedMsgCapsule C (Some t) topic = None"
    using assms(1) by (auto simp: newTopicValidator_def validate_accept)
  then have "VerifyTimestampedSignedMsgCapsule C (Some t) topic' \<noteq> None"
    using proto.check_unique_topic [of C "Some t"] assms(2) by blast
  with t show ?thesis by (simp add: newTopicValidator_def validateTopicMessage_def)
qed

theorem validator_topic_isolation_witness:
  "newTopicValidator toy_crypto (\<lambda>_. Some (toy_capsule ''a'' [1])) ''b'' (Some (Some [])) =
     ValidationReject"
  by (rule validator_topic_isolation [of _ _ "''a''"])
    (simp_all add: newTopicValidator_def validate_accept toy_capsule_accepted)

definition authentic ::
    "'k crypto \<Rightarrow> (bytes \<Rightarrow> TimestampedSignedMsgCapsule option) \<Rightarrow> string \<Rightarrow> pubsub_message \<Rightarrow>
     bool" where
  "authentic C U topic message \<longleftrightarrow>
     (\<exists>data t s m sg enc. message = Some (Some data) \<and> U data = Some t \<and>
        ts_SignedMsgCapsule t = Some s \<and> sm_MsgCapsule s = Some m \<and> sm_Signature s = Some sg \<and>
        mc_TopicId m = topic \<and> deterministicMarshal C m = Inr enc \<and> valid_sig C sg enc)"

text \<open>
  What the validator lets through, in full: a non-nil message whose data decodes to a
  capsule of the validator's own topic, with a signature whose key parses and verifies the
  deterministic encoding of the message; everything else is rejected, never ignored.
\<close>

theorem validator_accepts_exactly:
  "newTopicValidator C U topic message =
     (if authentic C U topic message then ValidationAccept else ValidationReject)"
proof -
  have "newTopicValidator C U topic message = ValidationAccept \<longleftrightarrow> authentic C U topic message"
    by (auto simp: newTopicValidator_def validate_accept timestamped_accept_signed signed_accept
        authentic_def)
  moreover have "newTopicValidator C U topic message \<in> {ValidationAccept, ValidationReject}"
    using validate_never_ignores [of C U topic message]
    by (cases "newTopicValidator C U topic message") (simp_all add: newTopicValidator_def)
  ultimately show ?thesis by (cases "authentic C U topic message") simp_all
qed

end
