(* ===== verification/Lake.thy ===== *)
theory Lake
  imports Subscriber Protocol Config
begin

text \<open>
  \<open>lake/lake.go\<close>: the gRPC service. \<open>Publish\<close> is a function of the request and of the world
  it acts on (registry and boxes). \<open>Subscribe\<close> runs a handler and a sender goroutine for each
  stream; both, the box that feeds the stream's subscriber, and the shutdown of the service
  are steps of one relation. What the registry, the box and the transport answer is left to
  the environment; the theories of \<open>Box\<close> and \<open>Center\<close> say what those answers can be.
\<close>

section \<open>Publish\<close>

definition MaxTopicIDLen :: int where "MaxTopicIDLen = 64"
definition MinTopicIDLen :: int where "MinTopicIDLen = 1"
definition RandomSubscriberIDLen :: nat where "RandomSubscriberIDLen = 10"

text \<open>gRPC status codes used here.\<close>

definition codes_ResourceExhausted :: nat where "codes_ResourceExhausted = 8"
definition codes_Unavailable :: nat where "codes_Unavailable = 14"

definition status_unavailable :: goerr where
  "status_unavailable = Status codes_Unavailable ''service is shutting down''"

text \<open>
  The body of \<open>Publish\<close> after admission; \<open>getBox\<close> is the registry's \<open>GetBox\<close> and \<open>publish\<close> the
  \<open>Publish\<close> of the box it answers, both acting on a world \<open>'w\<close>.
\<close>

definition Publish_admitted ::
    "'k crypto \<Rightarrow> (string \<Rightarrow> 'w \<Rightarrow> (goerr + 'b) \<times> 'w) \<Rightarrow>
     ('b \<Rightarrow> SignedMsgCapsule option \<Rightarrow> 'w \<Rightarrow> goerr option \<times> 'w) \<Rightarrow>
     PublishReq option \<Rightarrow> 'w \<Rightarrow> (PublishRes option \<times> goerr option) \<times> 'w" where
  "Publish_admitted C getBox publish req w =
     (let signedMsgCapsule = PublishReq_GetSignedMsgCapsule req;
          msgCapsule = Signed_GetMsgCapsule signedMsgCapsule;
          topicID = MsgCapsule_GetTopicId msgCapsule;
          publishRes = \<lparr>pr_TopicId = topicID, pr_Ok = False\<rparr>
      in if \<not> CheckStrLen topicID MinTopicIDLen MaxTopicIDLen
         then ((Some publishRes, Some (ErrMsg ''failed to verify length of topic id'')), w)
         else
           (case VerifySignedMsgCapsule C signedMsgCapsule of
              Some err \<Rightarrow>
                ((Some publishRes, Some (Wrapped ''failed to verify signed msg capsule'' err)), w)
            | None \<Rightarrow>
                (case GenPubKeyFromBytes C (Signature_GetPubKey (Signed_GetSignature signedMsgCapsule)) of
                   Inl err \<Rightarrow> ((Some publishRes, Some err), w)
                 | Inr pubKey \<Rightarrow>
                     (case getBox topicID w of
                        (Inl err, w) \<Rightarrow> ((Some publishRes, Some err), w)
                      | (Inr msgBox, w) \<Rightarrow>
                          (case publish msgBox signedMsgCapsule w of
                             (Some err, w) \<Rightarrow> ((Some publishRes, Some err), w)
                           | (None, w) \<Rightarrow> ((Some (publishRes\<lparr>pr_Ok := True\<rparr>), None), w))))))"

definition Service_Publish ::
    "'k crypto \<Rightarrow> (string \<Rightarrow> 'w \<Rightarrow> (goerr + 'b) \<times> 'w) \<Rightarrow>
     ('b \<Rightarrow> SignedMsgCapsule option \<Rightarrow> 'w \<Rightarrow> goerr option \<times> 'w) \<Rightarrow> bool \<Rightarrow>
     PublishReq option \<Rightarrow> 'w \<Rightarrow> (PublishRes option \<times> goerr option) \<times> 'w" where
  "Service_Publish C getBox publish shuttingDown req w =
     (if shuttingDown then ((None, Some status_unavailable), w)
      else Publish_admitted C getBox publish req w)"

section \<open>Results of a stream\<close>

definition subscriberStreamError :: "goerr option \<Rightarrow> goerr option" where
  "subscriberStreamError err =
     (if errors_Is err ErrSlowSubscriber
      then Some (Status codes_ResourceExhausted ''subscriber queue is full'')
      else if errors_Is err CtxCanceled then None
      else err)"

definition streamResult :: "bool \<Rightarrow> goerr option \<Rightarrow> goerr option" where
  "streamResult shutdown err =
     (if errors_Is err ErrBoxClosed \<and> shutdown then None else subscriberStreamError err)"

text \<open>\<open>result\<close> is what the result channel holds; a receive from the closed channel gives nil.\<close>

definition shutdownStreamResult :: "goerr option list \<Rightarrow> Subscriber option \<Rightarrow> goerr option" where
  "shutdownStreamResult result subscriber =
     (let sub_err = (case subscriber of None \<Rightarrow> None | Some s \<Rightarrow> Err s) in
      if sub_err \<noteq> None \<and> \<not> errors_Is sub_err ErrBoxClosed then subscriberStreamError sub_err
      else
        (case result of
           [] \<Rightarrow> None
         | err # _ \<Rightarrow>
             if err \<noteq> None \<and> \<not> errors_Is err ErrBoxClosed then subscriberStreamError err
             else None))"

definition subscriberDone :: "Subscriber option \<Rightarrow> bool" where
  "subscriberDone subscriber = (case subscriber of None \<Rightarrow> False | Some s \<Rightarrow> Done s)"

section \<open>A stream\<close>

text \<open>
  The handler: in \<open>admitSubscribe\<close>; checking the request; in \<open>GetBox\<close>; in \<open>JoinSubContext\<close>;
  after a failed join; in \<open>waitSender\<close>; in the deferred \<open>LeaveSub\<close>; before the deferred \<open>Done\<close>;
  returned. The sender: about to test for shutdown and send; inside \<open>stream.Send\<close>; at the top
  of the loop; at the \<open>select\<close>; holding a capsule; about to deliver its result; about to close
  the result channel and to finish. The goroutine that cancels a join on shutdown: at its \<open>select\<close>;
  before \<open>cancelJoin()\<close>; ended.
\<close>

datatype hpc =
    HAdmit
  | HCheck
  | HBox
  | HJoin
  | HJoinErr goerr
  | HWait
  | HLeave "goerr option"
  | HExit "goerr option"
  | HReturned "goerr option"

datatype spc =
    SNone
  | SSend SubscribeRes
  | SSending SubscribeRes
  | SLoop
  | SSelect
  | SGot TimestampedSignedMsgCapsule
  | SResult "goerr option"
  | SFinish
  | SDone

datatype jpc = JNone | JSelect | JCancel | JDone

text \<open>
  \<open>st_joinCtx\<close> is the error of the join context, if that has ended; \<open>st_joinDone\<close> whether the channel
  \<open>joinDone\<close> is closed.
  \<open>st_pushed\<close> and \<open>st_sendErr\<close> are ghosts: every capsule the box has put into the subscriber's
  queue, in order, and the error of a failed \<open>stream.Send\<close>.
\<close>

record stream =
  st_req :: "SubscribeReq option"
  st_id :: string
  st_ctx :: "goerr option"
  st_handler :: hpc
  st_sender :: spc
  st_sub :: "Subscriber option"
  st_result :: "goerr option list"
  st_resultCloses :: nat
  st_sent :: "SubscribeRes list"
  st_pushed :: "TimestampedSignedMsgCapsule list"
  st_sendErr :: "goerr option"
  st_leaves :: nat
  st_joinCtx :: "goerr option"
  st_joinDone :: bool
  st_joiner :: jpc

definition new_stream :: "SubscribeReq option \<Rightarrow> stream" where
  "new_stream req =
     \<lparr>st_req = req, st_id = [], st_ctx = None, st_handler = HAdmit, st_sender = SNone,
      st_sub = None, st_result = [], st_resultCloses = 0, st_sent = [], st_pushed = [],
      st_sendErr = None, st_leaves = 0, st_joinCtx = None, st_joinDone = False, st_joiner = JNone\<rparr>"

definition fail_res :: "SubscribeReq option \<Rightarrow> SubscribeRes" where
  "fail_res req =
     \<lparr>sr_Type = SUBSCRIBE_RES_TYPE_ACK, sr_TopicId = SubscribeReq_GetTopicId req,
      sr_SubscriberId = [], sr_Res = Some (SubscribeRes_Ok False)\<rparr>"

definition ack_res :: "SubscribeReq option \<Rightarrow> string \<Rightarrow> SubscribeRes" where
  "ack_res req subscriberID =
     \<lparr>sr_Type = SUBSCRIBE_RES_TYPE_ACK, sr_TopicId = SubscribeReq_GetTopicId req,
      sr_SubscriberId = subscriberID, sr_Res = Some (SubscribeRes_Ok True)\<rparr>"

definition relay_res :: "TimestampedSignedMsgCapsule \<Rightarrow> SubscribeRes" where
  "relay_res capsule =
     \<lparr>sr_Type = SUBSCRIBE_RES_TYPE_RELAY, sr_TopicId = [], sr_SubscriberId = [],
      sr_Res = Some (SubscribeRes_Capsule (Some capsule))\<rparr>"

definition request_valid :: "'k crypto \<Rightarrow> SubscribeReq option \<Rightarrow> bool" where
  "request_valid C req \<longleftrightarrow>
     CheckStrLen (SubscribeReq_GetTopicId req) MinTopicIDLen MaxTopicIDLen \<and>
     VerifySubscribe C (SubscribeReq_GetTopicId req) (SubscribeReq_GetSignature req) = None"

text \<open>\<open>startSender\<close> and the call of \<open>waitSender\<close>.\<close>

definition startSender :: "SubscribeRes \<Rightarrow> Subscriber option \<Rightarrow> stream \<Rightarrow> stream" where
  "startSender ack subscriber st =
     st\<lparr>st_sub := subscriber, st_sender := SSend ack, st_handler := HWait\<rparr>"

text \<open>
  The join context is a child of the stream's: it starts with the error that one has, and keeps the
  first error it gets. \<open>join_begin\<close> creates it and starts the goroutine; after the join the handler
  closes \<open>joinDone\<close> and cancels the context.
\<close>

definition cancelJoin :: "goerr \<Rightarrow> stream \<Rightarrow> stream" where
  "cancelJoin err st = (if st_joinCtx st = None then st\<lparr>st_joinCtx := Some err\<rparr> else st)"

definition join_begin :: "stream \<Rightarrow> stream" where
  "join_begin st =
     st\<lparr>st_handler := HJoin, st_joinCtx := st_ctx st, st_joinDone := False, st_joiner := JSelect\<rparr>"

definition join_end :: "stream \<Rightarrow> stream" where
  "join_end st = cancelJoin CtxCanceled (st\<lparr>st_joinDone := True\<rparr>)"

text \<open>What \<open>waitSender\<close> returns goes through \<open>LeaveSub\<close> if the stream has joined.\<close>

definition leave_with :: "goerr option \<Rightarrow> stream \<Rightarrow> stream" where
  "leave_with r st = st\<lparr>st_handler := (if st_sub st = None then HExit r else HLeave r)\<rparr>"

inductive handler_step :: "'k crypto \<Rightarrow> bool \<Rightarrow> stream \<Rightarrow> stream \<Rightarrow> bool" for C :: "'k crypto" and sh :: bool where
  check_bad: "st_handler st = HCheck \<Longrightarrow> \<not> request_valid C (st_req st) \<Longrightarrow>
    handler_step C sh st (startSender (fail_res (st_req st)) None st)"
| check_ok: "st_handler st = HCheck \<Longrightarrow> request_valid C (st_req st) \<Longrightarrow>
    handler_step C sh st (st\<lparr>st_handler := HBox\<rparr>)"
| box_bad: "st_handler st = HBox \<Longrightarrow>
    handler_step C sh st (startSender (fail_res (st_req st)) None st)"
| box_ok: "st_handler st = HBox \<Longrightarrow>
    handler_step C sh st
      (join_begin (st\<lparr>st_id := GenerateRandomBase64String read RandomSubscriberIDLen\<rparr>))"
| join_ctx: "st_handler st = HJoin \<Longrightarrow> st_joinCtx st = Some err \<Longrightarrow>
    handler_step C sh st ((join_end st)\<lparr>st_handler := HJoinErr err\<rparr>)"
| join_bad: "st_handler st = HJoin \<Longrightarrow>
    handler_step C sh st ((join_end st)\<lparr>st_handler := HJoinErr err\<rparr>)"
| join_ok: "st_handler st = HJoin \<Longrightarrow>
    handler_step C sh st
      (startSender (ack_res (st_req st) (st_id st)) (Some (newSubscriber ext)) (join_end st))"
| join_err_quiet: "st_handler st = HJoinErr err \<Longrightarrow> sh \<or> st_ctx st \<noteq> None \<Longrightarrow>
    handler_step C sh st (st\<lparr>st_handler := HExit None\<rparr>)"
| join_err_fail: "st_handler st = HJoinErr err \<Longrightarrow> \<not> sh \<Longrightarrow> st_ctx st = None \<Longrightarrow>
    handler_step C sh st (startSender (fail_res (st_req st)) None st)"
| wait_shutdown: "st_handler st = HWait \<Longrightarrow> sh \<Longrightarrow>
    handler_step C sh st (leave_with (shutdownStreamResult (st_result st) (st_sub st)) st)"
| wait_ctx: "st_handler st = HWait \<Longrightarrow> st_ctx st \<noteq> None \<Longrightarrow> handler_step C sh st (leave_with None st)"
| wait_result: "st_handler st = HWait \<Longrightarrow> st_result st = err # rest \<Longrightarrow>
    handler_step C sh st (leave_with (streamResult sh err) (st\<lparr>st_result := rest\<rparr>))"
| wait_done: "st_handler st = HWait \<Longrightarrow> st_sub st = Some s \<Longrightarrow> Done s \<Longrightarrow>
    handler_step C sh st (leave_with (streamResult sh (Err s)) st)"
| leave_sub: "st_handler st = HLeave r \<Longrightarrow>
    handler_step C sh st (st\<lparr>st_handler := HExit r, st_leaves := Suc (st_leaves st)\<rparr>)"

text \<open>After a send: an error ends the sender, and so does the end of a failed subscription.\<close>

definition after_send :: "goerr option \<Rightarrow> stream \<Rightarrow> stream" where
  "after_send err st =
     st\<lparr>st_sender := (if err \<noteq> None then SResult err
        else if st_sub st = None then SResult None else SLoop)\<rparr>"

inductive sender_step :: "bool \<Rightarrow> stream \<Rightarrow> stream \<Rightarrow> bool" for sh :: bool where
  send_skip: "st_sender st = SSend r \<Longrightarrow> sh \<Longrightarrow> sender_step sh st (after_send None st)"
| send_start: "st_sender st = SSend r \<Longrightarrow> \<not> sh \<Longrightarrow> sender_step sh st (st\<lparr>st_sender := SSending r\<rparr>)"
| send_ok: "st_sender st = SSending r \<Longrightarrow>
    sender_step sh st (after_send None (st\<lparr>st_sent := st_sent st @ [r]\<rparr>))"
| send_err: "st_sender st = SSending r \<Longrightarrow>
    sender_step sh st (after_send (Some err) (st\<lparr>st_sendErr := Some err\<rparr>))"
| loop_shutdown: "st_sender st = SLoop \<Longrightarrow> sh \<Longrightarrow> sender_step sh st (st\<lparr>st_sender := SResult None\<rparr>)"
| loop_go: "st_sender st = SLoop \<Longrightarrow> \<not> sh \<Longrightarrow> sender_step sh st (st\<lparr>st_sender := SSelect\<rparr>)"
| select_shutdown: "st_sender st = SSelect \<Longrightarrow> sh \<Longrightarrow>
    sender_step sh st (st\<lparr>st_sender := SResult None\<rparr>)"
| select_ctx: "st_sender st = SSelect \<Longrightarrow> st_ctx st = Some err \<Longrightarrow>
    sender_step sh st (st\<lparr>st_sender := SResult (Some err)\<rparr>)"
| select_done: "st_sender st = SSelect \<Longrightarrow> st_sub st = Some s \<Longrightarrow> Done s \<Longrightarrow>
    sender_step sh st (st\<lparr>st_sender := SResult (Err s)\<rparr>)"
| select_message: "st_sender st = SSelect \<Longrightarrow> st_sub st = Some s \<Longrightarrow>
    receive s = Some (capsule, s') \<Longrightarrow>
    sender_step sh st (st\<lparr>st_sub := Some s', st_sender := SGot capsule\<rparr>)"
| got_shutdown: "st_sender st = SGot capsule \<Longrightarrow> sh \<Longrightarrow>
    sender_step sh st (st\<lparr>st_sender := SResult None\<rparr>)"
| got_send: "st_sender st = SGot capsule \<Longrightarrow> \<not> sh \<Longrightarrow>
    sender_step sh st (st\<lparr>st_sender := SSend (relay_res capsule)\<rparr>)"
| result_send: "st_sender st = SResult err \<Longrightarrow> length (st_result st) < 1 \<Longrightarrow>
    sender_step sh st (st\<lparr>st_result := st_result st @ [err], st_sender := SFinish\<rparr>)"

text \<open>The goroutine beside a join.\<close>

inductive joiner_step :: "bool \<Rightarrow> stream \<Rightarrow> stream \<Rightarrow> bool" for sh :: bool where
  joiner_shutdown: "st_joiner st = JSelect \<Longrightarrow> sh \<Longrightarrow> joiner_step sh st (st\<lparr>st_joiner := JCancel\<rparr>)"
| joiner_done: "st_joiner st = JSelect \<Longrightarrow> st_joinDone st \<Longrightarrow>
    joiner_step sh st (st\<lparr>st_joiner := JDone\<rparr>)"
| joiner_cancel: "st_joiner st = JCancel \<Longrightarrow>
    joiner_step sh st ((cancelJoin CtxCanceled st)\<lparr>st_joiner := JDone\<rparr>)"

text \<open>The box offers a capsule, or stops the subscriber; the stream's context ends, and with it the
  join context.\<close>

inductive feed_step :: "stream \<Rightarrow> stream \<Rightarrow> bool" where
  feed: "st_sub st = Some s \<Longrightarrow> \<not> Done s \<Longrightarrow> offer capsule s = (True, s') \<Longrightarrow>
    feed_step st (st\<lparr>st_sub := Some s', st_pushed := st_pushed st @ [capsule]\<rparr>)"
| feed_stop: "st_sub st = Some s \<Longrightarrow> feed_step st (st\<lparr>st_sub := Some (stop err s)\<rparr>)"
| feed_ctx: "st_ctx st = None \<Longrightarrow> feed_step st
    (if st_joiner st = JNone then st\<lparr>st_ctx := Some err\<rparr>
     else cancelJoin err (st\<lparr>st_ctx := Some err\<rparr>))"

section \<open>The service\<close>

datatype ppc = PNone | PRunning | PReturned

text \<open>Where \<open>Service.Close\<close> stands; it is called once, by the agent.\<close>

datatype xpc = XNone | XPublishes | XHandlers | XSenders | XRelayer | XDone

record Service =
  shuttingDown :: bool
  shutdownCloses :: nat
  publishes :: nat
  subscribeHandlers :: nat
  senders :: nat
  pubs :: "nat \<Rightarrow> ppc"
  nextPub :: nat
  streams :: "nat \<Rightarrow> stream"
  nextStream :: nat
  closer :: xpc

definition NewService :: Service where
  "NewService =
     \<lparr>shuttingDown = False, shutdownCloses = 0, publishes = 0, subscribeHandlers = 0, senders = 0,
      pubs = (\<lambda>_. PNone), nextPub = 0, streams = (\<lambda>_. new_stream None), nextStream = 0,
      closer = XNone\<rparr>"

definition BeginShutdown :: "Service \<Rightarrow> Service" where
  "BeginShutdown v =
     (if shuttingDown v then v
      else v\<lparr>shuttingDown := True, shutdownCloses := Suc (shutdownCloses v)\<rparr>)"

definition admitPublish :: "Service \<Rightarrow> bool \<times> Service" where
  "admitPublish v =
     (if shuttingDown v then (False, v) else (True, v\<lparr>publishes := Suc (publishes v)\<rparr>))"

definition admitSubscribe :: "Service \<Rightarrow> bool \<times> Service" where
  "admitSubscribe v =
     (if shuttingDown v then (False, v)
      else (True, v\<lparr>subscribeHandlers := Suc (subscribeHandlers v)\<rparr>))"

definition set_stream :: "nat \<Rightarrow> stream \<Rightarrow> Service \<Rightarrow> Service" where
  "set_stream i st v = v\<lparr>streams := (streams v)(i := st)\<rparr>"

definition publish_call :: "Service \<Rightarrow> Service" where
  "publish_call v =
     (let p = nextPub v; (ok, v) = admitPublish v
      in v\<lparr>pubs := (pubs v)(p := (if ok then PRunning else PReturned)), nextPub := Suc p\<rparr>)"

definition publish_return :: "nat \<Rightarrow> Service \<Rightarrow> Service" where
  "publish_return p v = v\<lparr>pubs := (pubs v)(p := PReturned), publishes := publishes v - 1\<rparr>"

definition subscribe_admit :: "nat \<Rightarrow> Service \<Rightarrow> Service" where
  "subscribe_admit i v =
     (let (ok, v) = admitSubscribe v
      in set_stream i ((streams v i)\<lparr>st_handler :=
           (if ok then HCheck else HReturned (Some status_unavailable))\<rparr>) v)"

text \<open>\<open>senders.Add(1)\<close> when a handler step has started the sender.\<close>

definition handler_move :: "nat \<Rightarrow> stream \<Rightarrow> Service \<Rightarrow> Service" where
  "handler_move i st v =
     set_stream i st
       (if st_sender (streams v i) = SNone \<and> st_sender st \<noteq> SNone
        then v\<lparr>senders := Suc (senders v)\<rparr> else v)"

definition subscribe_return :: "nat \<Rightarrow> goerr option \<Rightarrow> Service \<Rightarrow> Service" where
  "subscribe_return i r v =
     set_stream i ((streams v i)\<lparr>st_handler := HReturned r\<rparr>)
       (v\<lparr>subscribeHandlers := subscribeHandlers v - 1\<rparr>)"

text \<open>The deferred \<open>close(result)\<close> and \<open>senders.Done()\<close>.\<close>

definition sender_return :: "nat \<Rightarrow> Service \<Rightarrow> Service" where
  "sender_return i v =
     set_stream i ((streams v i)\<lparr>st_resultCloses := Suc (st_resultCloses (streams v i)),
         st_sender := SDone\<rparr>)
       (v\<lparr>senders := senders v - 1\<rparr>)"

inductive service_step :: "'k crypto \<Rightarrow> Service \<Rightarrow> Service \<Rightarrow> bool" for C :: "'k crypto" where
  begin_shutdown: "service_step C v (BeginShutdown v)"
| publish_call: "service_step C v (publish_call v)"
| publish_return: "pubs v p = PRunning \<Longrightarrow> service_step C v (publish_return p v)"
| open_stream: "service_step C v
    ((set_stream (nextStream v) (new_stream req) v)\<lparr>nextStream := Suc (nextStream v)\<rparr>)"
| subscribe_admit: "i < nextStream v \<Longrightarrow> st_handler (streams v i) = HAdmit \<Longrightarrow>
    service_step C v (subscribe_admit i v)"
| handler: "i < nextStream v \<Longrightarrow> handler_step C (shuttingDown v) (streams v i) st \<Longrightarrow>
    service_step C v (handler_move i st v)"
| subscribe_return: "i < nextStream v \<Longrightarrow> st_handler (streams v i) = HExit r \<Longrightarrow>
    service_step C v (subscribe_return i r v)"
| sender: "i < nextStream v \<Longrightarrow> sender_step (shuttingDown v) (streams v i) st \<Longrightarrow>
    service_step C v (set_stream i st v)"
| joiner: "i < nextStream v \<Longrightarrow> joiner_step (shuttingDown v) (streams v i) st \<Longrightarrow>
    service_step C v (set_stream i st v)"
| sender_return: "i < nextStream v \<Longrightarrow> st_sender (streams v i) = SFinish \<Longrightarrow>
    service_step C v (sender_return i v)"
| feed_stream: "i < nextStream v \<Longrightarrow> feed_step (streams v i) st \<Longrightarrow>
    service_step C v (set_stream i st v)"
| close_begin: "closer v = XNone \<Longrightarrow> service_step C v ((BeginShutdown v)\<lparr>closer := XPublishes\<rparr>)"
| close_publishes: "closer v = XPublishes \<Longrightarrow> publishes v = 0 \<Longrightarrow>
    service_step C v (v\<lparr>closer := XHandlers\<rparr>)"
| close_handlers: "closer v = XHandlers \<Longrightarrow> subscribeHandlers v = 0 \<Longrightarrow>
    service_step C v (v\<lparr>closer := XSenders\<rparr>)"
| close_senders: "closer v = XSenders \<Longrightarrow> senders v = 0 \<Longrightarrow>
    service_step C v (v\<lparr>closer := XRelayer\<rparr>)"
| close_relayer: "closer v = XRelayer \<Longrightarrow> service_step C v (v\<lparr>closer := XDone\<rparr>)"

inductive_cases service_stepE: "service_step C v u"
inductive_cases handler_stepE: "handler_step C sh st st'"
inductive_cases sender_stepE: "sender_step sh st st'"
inductive_cases joiner_stepE: "joiner_step sh st st'"
inductive_cases feed_stepE: "feed_step st st'"

end
