(* ===== verification/LakeInv.thy ===== *)
theory LakeInv
  imports Lake "HOL-Library.Sublist"
begin

text \<open>
  The invariant of one stream: handler, sender and result channel against each other, what has
  been sent against what the box has pushed, and why the stream ends. It depends on whether
  the shutdown has begun, and only becomes weaker when it begins.
\<close>

section \<open>What is on its way\<close>

definition capsules :: "SubscribeRes list \<Rightarrow> TimestampedSignedMsgCapsule list" where
  "capsules rs = List.map_filter (\<lambda>r. SubscribeRes_GetCapsule (Some r)) rs"

lemma capsules_simps [simp]:
  "capsules [] = []" "capsules (rs @ qs) = capsules rs @ capsules qs"
  "capsules (relay_res c # rs) = c # capsules rs" "capsules (fail_res req # rs) = capsules rs"
  "capsules (ack_res req i # rs) = capsules rs"
  by (simp_all add: capsules_def map_filter_simps map_filter_def relay_res_def fail_res_def
      ack_res_def SubscribeRes_GetCapsule_def)

definition queued :: "stream \<Rightarrow> TimestampedSignedMsgCapsule list" where
  "queued st = (case st_sub st of None \<Rightarrow> [] | Some s \<Rightarrow> Messages s)"

fun in_hand :: "spc \<Rightarrow> TimestampedSignedMsgCapsule list" where
  "in_hand (SSend r) = capsules [r]" | "in_hand (SSending r) = capsules [r]"
| "in_hand (SGot c) = [c]" | "in_hand _ = []"

fun in_flight :: "spc \<Rightarrow> TimestampedSignedMsgCapsule list" where
  "in_flight (SSending r) = capsules [r]" | "in_flight _ = []"

fun sending :: "spc \<Rightarrow> bool" where
  "sending (SSend r) = True" | "sending (SSending r) = True" | "sending SLoop = True"
| "sending SSelect = True" | "sending (SGot c) = True" | "sending _ = False"

definition first_res :: "stream \<Rightarrow> SubscribeRes" where
  "first_res st =
     (if st_sub st = None then fail_res (st_req st) else ack_res (st_req st) (st_id st))"

lemma capsules_first [simp]: "capsules (first_res st # rs) = capsules rs"
  by (simp add: first_res_def)

lemma capsules_map [simp]: "capsules (List.map relay_res ms) = ms"
  by (induction ms) simp_all

text \<open>A response about to be sent: the first one, or a relay after it.\<close>

definition next_ok :: "bool \<Rightarrow> stream \<Rightarrow> SubscribeRes \<Rightarrow> bool" where
  "next_ok strict st r \<longleftrightarrow>
     r = first_res st \<and> st_sent st = [] \<or>
     (\<exists>c. r = relay_res c) \<and> st_sub st \<noteq> None \<and> (strict \<longrightarrow> st_sent st \<noteq> [])"

section \<open>Why a stream ends\<close>

definition explained :: "bool \<Rightarrow> stream \<Rightarrow> goerr option \<Rightarrow> bool" where
  "explained sh st err \<longleftrightarrow>
     sh \<and> err = None \<or> st_ctx st \<noteq> None \<or> st_sub st = None \<and> err = None \<or>
     (\<exists>s. st_sub st = Some s \<and> Done s \<and> Err s = err) \<or> err \<noteq> None \<and> st_sendErr st = err"

definition quiet_end :: "bool \<Rightarrow> stream \<Rightarrow> bool" where
  "quiet_end sh st \<longleftrightarrow>
     sh \<or> st_ctx st \<noteq> None \<or> st_sub st = None \<or>
     (\<exists>s. st_sub st = Some s \<and> Done s \<and> (Err s = None \<or> errors_Is (Err s) CtxCanceled)) \<or>
     errors_Is (st_sendErr st) CtxCanceled"

fun result_of :: "hpc \<Rightarrow> goerr option option" where
  "result_of (HLeave r) = Some r" | "result_of (HExit r) = Some r"
| "result_of (HReturned r) = Some r" | "result_of _ = None"

fun before_sender :: "hpc \<Rightarrow> bool" where
  "before_sender HWait = False" | "before_sender (HLeave r) = False"
| "before_sender (HExit r) = False" | "before_sender (HReturned r) = False"
| "before_sender _ = True"

fun has_left :: "hpc \<Rightarrow> bool" where
  "has_left (HExit r) = True" | "has_left (HReturned r) = True" | "has_left _ = False"

fun looping :: "spc \<Rightarrow> bool" where
  "looping SLoop = True" | "looping SSelect = True" | "looping (SGot c) = True" | "looping _ = False"

text \<open>Control: who is where, the result channel, the number of leaves.\<close>

definition ctl_ok :: "stream \<Rightarrow> bool" where
  "ctl_ok st \<longleftrightarrow>
     (before_sender (st_handler st) \<longrightarrow> st_sender st = SNone \<and> st_sub st = None) \<and>
     (st_sender st = SNone \<longrightarrow> st_sub st = None \<and> st_handler st \<noteq> HWait) \<and>
     length (st_result st) \<le> 1 \<and> (st_result st \<noteq> [] \<longrightarrow> st_sender st \<in> {SFinish, SDone}) \<and>
     st_resultCloses st = of_bool (st_sender st = SDone) \<and>
     (looping (st_sender st) \<longrightarrow> st_sub st \<noteq> None) \<and>
     (\<forall>r. st_handler st = HLeave r \<longrightarrow> st_sub st \<noteq> None) \<and>
     st_leaves st = of_bool (has_left (st_handler st) \<and> st_sub st \<noteq> None)"

text \<open>Nothing, or the first response followed by relays.\<close>

fun shape_ok :: "SubscribeRes \<Rightarrow> SubscribeRes list \<Rightarrow> bool" where
  "shape_ok r [] = True" | "shape_ok r (q # qs) = (q = r \<and> (\<forall>x \<in> set qs. \<exists>c. x = relay_res c))"

lemma shape_snoc:
  "shape_ok r rs \<Longrightarrow> x = r \<and> rs = [] \<or> (\<exists>c. x = relay_res c) \<and> rs \<noteq> [] \<Longrightarrow> shape_ok r (rs @ [x])"
  by (cases rs) auto

text \<open>Data: what has been sent, what is on its way, what the box has pushed.\<close>

definition out_ok :: "bool \<Rightarrow> stream \<Rightarrow> bool" where
  "out_ok sh st \<longleftrightarrow>
     (st_sub st = None \<longrightarrow> st_pushed st = []) \<and> (st_sender st = SNone \<longrightarrow> st_sent st = []) \<and>
     shape_ok (first_res st) (st_sent st) \<and>
     (\<forall>r. st_sender st = SSend r \<longrightarrow> next_ok (\<not> sh) st r) \<and>
     (\<forall>r. st_sender st = SSending r \<longrightarrow> next_ok True st r) \<and>
     (\<not> sh \<and> looping (st_sender st) \<longrightarrow> st_sent st \<noteq> []) \<and>
     (\<not> sh \<and> sending (st_sender st) \<longrightarrow>
        st_pushed st = capsules (st_sent st) @ in_hand (st_sender st) @ queued st) \<and>
     prefix (capsules (st_sent st) @ in_flight (st_sender st)) (st_pushed st)"

text \<open>Ends: every result has its reason.\<close>

definition end_ok :: "bool \<Rightarrow> stream \<Rightarrow> bool" where
  "end_ok sh st \<longleftrightarrow>
     (\<forall>s. st_sub st = Some s \<longrightarrow> sub_wf s) \<and>
     (st_sender st = SNone \<or> sending (st_sender st) \<longrightarrow> st_sendErr st = None) \<and>
     (\<forall>err. st_sender st = SResult err \<or> err \<in> set (st_result st) \<longrightarrow> explained sh st err) \<and>
     (result_of (st_handler st) = Some None \<longrightarrow> quiet_end sh st)"

definition st_ok :: "bool \<Rightarrow> stream \<Rightarrow> bool" where
  "st_ok sh st \<longleftrightarrow> ctl_ok st \<and> out_ok sh st \<and> end_ok sh st"

lemma new_stream_ok: "st_ok sh (new_stream req)"
  by (simp add: st_ok_def ctl_ok_def out_ok_def end_ok_def new_stream_def)

lemma st_ok_shutdown: "st_ok sh st \<Longrightarrow> st_ok True st"
proof (cases sh)
  case False
  have n: "next_ok True st r \<Longrightarrow> next_ok False st r" for r by (auto simp: next_ok_def)
  have e: "explained False st err \<Longrightarrow> explained True st err" for err by (auto simp: explained_def)
  have "st_ok False st \<Longrightarrow> out_ok True st" by (simp add: st_ok_def out_ok_def n)
  moreover have "st_ok False st \<Longrightarrow> end_ok True st"
    by (simp add: st_ok_def end_ok_def e quiet_end_def)
  ultimately show "st_ok sh st \<Longrightarrow> st_ok True st" using False by (simp add: st_ok_def)
qed simp

section \<open>Results\<close>

lemma errors_is_slow_cancel [simp]: "\<not> errors_is ErrSlowSubscriber CtxCanceled"
  by simp

lemma subscriberStreamError_None:
  "subscriberStreamError err = None \<longleftrightarrow>
     \<not> errors_Is err ErrSlowSubscriber \<and> (err = None \<or> errors_Is err CtxCanceled)"
  by (auto simp: subscriberStreamError_def)

lemma streamResult_None:
  "streamResult sh err = None \<Longrightarrow> sh \<or> err = None \<or> errors_Is err CtxCanceled"
  by (auto simp: streamResult_def subscriberStreamError_None split: if_splits)

lemma explained_quiet:
  assumes "explained sh st err" and "sh \<or> err = None \<or> errors_Is err CtxCanceled"
  shows "quiet_end sh st"
  using assms by (auto simp: explained_def quiet_end_def)

section \<open>Every step keeps it\<close>

text \<open>The invariant says nothing of the join's context and goroutine.\<close>

lemma cancelJoin_simps [simp]:
  "st_req (cancelJoin e st) = st_req st" "st_id (cancelJoin e st) = st_id st"
  "st_ctx (cancelJoin e st) = st_ctx st" "st_handler (cancelJoin e st) = st_handler st"
  "st_sender (cancelJoin e st) = st_sender st" "st_sub (cancelJoin e st) = st_sub st"
  "st_joinDone (cancelJoin e st) = st_joinDone st" "st_joiner (cancelJoin e st) = st_joiner st"
  "st_joinCtx (cancelJoin e st) \<noteq> None"
  by (simp_all add: cancelJoin_def)

lemma join_end_simps [simp]:
  "st_req (join_end st) = st_req st" "st_id (join_end st) = st_id st"
  "st_ctx (join_end st) = st_ctx st" "st_handler (join_end st) = st_handler st"
  "st_sender (join_end st) = st_sender st" "st_sub (join_end st) = st_sub st"
  "st_joinDone (join_end st)" "st_joiner (join_end st) = st_joiner st"
  by (simp_all add: join_end_def)

lemma st_ok_join:
  "st_ok sh (st\<lparr>st_joinCtx := c\<rparr>) = st_ok sh st" "st_ok sh (st\<lparr>st_joinDone := d\<rparr>) = st_ok sh st"
  "st_ok sh (st\<lparr>st_joiner := j\<rparr>) = st_ok sh st"
  by (simp_all add: st_ok_def ctl_ok_def out_ok_def end_ok_def next_ok_def first_res_def queued_def
      explained_def quiet_end_def)

lemma st_ok_cancel [simp]:
  "st_ok sh (cancelJoin e st) = st_ok sh st" "st_ok sh (join_end st) = st_ok sh st"
  by (simp_all add: join_end_def cancelJoin_def st_ok_join)

lemma st_ok_startSender:
  assumes "st_ok sh st" and "before_sender (st_handler st)"
  shows "st_ok sh (startSender (fail_res (st_req st)) None st)"
    and "st_ok sh (startSender (ack_res (st_req st) (st_id st)) (Some (newSubscriber n)) st)"
proof -
  have "st_sender st = SNone" using assms by (simp add: st_ok_def ctl_ok_def)
  then have st: "st_sub st = None" "st_sent st = []" "st_pushed st = []" "st_result st = []"
    "st_resultCloses st = 0" "st_leaves st = 0" "st_sendErr st = None"
    using assms(1) by (auto simp: st_ok_def ctl_ok_def out_ok_def end_ok_def)
  show "st_ok sh (startSender (fail_res (st_req st)) None st)"
    using st by (simp add: st_ok_def ctl_ok_def out_ok_def end_ok_def startSender_def next_ok_def
        first_res_def queued_def)
  show "st_ok sh (startSender (ack_res (st_req st) (st_id st)) (Some (newSubscriber n)) st)"
    using st by (simp add: st_ok_def ctl_ok_def out_ok_def end_ok_def startSender_def next_ok_def
        first_res_def queued_def newSubscriber_def sub_wf_def Messages_def)
qed

text \<open>The data do not depend on the handler and the result channel.\<close>

lemma frame_cong:
  assumes "st_sub d = st_sub st" "st_sent d = st_sent st" "st_sender d = st_sender st"
    "st_pushed d = st_pushed st" "st_req d = st_req st"
    "st_id d = st_id st \<or> st_sub st = None"
  shows "out_ok sh d = out_ok sh st"
proof -
  have "first_res d = first_res st" using assms(1,5,6) by (auto simp: first_res_def)
  then show ?thesis using assms(1-4) by (simp add: out_ok_def next_ok_def queued_def)
qed

lemma explained_cong:
  assumes "st_sub d = st_sub st" "st_ctx d = st_ctx st" "st_sendErr d = st_sendErr st"
  shows "explained sh d = explained sh st" "quiet_end sh d = quiet_end sh st"
  using assms by (simp_all add: explained_def quiet_end_def fun_eq_iff)

lemma st_ok_leave_with:
  assumes ok: "st_ok sh st" and h: "st_handler st = HWait"
    and q: "r = None \<Longrightarrow> quiet_end sh st" and res: "set rest \<subseteq> set (st_result st)" "length rest \<le> 1"
  shows "st_ok sh (leave_with r (st\<lparr>st_result := rest\<rparr>))" (is "st_ok sh ?d")
proof -
  have "rest \<noteq> [] \<Longrightarrow> st_result st \<noteq> []" using res(1) by auto
  then have "ctl_ok ?d"
    using ok h res(2) by (auto simp: st_ok_def ctl_ok_def leave_with_def)
  moreover have "out_ok sh ?d = out_ok sh st"
    by (rule frame_cong) (simp_all add: leave_with_def)
  moreover have ex: "explained sh ?d = explained sh st" "quiet_end sh ?d = quiet_end sh st"
    by (rule explained_cong; simp add: leave_with_def)+
  then have "end_ok sh ?d"
    using ok q res(1) unfolding st_ok_def end_ok_def ex by (auto simp: leave_with_def)
  ultimately show ?thesis using ok by (simp add: st_ok_def)
qed

lemma st_ok_handler:
  assumes "handler_step C sh st d" and ok: "st_ok sh st"
  shows "st_ok sh d"
proof -
  have same: "st\<lparr>st_result := st_result st\<rparr> = st" by simp
  have end_same: "end_ok sh (st\<lparr>st_handler := h\<rparr>)"
    if "result_of h = Some None \<Longrightarrow> quiet_end sh st" for h
    using ok that by (auto simp: st_ok_def end_ok_def explained_def quiet_end_def)
  have data: "out_ok sh (st\<lparr>st_handler := h\<rparr>) = out_ok sh st"
    "out_ok sh (st\<lparr>st_handler := h, st_leaves := k\<rparr>) = out_ok sh st" for h k
    by (rule frame_cong; simp)+
  have err: "st_ok sh ((join_end st)\<lparr>st_handler := HJoinErr e\<rparr>)" if "st_handler st = HJoin" for e
  proof -
    have "st_ok sh (st\<lparr>st_handler := HJoinErr e\<rparr>)"
      using ok that end_same [of "HJoinErr e"] by (auto simp: st_ok_def ctl_ok_def data)
    moreover have "(join_end st)\<lparr>st_handler := HJoinErr e\<rparr> = join_end (st\<lparr>st_handler := HJoinErr e\<rparr>)"
      by (simp add: join_end_def cancelJoin_def)
    ultimately show ?thesis by simp
  qed
  have len: "length (st_result st) \<le> 1" using ok by (simp add: st_ok_def ctl_ok_def)
  have why: "explained sh st err" if "err \<in> set (st_result st)" for err
    using ok that by (simp add: st_ok_def end_ok_def)
  from assms(1) show ?thesis
  proof cases
    case check_bad
    with ok show ?thesis by (simp add: st_ok_startSender)
  next
    case check_ok
    with ok end_same [of HBox] show ?thesis
      by (auto simp: st_ok_def ctl_ok_def data)
  next
    case box_bad
    with ok show ?thesis by (simp add: st_ok_startSender)
  next
    case (box_ok read)
    then have sub: "st_sub st = None" using ok by (simp add: st_ok_def ctl_ok_def)
    then have "out_ok sh d = out_ok sh st"
      unfolding box_ok(1) join_begin_def by (intro frame_cong) simp_all
    moreover have ex: "explained sh d = explained sh st"
      unfolding box_ok(1) join_begin_def by (rule explained_cong) simp_all
    have "end_ok sh d"
      using ok unfolding st_ok_def end_ok_def ex by (auto simp: box_ok(1) join_begin_def)
    ultimately show ?thesis using ok box_ok by (auto simp: st_ok_def ctl_ok_def join_begin_def)
  next
    case (join_ctx e)
    with err show ?thesis by simp
  next
    case (join_bad e)
    with err show ?thesis by simp
  next
    case (join_ok ext)
    then show ?thesis using st_ok_startSender(2) [of sh "join_end st" ext] ok by simp
  next
    case (join_err_quiet err)
    then have "quiet_end sh st" using ok by (auto simp: quiet_end_def)
    with ok join_err_quiet end_same [of "HExit None"] show ?thesis
      by (auto simp: st_ok_def ctl_ok_def data)
  next
    case (join_err_fail err)
    with ok show ?thesis by (simp add: st_ok_startSender)
  next
    case wait_shutdown
    then have "quiet_end sh st" by (simp add: quiet_end_def)
    with st_ok_leave_with [OF ok wait_shutdown(2), of _ "st_result st"] wait_shutdown(1) len
    show ?thesis by simp
  next
    case wait_ctx
    then have "quiet_end sh st" by (simp add: quiet_end_def)
    with st_ok_leave_with [OF ok wait_ctx(2), of _ "st_result st"] wait_ctx(1) len
    show ?thesis by simp
  next
    case (wait_result err rest)
    have "quiet_end sh st" if "streamResult sh err = None"
      using explained_quiet [OF why streamResult_None [OF that]] wait_result(3) by simp
    with st_ok_leave_with [OF ok wait_result(2), of _ rest] wait_result(1,3) len
    show ?thesis by auto
  next
    case (wait_done s)
    have "explained sh st (Err s)" using wait_done by (simp add: explained_def)
    then have "quiet_end sh st" if "streamResult sh (Err s) = None"
      using explained_quiet streamResult_None [OF that] by blast
    with st_ok_leave_with [OF ok wait_done(2), of _ "st_result st"] wait_done(1) len
    show ?thesis by simp
  next
    case (leave_sub r)
    with ok have "quiet_end sh st" if "r = None" using that by (simp add: st_ok_def end_ok_def)
    then have "end_ok sh (st\<lparr>st_handler := HExit r, st_leaves := Suc (st_leaves st)\<rparr>)"
      using ok by (auto simp: st_ok_def end_ok_def explained_def quiet_end_def)
    with ok leave_sub show ?thesis
      by (auto simp: st_ok_def ctl_ok_def data)
  qed
qed

text \<open>The ends of a stream while the sender moves on.\<close>

lemma end_ok_move:
  assumes "end_ok sh st" and "st_handler d = st_handler st" and "st_ctx d = st_ctx st"
    and "st_sendErr st = None \<or> st_sendErr d = st_sendErr st"
    and "st_sub d = st_sub st \<or>
      (\<exists>s t. st_sub st = Some s \<and> st_sub d = Some t \<and> sub_wf t \<and>
         (Done s \<longrightarrow> Done t \<and> Err t = Err s))"
    and "st_sender d = SNone \<or> sending (st_sender d) \<Longrightarrow> st_sendErr d = None"
    and "\<And>err. err \<in> set (st_result d) \<Longrightarrow> err \<in> set (st_result st) \<or>
      st_sender st = SResult err \<or> explained sh d err"
    and "\<And>err. st_sender d = SResult err \<Longrightarrow> st_sender st = SResult err \<or> explained sh d err"
  shows "end_ok sh d"
proof -
  have ex: "explained sh st err \<Longrightarrow> explained sh d err" for err
    using assms(3-5) by (auto simp: explained_def)
  have "quiet_end sh st \<Longrightarrow> quiet_end sh d"
    using assms(3-5) by (auto simp: quiet_end_def)
  moreover have "st_sub d = Some s \<Longrightarrow> sub_wf s" for s
    using assms(1,5) by (auto simp: end_ok_def)
  ultimately show ?thesis
    using assms(1,2,6-8) ex unfolding end_ok_def by metis
qed

end
