(* ===== verification/LakeSteps.thy ===== *)
theory LakeSteps
  imports LakeInv
begin

text \<open>
  The sender, the box that feeds the queue and the service keep the invariant of
  \<open>LakeInv\<close>; the counters of the service count what runs, and \<open>Close\<close> has waited for them.
\<close>

section \<open>The sender\<close>

lemma ctl_ok_move:
  assumes "ctl_ok st" and "st_sender st \<noteq> SNone" "st_sender d \<noteq> SNone"
    and "(st_sub d = None) = (st_sub st = None)" "st_handler d = st_handler st"
    and "st_leaves d = st_leaves st" "length (st_result d) \<le> 1"
    and "st_result d \<noteq> [] \<longrightarrow> st_sender d \<in> {SFinish, SDone}"
    and "st_resultCloses d = of_bool (st_sender d = SDone)"
    and "looping (st_sender d) \<longrightarrow> st_sub st \<noteq> None"
  shows "ctl_ok d"
  using assms unfolding ctl_ok_def by simp

lemma explainedI:
  "sh \<and> err = None \<or> st_ctx st \<noteq> None \<or> st_sub st = None \<and> err = None \<or>
   (\<exists>s. st_sub st = Some s \<and> Done s \<and> Err s = err) \<or> err \<noteq> None \<and> st_sendErr st = err
   \<Longrightarrow> explained sh st err"
  by (simp add: explained_def)

lemma receive_frame:
  "receive s = Some (c, t) \<Longrightarrow> Done t = Done s \<and> Err t = Err s \<and> Messages s = c # Messages t"
  by (auto simp: receive_def Done_def Err_def Messages_def split: list.splits)

lemma next_ok_capsules: "next_ok b st r \<Longrightarrow> capsules [r] = [] \<and> r = first_res st \<or> (\<exists>c. r = relay_res c)"
  by (auto simp: next_ok_def)

text \<open>A step of a sender that has not delivered its result.\<close>

lemma st_ok_move:
  assumes ok: "st_ok sh st" and "sending (st_sender st)" and out: "out_ok sh d"
    and same: "st_handler d = st_handler st" "st_ctx d = st_ctx st" "st_leaves d = st_leaves st"
      "st_result d = st_result st" "st_resultCloses d = st_resultCloses st"
    and sub: "st_sub d = st_sub st \<or>
      (\<exists>s t c. st_sub st = Some s \<and> st_sub d = Some t \<and> receive s = Some (c, t))"
    and to: "sending (st_sender d) \<and> st_sendErr d = st_sendErr st \<or>
      (\<exists>err. st_sender d = SResult err \<and> explained sh d err)"
    and loop: "looping (st_sender d) \<longrightarrow> st_sub st \<noteq> None"
  shows "st_ok sh d"
proof -
  have ctl: "ctl_ok st" and en: "end_ok sh st" using ok by (simp_all add: st_ok_def)
  have noerr: "st_sendErr st = None" using en assms(2) by (simp add: end_ok_def)
  have nores: "st_result st = []" "st_resultCloses st = 0" "st_sender st \<noteq> SNone"
    using ctl assms(2) by (auto simp: ctl_ok_def)
  have d: "st_sender d \<noteq> SNone" "st_sender d \<noteq> SDone" using to by auto
  have "ctl_ok d"
    by (rule ctl_ok_move [OF ctl]) (use nores same sub loop d in auto)
  moreover have "end_ok sh d"
  proof (rule end_ok_move [OF en same(1,2)])
    show "st_sub d = st_sub st \<or> (\<exists>s t. st_sub st = Some s \<and> st_sub d = Some t \<and> sub_wf t \<and>
        (Done s \<longrightarrow> Done t \<and> Err t = Err s))"
      using sub en receive_frame receive_wf unfolding end_ok_def by metis
  qed (use to noerr nores same in auto)
  ultimately show ?thesis using out by (simp add: st_ok_def)
qed

lemma st_ok_sender:
  assumes "sender_step sh st d" and ok: "st_ok sh st"
  shows "st_ok sh d"
proof -
  note [simp] = after_send_def queued_def
  have ctl: "ctl_ok st" and out: "out_ok sh st" and en: "end_ok sh st"
    using ok by (simp_all add: st_ok_def)
  have loop: "looping (st_sender st) \<Longrightarrow> st_sub st \<noteq> None"
    using ctl by (simp add: ctl_ok_def)
  from assms(1) show ?thesis
  proof cases
    case (send_skip r)
    show ?thesis
      by (rule st_ok_move [OF ok])
        (use out send_skip in \<open>auto simp: out_ok_def first_res_def explained_def\<close>)
  next
    case (send_start r)
    show ?thesis
      by (rule st_ok_move [OF ok])
        (use out send_start in \<open>auto simp: out_ok_def next_ok_def first_res_def\<close>)
  next
    case (send_ok r)
    show ?thesis
      by (rule st_ok_move [OF ok])
        (use out send_ok in \<open>auto simp: out_ok_def next_ok_def first_res_def explained_def intro!: shape_snoc\<close>)
  next
    case (send_err r err)
    show ?thesis
      by (rule st_ok_move [OF ok])
        (use out send_err in \<open>auto simp: out_ok_def first_res_def explained_def prefix_def\<close>)
  next
    case loop_shutdown
    show ?thesis
      by (rule st_ok_move [OF ok])
        (use out loop_shutdown in \<open>auto simp: out_ok_def first_res_def explained_def\<close>)
  next
    case loop_go
    show ?thesis
      by (rule st_ok_move [OF ok])
        (use out loop loop_go in \<open>auto simp: out_ok_def first_res_def\<close>)
  next
    case select_shutdown
    show ?thesis
      by (rule st_ok_move [OF ok])
        (use out select_shutdown in \<open>auto simp: out_ok_def first_res_def explained_def\<close>)
  next
    case (select_ctx err)
    show ?thesis
      by (rule st_ok_move [OF ok])
        (use out select_ctx in \<open>auto simp: out_ok_def first_res_def explained_def\<close>)
  next
    case (select_done s)
    show ?thesis
      by (rule st_ok_move [OF ok])
        (use out select_done in \<open>auto simp: out_ok_def first_res_def explained_def\<close>)
  next
    case (select_message s capsule s')
    show ?thesis
      by (rule st_ok_move [OF ok])
        (use out select_message receive_frame [of s capsule s'] in
          \<open>auto simp: out_ok_def first_res_def\<close>)
  next
    case (got_shutdown capsule)
    show ?thesis
      by (rule st_ok_move [OF ok])
        (use out got_shutdown in \<open>auto simp: out_ok_def first_res_def explained_def\<close>)
  next
    case (got_send capsule)
    show ?thesis
      by (rule st_ok_move [OF ok])
        (use out loop got_send in \<open>auto simp: out_ok_def first_res_def next_ok_def\<close>)
  next
    case (result_send err)
    have "ctl_ok d"
      by (rule ctl_ok_move [OF ctl]) (use ctl result_send in \<open>auto simp: ctl_ok_def\<close>)
    moreover have "out_ok sh d"
      using out result_send by (auto simp: out_ok_def first_res_def)
    moreover have "end_ok sh d"
      by (rule end_ok_move [OF en])
        (use en result_send in \<open>auto simp: end_ok_def explained_def\<close>)
    ultimately show ?thesis by (simp add: st_ok_def)
  qed
qed

lemma st_ok_sender_return:
  assumes ok: "st_ok sh st" and "st_sender st = SFinish"
  shows "st_ok sh (st\<lparr>st_resultCloses := Suc (st_resultCloses st), st_sender := SDone\<rparr>)"
proof -
  have "ctl_ok st" "out_ok sh st" "end_ok sh st" using ok by (simp_all add: st_ok_def)
  then show ?thesis using assms(2)
    by (auto simp: st_ok_def ctl_ok_def out_ok_def end_ok_def first_res_def queued_def
        explained_def quiet_end_def)
qed

section \<open>The box and the context\<close>

lemma st_ok_feed:
  assumes "feed_step st d" and ok: "st_ok sh st"
  shows "st_ok sh d"
proof -
  have ctl: "ctl_ok st" and out: "out_ok sh st" and en: "end_ok sh st"
    using ok by (simp_all add: st_ok_def)
  from assms(1) show ?thesis
  proof cases
    case (feed s capsule s')
    have s': "Messages s' = Messages s @ [capsule]" "\<not> Done s'" "sub_wf s \<Longrightarrow> sub_wf s'"
      using feed(3,4) offer_wf [of s capsule]
      by (auto simp: offer_def Messages_def Done_def split: if_splits)
    have "ctl_ok d" using ctl feed by (auto simp: ctl_ok_def)
    moreover have "out_ok sh d"
      using out feed(1,2) s'(1)
      by (auto simp: out_ok_def next_ok_def first_res_def queued_def prefix_def)
    moreover have "end_ok sh d"
      by (rule end_ok_move [OF en])
        (use en feed s' in \<open>auto simp: end_ok_def explained_def\<close>)
    ultimately show ?thesis by (simp add: st_ok_def)
  next
    case (feed_stop s err)
    have t: "Done s \<Longrightarrow> Err (stop err s) = Err s" "Done (stop err s)" "sub_wf (stop err s)"
      "Messages (stop err s) = Messages s"
      using en feed_stop(2)
      by (auto simp: end_ok_def Done_def Err_def Messages_def sub_wf_def stop_def)
    have "ctl_ok d" using ctl feed_stop by (auto simp: ctl_ok_def)
    moreover have "out_ok sh d"
      using out t(4) unfolding feed_stop(1)
      by (auto simp: feed_stop(2) out_ok_def next_ok_def first_res_def queued_def)
    moreover have "end_ok sh d"
      by (rule end_ok_move [OF en])
        (use en feed_stop t in \<open>auto simp: end_ok_def explained_def\<close>)
    ultimately show ?thesis by (simp add: st_ok_def)
  next
    case (feed_ctx err)
    let ?d = "st\<lparr>st_ctx := Some err\<rparr>"
    have "ctl_ok ?d" using ctl by (simp add: ctl_ok_def)
    moreover have "out_ok sh ?d"
      using out frame_cong [of ?d st sh] by simp
    moreover have "end_ok sh ?d"
      using en feed_ctx(2) by (auto simp: end_ok_def explained_def quiet_end_def)
    ultimately have "st_ok sh ?d" by (simp add: st_ok_def)
    then show ?thesis by (simp add: feed_ctx(1))
  qed
qed

lemma st_ok_joiner: "joiner_step sh st d \<Longrightarrow> st_ok sh st \<Longrightarrow> st_ok sh d"
  by (cases rule: joiner_step.cases, assumption) (auto simp: st_ok_join)

section \<open>Counting what runs\<close>

definition how_many :: "('a \<Rightarrow> bool) \<Rightarrow> (nat \<Rightarrow> 'a) \<Rightarrow> nat \<Rightarrow> nat" where
  "how_many P f n = (\<Sum>i<n. of_bool (P (f i)))"

lemma how_many_upd:
  assumes "i < n"
  shows "how_many P (f(i := x)) n + of_bool (P (f i)) = how_many P f n + of_bool (P x)"
proof -
  have "how_many P f n = of_bool (P (f i)) + (\<Sum>j \<in> {..<n} - {i}. of_bool (P (f j)))"
    unfolding how_many_def using assms by (subst sum.remove [of _ i]) auto
  moreover have "how_many P (f(i := x)) n = of_bool (P x) + (\<Sum>j \<in> {..<n} - {i}. of_bool (P (f j)))"
    unfolding how_many_def using assms by (subst sum.remove [of _ i]) auto
  ultimately show ?thesis by simp
qed

lemma how_many_same:
  "i < n \<Longrightarrow> P (f i) = P x \<Longrightarrow> how_many P (f(i := x)) n = how_many P f n"
  using how_many_upd [of i n P f x] by simp

lemma how_many_less:
  "i < n \<Longrightarrow> P (f i) \<Longrightarrow> \<not> P x \<Longrightarrow> how_many P (f(i := x)) n = how_many P f n - 1"
  using how_many_upd [of i n P f x] by simp

lemma how_many_more:
  "i < n \<Longrightarrow> \<not> P (f i) \<Longrightarrow> P x \<Longrightarrow> how_many P (f(i := x)) n = Suc (how_many P f n)"
  using how_many_upd [of i n P f x] by simp

lemma how_many_new: "how_many P (f(n := x)) (Suc n) = how_many P f n + of_bool (P x)"
  by (simp add: how_many_def)

lemma how_many_0 [simp]: "how_many P f 0 = 0"
  by (simp add: how_many_def)

lemma how_many_none: "how_many P f n = 0 \<Longrightarrow> i < n \<Longrightarrow> \<not> P (f i)"
  by (auto simp: how_many_def)

definition is_running :: "ppc \<Rightarrow> bool" where "is_running p \<longleftrightarrow> p = PRunning"

fun handling :: "hpc \<Rightarrow> bool" where
  "handling HAdmit = False" | "handling (HReturned r) = False" | "handling _ = True"

definition in_handler :: "stream \<Rightarrow> bool" where "in_handler st \<longleftrightarrow> handling (st_handler st)"

definition sender_runs :: "stream \<Rightarrow> bool" where
  "sender_runs st \<longleftrightarrow> st_sender st \<noteq> SNone \<and> st_sender st \<noteq> SDone"

lemma handler_step_runs:
  "handler_step C sh st d \<Longrightarrow> in_handler st \<and> in_handler d \<and>
     (st_sender d = st_sender st \<or> before_sender (st_handler st) \<and> (\<exists>r. st_sender d = SSend r))"
  by (cases rule: handler_step.cases, assumption)
    (auto simp: in_handler_def startSender_def leave_with_def join_begin_def)

lemma sender_step_runs:
  "sender_step sh st d \<Longrightarrow> sender_runs st \<and> sender_runs d \<and> st_handler d = st_handler st"
  by (cases rule: sender_step.cases, assumption) (auto simp: sender_runs_def after_send_def)

lemma feed_step_runs:
  "feed_step st d \<Longrightarrow> st_sender d = st_sender st \<and> st_handler d = st_handler st"
  by (cases rule: feed_step.cases, assumption) auto

lemma joiner_step_runs:
  "joiner_step sh st d \<Longrightarrow> st_sender d = st_sender st \<and> st_handler d = st_handler st"
  by (cases rule: joiner_step.cases, assumption) auto

section \<open>The service\<close>

definition counts_ok :: "Service \<Rightarrow> bool" where
  "counts_ok v \<longleftrightarrow>
     publishes v = how_many is_running (pubs v) (nextPub v) \<and>
     subscribeHandlers v = how_many in_handler (streams v) (nextStream v) \<and>
     senders v = how_many sender_runs (streams v) (nextStream v) \<and>
     (\<forall>p \<ge> nextPub v. pubs v p = PNone)"

definition closer_ok :: "Service \<Rightarrow> bool" where
  "closer_ok v \<longleftrightarrow>
     shutdownCloses v = of_bool (shuttingDown v) \<and>
     (closer v \<noteq> XNone \<longrightarrow> shuttingDown v) \<and>
     (closer v \<notin> {XNone, XPublishes} \<longrightarrow> publishes v = 0) \<and>
     (closer v \<notin> {XNone, XPublishes, XHandlers} \<longrightarrow> subscribeHandlers v = 0) \<and>
     (closer v \<in> {XRelayer, XDone} \<longrightarrow> senders v = 0)"

definition lake_inv :: "Service \<Rightarrow> bool" where
  "lake_inv v \<longleftrightarrow> counts_ok v \<and> closer_ok v \<and> (\<forall>i. st_ok (shuttingDown v) (streams v i))"

lemma lake_invI: "counts_ok v \<Longrightarrow> closer_ok v \<Longrightarrow> (\<And>i. st_ok (shuttingDown v) (streams v i)) \<Longrightarrow> lake_inv v"
  by (simp add: lake_inv_def)

lemma lake_invD:
  "lake_inv v \<Longrightarrow> counts_ok v" "lake_inv v \<Longrightarrow> closer_ok v" "lake_inv v \<Longrightarrow> st_ok (shuttingDown v) (streams v i)"
  by (simp_all add: lake_inv_def)

lemma lake_inv_init: "lake_inv NewService"
  by (simp add: lake_inv_def counts_ok_def closer_ok_def NewService_def new_stream_ok)

text \<open>A step of one stream that changes no counter.\<close>

lemma lake_inv_stream:
  assumes "lake_inv v" and "i < nextStream v" and "st_ok (shuttingDown v) st"
    and "in_handler st = in_handler (streams v i)" "sender_runs st = sender_runs (streams v i)"
  shows "lake_inv (set_stream i st v)"
proof (rule lake_invI)
  show "counts_ok (set_stream i st v)"
    using lake_invD(1) [OF assms(1)] assms(2,4,5) by (simp add: counts_ok_def set_stream_def how_many_same)
  show "closer_ok (set_stream i st v)"
    using lake_invD(2) [OF assms(1)] by (simp add: closer_ok_def set_stream_def)
  show "st_ok (shuttingDown (set_stream i st v)) (streams (set_stream i st v) j)" for j
    using lake_invD(3) [OF assms(1)] assms(3) by (simp add: set_stream_def)
qed

lemma lake_inv_shutdown: "lake_inv v \<Longrightarrow> lake_inv (BeginShutdown v)"
  by (auto simp: lake_inv_def counts_ok_def closer_ok_def BeginShutdown_def intro: st_ok_shutdown)

lemma st_ok_admit:
  assumes "st_ok sh st" and "st_handler st = HAdmit"
  shows "st_ok sh (st\<lparr>st_handler := HCheck\<rparr>)" "st_ok sh (st\<lparr>st_handler := HReturned (Some e)\<rparr>)"
proof -
  have out: "out_ok sh (st\<lparr>st_handler := h\<rparr>) = out_ok sh st" for h
    by (rule frame_cong) simp_all
  show "st_ok sh (st\<lparr>st_handler := HCheck\<rparr>)" "st_ok sh (st\<lparr>st_handler := HReturned (Some e)\<rparr>)"
    using assms unfolding st_ok_def out
    by (auto simp: ctl_ok_def end_ok_def explained_def)
qed

lemma st_ok_return:
  assumes "st_ok sh st" and "st_handler st = HExit r"
  shows "st_ok sh (st\<lparr>st_handler := HReturned r\<rparr>)"
proof -
  have out: "out_ok sh (st\<lparr>st_handler := h\<rparr>) = out_ok sh st" for h
    by (rule frame_cong) simp_all
  show ?thesis
    using assms unfolding st_ok_def out
    by (auto simp: ctl_ok_def end_ok_def explained_def quiet_end_def)
qed

lemma lake_inv_publish_call:
  assumes "lake_inv v"
  shows "lake_inv (publish_call v)"
proof (rule lake_invI)
  show "counts_ok (publish_call v)"
    using lake_invD(1) [OF assms]
    by (simp add: counts_ok_def publish_call_def admitPublish_def how_many_new is_running_def Let_def)
  show "closer_ok (publish_call v)"
    using lake_invD(2) [OF assms] by (cases "shuttingDown v") (simp_all add: closer_ok_def publish_call_def admitPublish_def Let_def)
  show "st_ok (shuttingDown (publish_call v)) (streams (publish_call v) i)" for i
    using lake_invD(3) [OF assms, of i]
    by (cases "shuttingDown v") (simp_all add: publish_call_def admitPublish_def Let_def)
qed

lemma lake_inv_publish_return:
  assumes "lake_inv v" and p: "pubs v p = PRunning"
  shows "lake_inv (publish_return p v)"
proof -
  have "p < nextPub v"
    using assms by (metis counts_ok_def lake_inv_def not_le_imp_less ppc.distinct(1))
  with assms show ?thesis
    by (auto simp: lake_inv_def counts_ok_def closer_ok_def publish_return_def is_running_def
        how_many_less)
qed

lemma lake_inv_open:
  assumes "lake_inv v"
  shows "lake_inv ((set_stream (nextStream v) (new_stream req) v)\<lparr>nextStream := Suc (nextStream v)\<rparr>)"
proof -
  have "\<not> in_handler (new_stream req)" "\<not> sender_runs (new_stream req)"
    by (simp_all add: in_handler_def sender_runs_def new_stream_def)
  with assms show ?thesis
    by (auto simp: lake_inv_def counts_ok_def closer_ok_def set_stream_def how_many_new
        new_stream_ok)
qed

lemma lake_inv_admit:
  assumes "lake_inv v" and "i < nextStream v" and "st_handler (streams v i) = HAdmit"
  shows "lake_inv (subscribe_admit i v)"
proof (rule lake_invI)
  show "counts_ok (subscribe_admit i v)"
    using lake_invD(1) [OF assms(1)] assms(2,3)
    by (simp add: counts_ok_def subscribe_admit_def admitSubscribe_def set_stream_def Let_def
        how_many_same how_many_more in_handler_def sender_runs_def)
  show "closer_ok (subscribe_admit i v)"
    using lake_invD(2) [OF assms(1)]
    by (cases "shuttingDown v") (simp_all add: closer_ok_def subscribe_admit_def admitSubscribe_def set_stream_def Let_def)
  show "st_ok (shuttingDown (subscribe_admit i v)) (streams (subscribe_admit i v) j)" for j
    using lake_invD(3) [OF assms(1), of i] lake_invD(3) [OF assms(1), of j] st_ok_admit [OF _ assms(3)]
    by (cases "shuttingDown v") (simp_all add: subscribe_admit_def admitSubscribe_def set_stream_def Let_def)
qed

lemma lake_inv_handler:
  assumes "lake_inv v" and i: "i < nextStream v"
    and step: "handler_step C (shuttingDown v) (streams v i) st"
  shows "lake_inv (handler_move i st v)"
proof -
  note runs = handler_step_runs [OF step]
  have ok: "st_ok (shuttingDown v) st"
    using assms(1) st_ok_handler [OF step] by (simp add: lake_inv_def)
  show ?thesis
  proof (cases "st_sender (streams v i) = SNone \<and> st_sender st \<noteq> SNone")
    case True
    have "in_handler (streams v i)" using runs by simp
    then have "subscribeHandlers v \<noteq> 0"
      using assms(1) i how_many_none by (metis lake_inv_def counts_ok_def)
    then have "closer v \<notin> {XRelayer, XDone}"
      using assms(1) by (auto simp: lake_inv_def closer_ok_def)
    moreover have "sender_runs st" "\<not> sender_runs (streams v i)"
      using True runs by (auto simp: sender_runs_def)
    ultimately show ?thesis
      using assms(1) i ok runs True
      by (auto simp: lake_inv_def counts_ok_def closer_ok_def handler_move_def set_stream_def
          how_many_same how_many_more)
  next
    case False
    have "sender_runs st = sender_runs (streams v i)"
      using False runs assms(1) by (auto simp: sender_runs_def lake_inv_def st_ok_def ctl_ok_def)
    moreover have "handler_move i st v = set_stream i st v" using False by (auto simp: handler_move_def)
    ultimately show ?thesis using lake_inv_stream [OF assms(1) i ok] runs by simp
  qed
qed

lemma lake_inv_subscribe_return:
  assumes "lake_inv v" and i: "i < nextStream v" and h: "st_handler (streams v i) = HExit r"
  shows "lake_inv (subscribe_return i r v)"
proof -
  have "in_handler (streams v i)" using h by (simp add: in_handler_def)
  moreover have "st_ok (shuttingDown v) ((streams v i)\<lparr>st_handler := HReturned r\<rparr>)"
    using assms(1) st_ok_return [OF _ h] by (simp add: lake_inv_def)
  ultimately show ?thesis
    using assms
    by (auto simp: lake_inv_def counts_ok_def closer_ok_def subscribe_return_def set_stream_def
        how_many_same how_many_less in_handler_def sender_runs_def)
qed

lemma lake_inv_sender_return:
  assumes "lake_inv v" and i: "i < nextStream v" and h: "st_sender (streams v i) = SFinish"
  shows "lake_inv (sender_return i v)"
proof -
  have "sender_runs (streams v i)" using h by (simp add: sender_runs_def)
  moreover have "st_ok (shuttingDown v) ((streams v i)\<lparr>st_resultCloses :=
      Suc (st_resultCloses (streams v i)), st_sender := SDone\<rparr>)"
    using assms(1) st_ok_sender_return [OF _ h] by (simp add: lake_inv_def)
  ultimately show ?thesis
    using assms
    by (auto simp: lake_inv_def counts_ok_def closer_ok_def sender_return_def set_stream_def
        how_many_same how_many_less in_handler_def sender_runs_def)
qed

lemma lake_inv_closer:
  assumes "lake_inv v" and "closer_ok (v\<lparr>closer := x\<rparr>)"
  shows "lake_inv (v\<lparr>closer := x\<rparr>)"
  using assms by (simp add: lake_inv_def counts_ok_def)

lemma lake_inv_step:
  assumes inv: "lake_inv v" and step: "service_step C v u"
  shows "lake_inv u"
  using step
proof cases
  case begin_shutdown
  with inv show ?thesis by (simp add: lake_inv_shutdown)
next
  case publish_call
  with inv show ?thesis by (simp add: lake_inv_publish_call)
next
  case publish_return
  with inv show ?thesis by (simp add: lake_inv_publish_return)
next
  case open_stream
  with inv show ?thesis by (simp add: lake_inv_open)
next
  case subscribe_admit
  with inv show ?thesis by (simp add: lake_inv_admit)
next
  case handler
  with inv show ?thesis by (simp add: lake_inv_handler)
next
  case subscribe_return
  with inv show ?thesis by (simp add: lake_inv_subscribe_return)
next
  case (sender i st)
  have "st_ok (shuttingDown v) st"
    using inv st_ok_sender [OF sender(3)] by (simp add: lake_inv_def)
  with inv sender sender_step_runs [OF sender(3)] show ?thesis
    by (simp add: lake_inv_stream in_handler_def)
next
  case (joiner i st)
  have "st_ok (shuttingDown v) st"
    using inv st_ok_joiner [OF joiner(3)] by (simp add: lake_inv_def)
  with inv joiner joiner_step_runs [OF joiner(3)] show ?thesis
    by (simp add: lake_inv_stream in_handler_def sender_runs_def)
next
  case sender_return
  with inv show ?thesis by (simp add: lake_inv_sender_return)
next
  case (feed_stream i st)
  have "st_ok (shuttingDown v) st"
    using inv st_ok_feed [OF feed_stream(3)] by (simp add: lake_inv_def)
  with inv feed_stream feed_step_runs [OF feed_stream(3)] show ?thesis
    by (simp add: lake_inv_stream in_handler_def sender_runs_def)
next
  case close_begin
  have "lake_inv (BeginShutdown v)" "shuttingDown (BeginShutdown v)"
    using inv by (simp_all add: lake_inv_shutdown) (simp add: BeginShutdown_def)
  then show ?thesis unfolding close_begin(1)
    by (intro lake_inv_closer) (simp_all add: lake_inv_def closer_ok_def)
next
  case close_publishes
  with inv show ?thesis by (auto simp: lake_inv_def counts_ok_def closer_ok_def)
next
  case close_handlers
  with inv show ?thesis by (auto simp: lake_inv_def counts_ok_def closer_ok_def)
next
  case close_senders
  with inv show ?thesis by (auto simp: lake_inv_def counts_ok_def closer_ok_def)
next
  case close_relayer
  with inv show ?thesis by (auto simp: lake_inv_def counts_ok_def closer_ok_def)
qed

interpretation lake: machine "\<lambda>v. v = NewService" "service_step C" lake_inv
  by unfold_locales (auto intro: lake_inv_init lake_inv_step)

end
