(* ===== verification/LakeSafety.thy ===== *)
theory LakeSafety
  imports LakeSteps
begin

text \<open>
  The properties of the service: what \<open>Publish\<close> accepts, what a stream sends and how it ends,
  and what \<open>Close\<close> waits for. The run at the start is where they are applied.
\<close>

abbreviation lake_reachable :: "'k crypto \<Rightarrow> Service \<Rightarrow> bool" where
  "lake_reachable C v \<equiv> reach (\<lambda>v. v = NewService) (service_step C) v"

section \<open>A run\<close>

definition toy_crypto :: "unit crypto" where
  "toy_crypto = \<lparr>GenPubKeyFromBytes = (\<lambda>_. Inr ()), PubKeyVerify = (\<lambda>_ _ _. True),
     deterministicMarshal = (\<lambda>_. Inr [])\<rparr>"

definition toy_req :: "SubscribeReq option" where
  "toy_req = Some \<lparr>sq_TopicId = ''t'',
     sq_Signature = Some \<lparr>sg_PubKey = [1], sg_Data = [], sg_unknownFields = []\<rparr>\<rparr>"

definition toy_capsule :: TimestampedSignedMsgCapsule where
  "toy_capsule = \<lparr>ts_Timestamp = 0, ts_SignedMsgCapsule = None, ts_unknownFields = []\<rparr>"

definition toy_id :: string where
  "toy_id = GenerateRandomBase64String (\<lambda>n. Inr (replicate n 0)) RandomSubscriberIDLen"

definition toy_sub :: Subscriber where "toy_sub = snd (offer toy_capsule (newSubscriber 1))"

definition s0 :: stream where "s0 = new_stream toy_req"
definition s1 :: stream where "s1 = s0\<lparr>st_handler := HCheck\<rparr>"
definition s2 :: stream where "s2 = s1\<lparr>st_handler := HBox\<rparr>"
definition s3 :: stream where "s3 = join_begin (s2\<lparr>st_id := toy_id\<rparr>)"
definition s4 :: stream where
  "s4 = startSender (ack_res (st_req s3) (st_id s3)) (Some (newSubscriber 1)) (join_end s3)"
definition s5 :: stream where
  "s5 = s4\<lparr>st_sub := Some toy_sub, st_pushed := st_pushed s4 @ [toy_capsule]\<rparr>"
definition s6 :: stream where "s6 = s5\<lparr>st_sender := SSending (ack_res toy_req toy_id)\<rparr>"
definition s7 :: stream where
  "s7 = after_send None (s6\<lparr>st_sent := st_sent s6 @ [ack_res toy_req toy_id]\<rparr>)"
definition s8 :: stream where "s8 = s7\<lparr>st_sender := SSelect\<rparr>"
definition s9 :: stream where
  "s9 = s8\<lparr>st_sub := Some (newSubscriber 1), st_sender := SGot toy_capsule\<rparr>"
definition s10 :: stream where "s10 = s9\<lparr>st_sender := SSend (relay_res toy_capsule)\<rparr>"
definition s11 :: stream where "s11 = s10\<lparr>st_sender := SSending (relay_res toy_capsule)\<rparr>"
definition s12 :: stream where
  "s12 = after_send None (s11\<lparr>st_sent := st_sent s11 @ [relay_res toy_capsule]\<rparr>)"
definition s13 :: stream where
  "s13 = s12\<lparr>st_sub := Some (stop (Some CtxCanceled) (newSubscriber 1))\<rparr>"
definition s14 :: stream where
  "s14 = leave_with (streamResult False (Err (stop (Some CtxCanceled) (newSubscriber 1)))) s13"
definition s15 :: stream where "s15 = s14\<lparr>st_handler := HExit None, st_leaves := Suc (st_leaves s14)\<rparr>"
definition s16 :: stream where "s16 = s15\<lparr>st_handler := HReturned None\<rparr>"
definition s17 :: stream where "s17 = s16\<lparr>st_sender := SSelect\<rparr>"
definition s18 :: stream where
  "s18 = s17\<lparr>st_sender := SResult (Err (stop (Some CtxCanceled) (newSubscriber 1)))\<rparr>"
definition s19 :: stream where
  "s19 = s18\<lparr>st_result := st_result s18 @ [Some CtxCanceled], st_sender := SFinish\<rparr>"
definition s20 :: stream where
  "s20 = s19\<lparr>st_resultCloses := Suc (st_resultCloses s19), st_sender := SDone\<rparr>"

lemmas s_defs = s0_def s1_def s2_def s3_def s4_def s5_def s6_def s7_def s8_def s9_def s10_def
  s11_def s12_def s13_def s14_def s15_def s16_def s17_def s18_def s19_def s20_def new_stream_def
  join_begin_def join_end_def cancelJoin_def startSender_def after_send_def leave_with_def toy_sub_def offer_def newSubscriber_def stop_def
  streamResult_def subscriberStreamError_def Err_def Done_def

text \<open>A service with one stream; \<open>h\<close> and \<open>n\<close> count handlers and senders.\<close>

definition sv :: "nat \<Rightarrow> nat \<Rightarrow> stream \<Rightarrow> Service" where
  "sv h n st = NewService\<lparr>subscribeHandlers := h, senders := n,
     streams := (\<lambda>_. new_stream None)(0 := st), nextStream := 1\<rparr>"

lemma sv_simps [simp]:
  "shuttingDown (sv h n st) = False" "streams (sv h n st) 0 = st" "nextStream (sv h n st) = 1"
  "closer (sv h n st) = XNone" "publishes (sv h n st) = 0" "subscribeHandlers (sv h n st) = h"
  "senders (sv h n st) = n" "set_stream 0 d (sv h n st) = sv h n d"
  by (simp_all add: sv_def NewService_def set_stream_def)

lemma sv_go:
  assumes "lake_reachable C (sv h n st)"
  shows "handler_step C False st d \<Longrightarrow> st_sender d = st_sender st \<Longrightarrow> lake_reachable C (sv h n d)"
    and "handler_step C False st d \<Longrightarrow> st_sender st = SNone \<Longrightarrow> st_sender d \<noteq> SNone \<Longrightarrow>
      lake_reachable C (sv h (Suc n) d)"
    and "sender_step False st d \<Longrightarrow> lake_reachable C (sv h n d)"
    and "feed_step st d \<Longrightarrow> lake_reachable C (sv h n d)"
proof -
  have go: "lake_reachable C u" if "service_step C (sv h n st) u" for u
    using assms that by (rule reach.reach_step)
  have add: "set_stream 0 d (sv h n st\<lparr>senders := m\<rparr>) = sv h m d" for m
    by (simp add: sv_def NewService_def set_stream_def)
  show "handler_step C False st d \<Longrightarrow> st_sender d = st_sender st \<Longrightarrow> lake_reachable C (sv h n d)"
    using go [OF service_step.handler [of 0 "sv h n st" C d]] by (simp add: handler_move_def)
  show "handler_step C False st d \<Longrightarrow> st_sender st = SNone \<Longrightarrow> st_sender d \<noteq> SNone \<Longrightarrow>
      lake_reachable C (sv h (Suc n) d)"
    using go [OF service_step.handler [of 0 "sv h n st" C d]] by (simp add: handler_move_def add)
  show "sender_step False st d \<Longrightarrow> lake_reachable C (sv h n d)"
    using go [OF service_step.sender [of 0 "sv h n st" d C]] by simp
  show "feed_step st d \<Longrightarrow> lake_reachable C (sv h n d)"
    using go [OF service_step.feed_stream [of 0 "sv h n st" d C]] by simp
qed

lemma toy_valid: "request_valid toy_crypto toy_req"
  by (simp add: request_valid_def toy_req_def toy_crypto_def response_getters CheckStrLen_def
      MinTopicIDLen_def MaxTopicIDLen_def VerifySubscribe_def verify_def capsule_getters)

lemma lake_run_start: "lake_reachable toy_crypto (sv 1 0 s1)"
proof -
  have "lake_reachable toy_crypto NewService" by (rule reach.reach_init) simp
  then have "lake_reachable toy_crypto (sv 0 0 s0)"
    using service_step.open_stream [of toy_crypto NewService toy_req]
    by (rule_tac reach.reach_step) (auto simp: sv_def NewService_def s_defs set_stream_def)
  moreover have "subscribe_admit 0 (sv 0 0 s0) = sv 1 0 s1"
    by (simp add: subscribe_admit_def admitSubscribe_def sv_def NewService_def set_stream_def s1_def)
  ultimately show ?thesis
    using service_step.subscribe_admit [of 0 "sv 0 0 s0" toy_crypto]
    by (rule_tac reach.reach_step) (simp_all add: s_defs)
qed

lemma lake_run:
  "lake_reachable toy_crypto (sv 1 1 s5)" "lake_reachable toy_crypto (sv 1 1 s7)"
  "lake_reachable toy_crypto (sv 1 1 s9)" "lake_reachable toy_crypto (sv 1 1 s12)"
  "lake_reachable toy_crypto (sv 1 1 s15)"
proof -
  have 2: "lake_reachable toy_crypto (sv 1 0 s2)"
    unfolding s2_def
    by (rule sv_go(1) [OF lake_run_start handler_step.check_ok])
      (use toy_valid in \<open>simp_all add: s_defs\<close>)
  have 3: "lake_reachable toy_crypto (sv 1 0 s3)"
    unfolding s3_def toy_id_def
    by (rule sv_go(1) [OF 2 handler_step.box_ok]) (simp_all add: s_defs)
  have "lake_reachable toy_crypto (sv 1 (Suc 0) s4)"
    unfolding s4_def
    by (rule sv_go(2) [OF 3 handler_step.join_ok]) (simp_all add: s_defs)
  then have 4: "lake_reachable toy_crypto (sv 1 1 s4)" by simp
  show 5: "lake_reachable toy_crypto (sv 1 1 s5)"
    unfolding s5_def
    by (rule sv_go(4) [OF 4 feed_step.feed]) (simp add: s_defs)+
  have 6: "lake_reachable toy_crypto (sv 1 1 s6)"
    unfolding s6_def
    by (rule sv_go(3) [OF 5 sender_step.send_start]) (simp_all add: s_defs)
  show 7: "lake_reachable toy_crypto (sv 1 1 s7)"
    unfolding s7_def
    by (rule sv_go(3) [OF 6 sender_step.send_ok]) (simp_all add: s_defs)
  have 8: "lake_reachable toy_crypto (sv 1 1 s8)"
    unfolding s8_def
    by (rule sv_go(3) [OF 7 sender_step.loop_go]) (simp_all add: s_defs)
  show 9: "lake_reachable toy_crypto (sv 1 1 s9)"
    unfolding s9_def
    by (rule sv_go(3) [OF 8 sender_step.select_message]) (simp add: s_defs receive_def)+
  have 10: "lake_reachable toy_crypto (sv 1 1 s10)"
    unfolding s10_def
    by (rule sv_go(3) [OF 9 sender_step.got_send]) (simp_all add: s_defs)
  have 11: "lake_reachable toy_crypto (sv 1 1 s11)"
    unfolding s11_def
    by (rule sv_go(3) [OF 10 sender_step.send_start]) (simp_all add: s_defs)
  show 12: "lake_reachable toy_crypto (sv 1 1 s12)"
    unfolding s12_def
    by (rule sv_go(3) [OF 11 sender_step.send_ok]) (simp_all add: s_defs)
  have 13: "lake_reachable toy_crypto (sv 1 1 s13)"
    unfolding s13_def
    by (rule sv_go(4) [OF 12 feed_step.feed_stop]) (simp add: s_defs)+
  have 14: "lake_reachable toy_crypto (sv 1 1 s14)"
    unfolding s14_def
    by (rule sv_go(1) [OF 13 handler_step.wait_done]) (simp add: s_defs)+
  show 15: "lake_reachable toy_crypto (sv 1 1 s15)"
    unfolding s15_def
    by (rule sv_go(1) [OF 14 handler_step.leave_sub]) (simp_all add: s_defs)
qed

lemma lake_run_ends:
  "lake_reachable toy_crypto (sv 0 1 s16)" "lake_reachable toy_crypto (sv 0 1 s18)"
  "lake_reachable toy_crypto (sv 0 0 s20)"
proof -
  have "subscribe_return 0 None (sv 1 1 s15) = sv 0 1 s16"
    by (simp add: subscribe_return_def sv_def NewService_def set_stream_def s16_def)
  then show 16: "lake_reachable toy_crypto (sv 0 1 s16)"
    using service_step.subscribe_return [of 0 "sv 1 1 s15" None toy_crypto]
    by (rule_tac reach.reach_step [OF lake_run(5)]) (simp_all add: s_defs)
  have 17: "lake_reachable toy_crypto (sv 0 1 s17)"
    unfolding s17_def
    by (rule sv_go(3) [OF 16 sender_step.loop_go]) (simp_all add: s_defs)
  show 18: "lake_reachable toy_crypto (sv 0 1 s18)"
    unfolding s18_def
    by (rule sv_go(3) [OF 17 sender_step.select_done]) (simp add: s_defs)+
  have 19: "lake_reachable toy_crypto (sv 0 1 s19)"
    unfolding s19_def
    by (rule sv_go(3) [OF 18 sender_step.result_send]) (simp add: s_defs)+
  have "sender_return 0 (sv 0 1 s19) = sv 0 0 s20"
    by (simp add: sender_return_def sv_def NewService_def set_stream_def s20_def)
  then show "lake_reachable toy_crypto (sv 0 0 s20)"
    using service_step.sender_return [of 0 "sv 0 1 s19" toy_crypto]
    by (rule_tac reach.reach_step [OF 19]) (simp_all add: s_defs)
qed

definition closed_service :: Service where
  "closed_service = (BeginShutdown (sv 0 0 s20))\<lparr>closer := XRelayer\<rparr>"

lemma lake_run_closed: "lake_reachable toy_crypto closed_service"
proof -
  let ?v = "BeginShutdown (sv 0 0 s20)"
  have v: "publishes ?v = 0" "subscribeHandlers ?v = 0" "senders ?v = 0"
    by (simp_all add: BeginShutdown_def)
  have go: "lake_reachable toy_crypto w \<Longrightarrow> service_step toy_crypto w u \<Longrightarrow> lake_reachable toy_crypto u"
    for w u by (rule reach.reach_step)
  have "lake_reachable toy_crypto (?v\<lparr>closer := XPublishes\<rparr>)"
    by (rule go [OF lake_run_ends(3) service_step.close_begin]) simp
  then have "lake_reachable toy_crypto (?v\<lparr>closer := XHandlers\<rparr>)"
    using go service_step.close_publishes [of "?v\<lparr>closer := XPublishes\<rparr>" toy_crypto] v by simp
  then have "lake_reachable toy_crypto (?v\<lparr>closer := XSenders\<rparr>)"
    using go service_step.close_handlers [of "?v\<lparr>closer := XHandlers\<rparr>" toy_crypto] v by simp
  then have "lake_reachable toy_crypto (?v\<lparr>closer := XRelayer\<rparr>)"
    using go service_step.close_senders [of "?v\<lparr>closer := XSenders\<rparr>" toy_crypto] v by simp
  then show ?thesis by (simp add: closed_service_def)
qed

section \<open>Publish\<close>

text \<open>What makes a capsule publishable: its topic's length, and a signature that verifies.\<close>

definition publishable :: "'k crypto \<Rightarrow> SignedMsgCapsule option \<Rightarrow> bool" where
  "publishable C sc \<longleftrightarrow>
     (\<exists>s m sg data. sc = Some s \<and> sm_MsgCapsule s = Some m \<and> sm_Signature s = Some sg \<and>
        1 \<le> length (mc_TopicId m) \<and> length (mc_TopicId m) \<le> 64 \<and>
        deterministicMarshal C m = Inr data \<and> valid_sig C sg data)"

lemma valid_sig_parses:
  "valid_sig C sg data \<Longrightarrow> \<exists>k. GenPubKeyFromBytes C (sg_PubKey sg) = Inr k"
  by (auto simp: valid_sig_def split: sum.splits)

lemma publishable_iff:
  "publishable C sc \<longleftrightarrow>
     CheckStrLen (MsgCapsule_GetTopicId (Signed_GetMsgCapsule sc)) MinTopicIDLen MaxTopicIDLen \<and>
     VerifySignedMsgCapsule C sc = None"
  by (auto simp: publishable_def signed_accept CheckStrLen_def MinTopicIDLen_def MaxTopicIDLen_def
      capsule_getters)

lemma publishable_key:
  "VerifySignedMsgCapsule C sc = None \<Longrightarrow>
     \<exists>k. GenPubKeyFromBytes C (Signature_GetPubKey (Signed_GetSignature sc)) = Inr k"
  by (auto simp: signed_accept capsule_getters dest: valid_sig_parses)

lemma publish_refused:
  assumes "sh \<or> \<not> publishable C (PublishReq_GetSignedMsgCapsule req)"
  shows "\<exists>res e. Service_Publish C getBox publish sh req w = ((res, Some e), w) \<and> \<not> PublishRes_GetOk res"
  using assms
  by (auto simp: Service_Publish_def Publish_admitted_def Let_def publishable_iff
      PublishRes_GetOk_def status_unavailable_def split: option.splits sum.splits prod.splits)

lemma publish_admitted:
  assumes "publishable C sc" and "sc = PublishReq_GetSignedMsgCapsule req"
    and "topic = MsgCapsule_GetTopicId (Signed_GetMsgCapsule sc)"
  shows "Service_Publish C getBox publish False req w =
    (case getBox topic w of
       (Inl err, u) \<Rightarrow> ((Some \<lparr>pr_TopicId = topic, pr_Ok = False\<rparr>, Some err), u)
     | (Inr b, u) \<Rightarrow>
         (case publish b sc u of
            (err, u') \<Rightarrow> ((Some \<lparr>pr_TopicId = topic, pr_Ok = (err = None)\<rparr>, err), u')))"
  using publishable_key [of C sc] assms
  by (auto simp: Service_Publish_def Publish_admitted_def Let_def publishable_iff
      split: option.splits sum.splits prod.splits)

text \<open>
  \<open>Publish\<close> answers ok and no error exactly when the service is not shutting down, the
  topic has 1 to 64 bytes, the signature verifies, the registry gives a box and the box
  accepts the capsule. A capsule that does not pass the checks reaches neither the registry
  nor a box: the world stays as it was.
\<close>

theorem publish_accepts_exactly:
  "let sc = PublishReq_GetSignedMsgCapsule req;
       topic = MsgCapsule_GetTopicId (Signed_GetMsgCapsule sc);
       ((res, err), w') = Service_Publish C getBox publish sh req w
   in w' = (if \<not> sh \<and> publishable C sc
            then (case getBox topic w of
                    (Inl _, u) \<Rightarrow> u | (Inr b, u) \<Rightarrow> snd (publish b sc u))
            else w) \<and>
      (err = None \<longleftrightarrow> \<not> sh \<and> publishable C sc \<and>
         (\<exists>b u. getBox topic w = (Inr b, u) \<and> fst (publish b sc u) = None)) \<and>
      PublishRes_GetOk res = (err = None)"
proof (cases "\<not> sh \<and> publishable C (PublishReq_GetSignedMsgCapsule req)")
  case True
  then show ?thesis
    by (auto simp: publish_admitted Let_def PublishRes_GetOk_def split: sum.splits prod.splits)
next
  case False
  then show ?thesis
    using publish_refused [of sh C req getBox publish w] by (auto simp: Let_def)
qed

section \<open>Streams\<close>

lemma stream_ok: "lake_reachable C v \<Longrightarrow> st_ok (shuttingDown v) (streams v i)"
  using lake.reach_inv [of C v] by (simp add: lake_inv_def)

text \<open>
  C20. Relay order: the capsules sent on a stream, with the one in flight, are a prefix of those
  the box put into the subscriber's queue. While the service is not shutting down and the
  sender runs, nothing is lost or duplicated: what was pushed is what was sent, then what the
  sender holds, then the queue. What is still queued when the sender has left its loop, after a
  shutdown, a stop, the end of the context or a failed send, is not sent any more.
\<close>

theorem relay_in_order:
  assumes "lake_reachable C v" and "st = streams v i"
  shows "prefix (capsules (st_sent st) @ in_flight (st_sender st)) (st_pushed st) \<and>
    (\<not> shuttingDown v \<and> sending (st_sender st) \<longrightarrow>
       st_pushed st = capsules (st_sent st) @ in_hand (st_sender st) @ queued st)"
  using stream_ok [OF assms(1), of i] by (simp add: assms(2) st_ok_def out_ok_def)

theorem relay_in_order_witness:
  "[toy_capsule] = capsules (st_sent s9) @ in_hand (st_sender s9) @ queued s9"
proof -
  have "sending (st_sender s9)" "st_pushed s9 = [toy_capsule]" by (simp_all add: s_defs)
  then show ?thesis using relay_in_order [OF lake_run(3), of s9 0] by simp
qed

lemma shape_relays:
  "shape_ok r rs \<Longrightarrow> rs = [] \<or> rs = r # List.map relay_res (capsules (tl rs))"
proof (cases rs)
  case (Cons q qs)
  assume "shape_ok r rs"
  then have "\<forall>x \<in> set qs. \<exists>c. x = relay_res c" "q = r" by (simp_all add: Cons)
  moreover from this(1) have "qs = List.map relay_res (capsules qs)"
    by (induction qs) auto
  ultimately show ?thesis by (simp add: Cons)
qed simp

text \<open>
  C21. What a stream sends: nothing, or one acknowledgement followed by relayed capsules. The
  acknowledgement is positive, with the subscriber's id, exactly when the stream has joined
  the box; after a negative one nothing is relayed.
\<close>

theorem first_is_ack:
  assumes "lake_reachable C v" and "st = streams v i"
  shows "st_sent st = [] \<or>
    (st_sub st = None \<and> st_sent st = [fail_res (st_req st)]) \<or>
    (st_sub st \<noteq> None \<and> st_sent st =
       ack_res (st_req st) (st_id st) # List.map relay_res (capsules (tl (st_sent st))))"
proof -
  have out: "out_ok (shuttingDown v) st" using stream_ok [OF assms(1), of i] by (simp add: assms(2) st_ok_def)
  then have shape: "st_sent st = [] \<or>
      st_sent st = first_res st # List.map relay_res (capsules (tl (st_sent st)))"
    by (intro shape_relays) (simp add: out_ok_def)
  moreover have "capsules (tl (st_sent st)) = []" if "st_sub st = None"
  proof -
    have "capsules (st_sent st) = []" using out that unfolding out_ok_def 
      by (metis append_is_Nil_conv prefix_Nil)
    with shape show ?thesis by (metis capsules_first capsules_simps(1) list.sel(2,3))
  qed
  ultimately show ?thesis by (auto simp: first_res_def split: if_splits)
qed

theorem first_is_ack_witness:
  "st_sent s12 = [ack_res toy_req toy_id, relay_res toy_capsule]"
proof -
  have "st_sent s12 \<noteq> [] \<and> st_sub s12 \<noteq> None" "st_req s12 = toy_req" "st_id s12 = toy_id"
    "capsules (tl (st_sent s12)) = [toy_capsule]"
    by (simp_all add: s_defs)
  then show ?thesis using first_is_ack [OF lake_run(4), of s12 0] by auto
qed

text \<open>
  C22. A stream ends without an error only if the service is shutting down, its context has
  ended, its subscription was refused, its subscriber was stopped without an error or by
  cancellation, or a send failed by cancellation. In particular a slow subscriber is told:
  unless one of these holds as well, its stream ends with an error.
\<close>

theorem silent_end_explained:
  assumes "lake_reachable C v" and "st = streams v i" and "st_handler st = HReturned None"
  shows "shuttingDown v \<or> st_ctx st \<noteq> None \<or> st_sub st = None \<or>
    (\<exists>s. st_sub st = Some s \<and> Done s \<and> (Err s = None \<or> errors_Is (Err s) CtxCanceled)) \<or>
    errors_Is (st_sendErr st) CtxCanceled"
  using stream_ok [OF assms(1), of i] assms(2,3) by (simp add: st_ok_def end_ok_def quiet_end_def)

theorem silent_end_explained_witness: "\<exists>s. st_sub s16 = Some s \<and> Done s \<and> Err s = Some CtxCanceled"
proof -
  have "st_handler s16 = HReturned None \<and> st_ctx s16 = None \<and> st_sub s16 \<noteq> None \<and> st_sendErr s16 = None"
    by (simp add: s_defs)
  moreover have "\<forall>s. st_sub s16 = Some s \<longrightarrow> Err s = Some CtxCanceled" by (simp add: s_defs)
  ultimately show ?thesis using silent_end_explained [OF lake_run_ends(1), of s16 0] by auto
qed

text \<open>
  The handler calls \<open>LeaveSub\<close> exactly once if it has joined the box, and never otherwise;
  it has done so when it returns and not before. The result channel is closed at most once,
  after the sender has put at most one result into it.
\<close>

theorem leave_exactly_once:
  assumes "lake_reachable C v" and "st = streams v i"
  shows "st_leaves st = of_bool (has_left (st_handler st) \<and> st_sub st \<noteq> None) \<and>
    st_resultCloses st = of_bool (st_sender st = SDone) \<and> length (st_result st) \<le> 1"
  using stream_ok [OF assms(1), of i] assms(2) by (simp add: st_ok_def ctl_ok_def)

theorem leave_exactly_once_witness: "st_leaves s16 = 1 \<and> st_resultCloses s18 = 0"
proof -
  have "has_left (st_handler s16) \<and> st_sub s16 \<noteq> None" "st_sender s18 \<noteq> SDone"
    by (simp_all add: s_defs)
  then show ?thesis
    using leave_exactly_once [OF lake_run_ends(1), of s16 0]
      leave_exactly_once [OF lake_run_ends(2), of s18 0] by auto
qed

section \<open>Shutdown\<close>

text \<open>How many steps a sender has at most left once the shutdown has begun.\<close>

fun drain_rank :: "spc \<Rightarrow> nat" where
  "drain_rank (SSend r) = 3" | "drain_rank (SSending r) = 3" | "drain_rank SSelect = 3"
| "drain_rank SLoop = 2" | "drain_rank (SGot c) = 2" | "drain_rank (SResult e) = 1"
| "drain_rank _ = 0"

lemma drain_step:
  "sender_step True st d \<Longrightarrow> drain_rank (st_sender d) < drain_rank (st_sender st)"
  by (cases rule: sender_step.cases, assumption) (auto simp: after_send_def)

lemma drain_steps:
  "(sender_step True ^^ n) st d \<Longrightarrow> n + drain_rank (st_sender d) \<le> drain_rank (st_sender st)"
proof (induction n arbitrary: d)
  case (Suc n)
  then obtain e where "(sender_step True ^^ n) st e" "sender_step True e d" by auto
  with Suc.IH [of e] drain_step [of e d] show ?case by simp
qed simp

lemma drain_ok: "(sender_step True ^^ n) st d \<Longrightarrow> st_ok True st \<Longrightarrow> st_ok True d"
proof (induction n arbitrary: d)
  case (Suc n)
  then obtain e where "(sender_step True ^^ n) st e" "sender_step True e d" by auto
  with Suc show ?case by (metis st_ok_sender)
qed simp

lemma drain_rank_le: "drain_rank p \<le> 3"
  by (cases p) simp_all

lemma drain_stuck:
  assumes "st_ok True st" and stuck: "\<nexists>d. sender_step True st d"
  shows "st_sender st \<in> {SNone, SFinish, SDone}"
proof (cases "st_sender st")
  case (SSend r)
  show ?thesis using stuck sender_step.send_skip [OF SSend, of True] by simp
next
  case (SSending r)
  show ?thesis using stuck sender_step.send_ok [OF SSending, of True] by simp
next
  case SLoop
  show ?thesis using stuck sender_step.loop_shutdown [OF SLoop, of True] by simp
next
  case SSelect
  show ?thesis using stuck sender_step.select_shutdown [OF SSelect, of True] by simp
next
  case (SGot c)
  show ?thesis using stuck sender_step.got_shutdown [OF SGot, of True] by simp
next
  case (SResult err)
  with assms(1) have "length (st_result st) < 1" by (auto simp: st_ok_def ctl_ok_def)
  with stuck sender_step.result_send [OF SResult, of True] show ?thesis by simp
qed simp_all

text \<open>
  Once the shutdown has begun, every sender ends: it takes at most three more steps, a
  \<open>stream.Send\<close> in progress included, and it is never stuck before it has delivered its
  result, because the result channel has room for it.
\<close>

theorem shutdown_drains_sender:
  assumes "lake_reachable C v" and "shuttingDown v" and "(sender_step True ^^ n) (streams v i) d"
  shows "n \<le> 3 \<and> (st_sender d \<in> {SNone, SFinish, SDone} \<or> (\<exists>d'. sender_step True d d'))"
proof -
  have "st_ok True d"
    using drain_ok [OF assms(3)] stream_ok [OF assms(1), of i] assms(2) by simp
  moreover have "n \<le> 3"
    using drain_steps [OF assms(3)] drain_rank_le [of "st_sender (streams v i)"] by simp
  ultimately show ?thesis using drain_stuck by blast
qed

theorem shutdown_drains_sender_witness:
  "\<exists>d. sender_step True (s9\<lparr>st_sender := SResult None\<rparr>) d"
proof -
  have "lake_reachable toy_crypto (BeginShutdown (sv 1 1 s9))"
    by (rule reach.reach_step [OF lake_run(3) service_step.begin_shutdown])
  moreover have "(sender_step True ^^ 1) (streams (BeginShutdown (sv 1 1 s9)) 0)
      (s9\<lparr>st_sender := SResult None\<rparr>)"
    using sender_step.got_shutdown [of s9 toy_capsule True]
    by (simp add: BeginShutdown_def eq_OO) (simp_all add: s_defs)
  ultimately show ?thesis
    using shutdown_drains_sender [of toy_crypto "BeginShutdown (sv 1 1 s9)" 1 0
        "s9\<lparr>st_sender := SResult None\<rparr>"]
    by (simp add: BeginShutdown_def)
qed

lemma closer_stays:
  "service_step C v u \<Longrightarrow> closer v \<in> {XRelayer, XDone} \<Longrightarrow> closer u \<in> {XRelayer, XDone}"
  by (cases rule: service_step.cases, assumption)
    (auto simp: BeginShutdown_def publish_call_def admitPublish_def publish_return_def
      set_stream_def subscribe_admit_def admitSubscribe_def handler_move_def
      subscribe_return_def sender_return_def Let_def)

lemma closer_stays_steps:
  "steps (service_step C) v u \<Longrightarrow> closer v \<in> {XRelayer, XDone} \<Longrightarrow> closer u \<in> {XRelayer, XDone}"
  by (induction rule: steps.induct) (auto dest: closer_stays)

text \<open>
  C24. \<open>Service.Close\<close> gets to the relayer only when nothing of the service runs any more: from
  then on no publish is in progress, every subscription is not yet admitted or has returned,
  and no sender runs. The shutdown channel has been closed exactly once.
\<close>

theorem close_waits_for_all:
  assumes "lake_reachable C v" and "closer v \<in> {XRelayer, XDone}" and "steps (service_step C) v u"
  shows "(\<forall>p < nextPub u. pubs u p = PNone \<or> pubs u p = PReturned) \<and>
    (\<forall>i < nextStream u. \<not> handling (st_handler (streams u i)) \<and>
       st_sender (streams u i) \<in> {SNone, SDone}) \<and>
    shutdownCloses u = 1"
proof -
  have "lake_inv u" by (rule lake.reach_inv [OF reach_steps [OF assms(3,1)]])
  then have inv: "counts_ok u" "closer_ok u" by (simp_all add: lake_inv_def)
  have at: "closer u \<in> {XRelayer, XDone}" using closer_stays_steps [OF assms(3,2)] .
  then have "publishes u = 0" "subscribeHandlers u = 0" "senders u = 0" "shutdownCloses u = 1"
    using inv(2) by (auto simp: closer_ok_def)
  moreover from this have "\<not> is_running (pubs u p)" if "p < nextPub u" for p
    using inv(1) that how_many_none unfolding counts_ok_def by metis
  moreover from calculation have "\<not> in_handler (streams u i) \<and> \<not> sender_runs (streams u i)"
    if "i < nextStream u" for i
    using inv(1) that how_many_none unfolding counts_ok_def by metis
  ultimately show ?thesis
    by (auto simp: is_running_def in_handler_def sender_runs_def) (metis ppc.exhaust)
qed

theorem close_waits_for_all_witness: "shutdownCloses closed_service = 1"
  using close_waits_for_all [OF lake_run_closed _ steps.steps_refl]
  by (simp add: closed_service_def)

end
