(* ===== verification/PublishPath.thy ===== *)
theory PublishPath
  imports BoxSystem Validator LakeSafety
begin

text \<open>
  From a publish request to the subscribers of other agents: the service, the box it publishes
  to, the adapters of \<open>msg/box.go\<close> to libp2p, and the validator of the topic at a receiving
  agent. The network is the list of what has been published, each entry with its topic.
\<close>

section \<open>The adapters to libp2p\<close>

text \<open>\<open>GetData\<close> of a pubsub message is nil-safe.\<close>

definition Message_GetData :: "pubsub_message \<Rightarrow> bytes" where
  "Message_GetData message = (case message of Some (Some data) \<Rightarrow> data | _ \<Rightarrow> [])"

definition adapter_Subscribe :: "goerr + 's \<Rightarrow> goerr + 's" where
  "adapter_Subscribe subscribed =
     (case subscribed of Inl err \<Rightarrow> Inl err | Inr subscription \<Rightarrow> Inr subscription)"

definition adapter_Next :: "goerr + pubsub_message \<Rightarrow> goerr + bytes" where
  "adapter_Next received =
     (case received of Inl err \<Rightarrow> Inl err | Inr message \<Rightarrow> Inr (Message_GetData message))"

definition adapter_Publish ::
    "(string \<Rightarrow> bool \<Rightarrow> bytes \<Rightarrow> goerr option) \<Rightarrow> string \<Rightarrow> bool \<Rightarrow> bytes \<Rightarrow> goerr option" where
  "adapter_Publish topic_Publish topic ctxDone data = topic_Publish topic ctxDone data"

section \<open>Publishing into the network\<close>

type_synonym network = "(string \<times> bytes) list"

text \<open>
  The environment of \<open>Box_Publish\<close>, not code of the repository: the library, when its publish
  returns no error, adds the bytes it was given, which are what the encoder has made of the
  capsule, to the network.
\<close>

definition box_publishes ::
    "(TimestampedSignedMsgCapsule \<Rightarrow> goerr + bytes) \<Rightarrow> (string \<Rightarrow> bool \<Rightarrow> bytes \<Rightarrow> goerr option) \<Rightarrow>
     64 word \<Rightarrow> Box \<Rightarrow> SignedMsgCapsule option \<Rightarrow> network \<Rightarrow> goerr option \<times> network" where
  "box_publishes marshal topic_Publish now b sc net =
     (case Box_Publish marshal (adapter_Publish topic_Publish (topicID b)) now sc b of
        Some err \<Rightarrow> (Some err, net)
      | None \<Rightarrow>
          (case marshal \<lparr>ts_Timestamp = now, ts_SignedMsgCapsule = sc, ts_unknownFields = []\<rparr> of
             Inl err \<Rightarrow> (Some err, net)
           | Inr data \<Rightarrow> (None, net @ [(topicID b, data)])))"

text \<open>What every agent does with an entry of the network.\<close>

definition relayable ::
    "'k crypto \<Rightarrow> (bytes \<Rightarrow> TimestampedSignedMsgCapsule option) \<Rightarrow> SignedMsgCapsule option \<Rightarrow>
     64 word \<Rightarrow> string \<times> bytes \<Rightarrow> bool" where
  "relayable C U sc now e \<longleftrightarrow>
     (let message = Some (Some (snd e)) in
      (\<forall>topic. newTopicValidator C U topic message =
         (if topic = fst e then ValidationAccept else ValidationReject)) \<and>
      (\<exists>t. (case adapter_Next (Inr message) of Inl err \<Rightarrow> None | Inr data \<Rightarrow> U data) = Some t \<and>
         ts_SignedMsgCapsule t = sc \<and> ts_Timestamp t = now \<and>
         VerifyTimestampedSignedMsgCapsule C (Some t) (fst e) = None))"

lemma relayableI:
  assumes codec: "U data = Some \<lparr>ts_Timestamp = now, ts_SignedMsgCapsule = sc, ts_unknownFields = []\<rparr>"
    and ok: "publishable C sc" and topic: "tp = MsgCapsule_GetTopicId (Signed_GetMsgCapsule sc)"
  shows "relayable C U sc now (tp, data)"
proof -
  let ?t = "\<lparr>ts_Timestamp = now, ts_SignedMsgCapsule = sc, ts_unknownFields = []\<rparr>"
  have v: "VerifyTimestampedSignedMsgCapsule C (Some ?t) tp = None"
    using ok topic by (auto simp: timestamped_accept publishable_def capsule_getters)
  then have other: "VerifyTimestampedSignedMsgCapsule C (Some ?t) topic \<noteq> None" if "topic \<noteq> tp" for topic
    using that proto.check_unique_topic [of C "Some ?t"] by blast
  show ?thesis
    using v other codec
    by (auto simp: relayable_def Let_def newTopicValidator_def validateTopicMessage_def
        adapter_Next_def Message_GetData_def)
qed

text \<open>
  C8. What an agent publishes every agent relays: whatever a client sends, a publish request adds
  at most one entry to the network, exactly when it succeeds, under the capsule's own topic; the
  validator of that topic accepts the entry at every agent, those of all other topics reject
  it, and the worker of a receiving box decodes it to the very capsule of the client, with the
  time stamp of the ingress agent, which verifies for a client that checks.
\<close>

theorem published_is_relayable:
  assumes codec: "\<And>t data. marshal t = Inr data \<Longrightarrow> U data = Some t"
    and boxes: "\<And>topic net b net'. getBox topic net = (Inr b, net') \<Longrightarrow> topicID b = topic"
      "\<And>topic net. snd (getBox topic net) = net"
    and call: "Service_Publish C getBox (box_publishes marshal topic_Publish now) sh req net =
      ((res, err), net')"
  shows "\<exists>es. net' = net @ es \<and> length es = of_bool (err = None) \<and>
    list_all (relayable C U (PublishReq_GetSignedMsgCapsule req) now) es"
proof -
  let ?sc = "PublishReq_GetSignedMsgCapsule req"
  let ?tp = "MsgCapsule_GetTopicId (Signed_GetMsgCapsule ?sc)"
  show ?thesis
  proof (cases "\<not> sh \<and> publishable C ?sc")
    case False
    then have "net' = net" "err \<noteq> None"
      using publish_refused [of sh C req getBox "box_publishes marshal topic_Publish now" net] call
      by auto
    then show ?thesis by simp
  next
    case True
    obtain got where got: "getBox ?tp net = (got, net)" using boxes(2) [of ?tp net] by (metis prod.collapse)
    have run: "((res, err), net') = (case got of
        Inl e \<Rightarrow> ((Some \<lparr>pr_TopicId = ?tp, pr_Ok = False\<rparr>, Some e), net)
      | Inr b \<Rightarrow> (case box_publishes marshal topic_Publish now b ?sc net of
          (e, u) \<Rightarrow> ((Some \<lparr>pr_TopicId = ?tp, pr_Ok = (e = None)\<rparr>, e), u)))"
      using call True publish_admitted [of C ?sc req ?tp getBox "box_publishes marshal topic_Publish now" net]
      by (cases got) (simp_all add: got)
    show ?thesis
    proof (cases got)
      case (Inr b)
      have top: "topicID b = ?tp" using boxes(1) got Inr by simp
      show ?thesis
      proof (cases err)
        case None
        then obtain data where "net' = net @ [(?tp, data)]"
          "marshal \<lparr>ts_Timestamp = now, ts_SignedMsgCapsule = ?sc, ts_unknownFields = []\<rparr> = Inr data"
          using run Inr by (auto simp: box_publishes_def top split: option.splits sum.splits)
        moreover have "relayable C U ?sc now (?tp, data)"
          using codec [OF calculation(2)] True by (intro relayableI) simp_all
        ultimately show ?thesis using None by simp
      qed (use run Inr in \<open>auto simp: box_publishes_def split: option.splits sum.splits\<close>)
    qed (use run in simp)
  qed
qed

text \<open>The path at a capsule of topic \<open>a\<close>, a box just made and a network that takes everything.\<close>

definition toy_request :: "PublishReq option" where
  "toy_request = Some \<lparr>pq_SignedMsgCapsule = ts_SignedMsgCapsule (Validator.toy_capsule ''a'' [1])\<rparr>"

definition toy_codec :: "TimestampedSignedMsgCapsule \<Rightarrow> goerr + bytes" where
  "toy_codec t = (if t = (Validator.toy_capsule ''a'' [1]) then Inr [9] else Inl (ErrMsg ''toy''))"

definition toy_getBox :: "string \<Rightarrow> network \<Rightarrow> (goerr + Box) \<times> network" where
  "toy_getBox topic net =
     (case newBoxWithBackend 1 topic (\<lambda>_. None) of
        Panics m \<Rightarrow> (Inl (ErrMsg m), net) | Returns b \<Rightarrow> (Inr b, net))"

lemma toy_publish:
  "Service_Publish Validator.toy_crypto toy_getBox (box_publishes toy_codec (\<lambda>_ _ _. None) 0) False
     toy_request [] = ((Some \<lparr>pr_TopicId = ''a'', pr_Ok = True\<rparr>, None), [(''a'', [9])])"
proof -
  have "publishable Validator.toy_crypto (PublishReq_GetSignedMsgCapsule toy_request)"
    by (simp add: publishable_def toy_request_def Validator.toy_crypto_def Validator.toy_capsule_def
        PublishReq_GetSignedMsgCapsule_def valid_sig_def)
  then show ?thesis
    by (simp add: publish_admitted [OF _ refl refl] toy_getBox_def newBoxWithBackend_def box_publishes_def
        Box_Publish_def adapter_Publish_def toy_codec_def toy_request_def Validator.toy_capsule_def
        PublishReq_GetSignedMsgCapsule_def capsule_getters)
qed

theorem published_is_relayable_witness:
  "\<exists>es. [(''a'', [9])] = [] @ es \<and> length es = of_bool (None = (None :: goerr option)) \<and>
     list_all (relayable Validator.toy_crypto (\<lambda>_. Some (Validator.toy_capsule ''a'' [1]))
       (PublishReq_GetSignedMsgCapsule toy_request) 0) es"
proof (rule published_is_relayable [OF _ _ _ toy_publish])
  show "toy_codec t = Inr data \<Longrightarrow> Some (Validator.toy_capsule ''a'' [1]) = Some t" for t data
    by (simp add: toy_codec_def split: if_splits)
  show "toy_getBox topic net = (Inr b, net') \<Longrightarrow> topicID b = topic" for topic net b net'
    by (auto simp: toy_getBox_def newBoxWithBackend_def)
  show "snd (toy_getBox topic net) = net" for topic net
    by (simp add: toy_getBox_def newBoxWithBackend_def)
qed

end
