(* ===== verification/BoxLife.thy ===== *)
theory BoxLife
  imports BoxSystem
begin

text \<open>
  The life-cycle invariant of a box: the subscription state against the contents of the two
  maps, the one live worker against the current generation and the state, the closing
  protocol. It holds in every reachable state.
\<close>

section \<open>The invariant\<close>

definition finished :: "worker \<Rightarrow> bool" where
  "finished x \<longleftrightarrow> w_pc x = WReturning \<or> w_pc x = WDone"

text \<open>State and maps.\<close>

definition shape :: "Box \<Rightarrow> bool" where
  "shape b \<longleftrightarrow>
     (case state b of
        subscriptionIdle \<Rightarrow> pending b = [] \<and> active b = [] \<and> workerCancel b = None
      | subscriptionStarting \<Rightarrow> pending b \<noteq> [] \<and> active b = [] \<and> workerCancel b \<noteq> None
      | subscriptionRunning \<Rightarrow> pending b = [] \<and> active b \<noteq> [] \<and> workerCancel b \<noteq> None
      | subscriptionStopping \<Rightarrow> active b = [] \<and> workerCancel b \<noteq> None
      | subscriptionClosing \<Rightarrow> pending b = [] \<and> active b = [])"

text \<open>Where the live worker may stand in each state.\<close>

definition pc_ok :: "subscriptionState \<Rightarrow> worker \<Rightarrow> bool" where
  "pc_ok s x \<longleftrightarrow>
     (case w_pc x of
        WSubscribe \<Rightarrow> s \<noteq> subscriptionRunning \<and> w_activation x = []
      | WSendStart _ \<Rightarrow> s \<noteq> subscriptionRunning \<and> w_activation x = []
      | WAwait \<Rightarrow> s \<noteq> subscriptionStarting \<and>
          (w_activation x = [True] \<or> s \<noteq> subscriptionRunning \<and> w_activation x = [False])
      | WCancelInactive \<Rightarrow> s \<noteq> subscriptionStarting \<and> s \<noteq> subscriptionRunning \<and> w_activation x = []
      | WStopInactive \<Rightarrow> s \<noteq> subscriptionStarting \<and> s \<noteq> subscriptionRunning \<and> w_activation x = []
      | WReturning \<Rightarrow> False
      | WDone \<Rightarrow> False
      | _ \<Rightarrow> s \<noteq> subscriptionStarting \<and> w_activation x = [])"

definition worker_ok :: "Box \<Rightarrow> worker \<Rightarrow> bool" where
  "worker_ok b x \<longleftrightarrow>
     pc_ok (state b) x \<and> w_generation x = generation b \<and>
     (w_ctxDone x \<longleftrightarrow> state b = subscriptionStopping \<or> state b = subscriptionClosing)"

definition live_worker :: "Box \<Rightarrow> bool" where
  "live_worker b \<longleftrightarrow>
     (case workerCancel b of
        None \<Rightarrow> \<forall>x \<in> set (workers b). finished x
      | Some w \<Rightarrow>
          \<exists>ws x. workers b = ws @ [x] \<and> w = length ws \<and> (\<forall>y \<in> set ws. finished y) \<and>
                 worker_ok b x)"

definition core :: "Box \<Rightarrow> bool" where
  "core b \<longleftrightarrow> shape b \<and> live_worker b \<and> (boxCtxDone b \<longleftrightarrow> state b = subscriptionClosing)"

text \<open>The dispatcher leaves its loop exactly when it is closing and no worker is left.\<close>

definition link :: "Box \<Rightarrow> bool" where
  "link b \<longleftrightarrow>
     (dispatcher b \<noteq> DLoop \<longleftrightarrow> state b = subscriptionClosing \<and> workerCancel b = None) \<and>
     (boxDone b \<longleftrightarrow> dispatcher b = DReturned) \<and>
     topicCloses b = (if dispatcher b = DReturned then 1 else 0) \<and>
     (dispatcher b = DReturned \<longrightarrow> (\<forall>x \<in> set (workers b). w_pc x = WDone)) \<and>
     (closeOnce b \<longleftrightarrow> state b = subscriptionClosing)"

definition life :: "Box \<Rightarrow> bool" where
  "life b \<longleftrightarrow> core b \<and> link b"

text \<open>\<open>core\<close> reads only these fields, so that updates of the stores keep it.\<close>

lemma core_cong:
  assumes "state b' = state b" "pending b' = pending b" "active b' = active b"
    "workerCancel b' = workerCancel b" "workers b' = workers b" "generation b' = generation b"
    "boxCtxDone b' = boxCtxDone b"
  shows "core b' \<longleftrightarrow> core b"
  using assms
  by (cases "state b"; cases "workerCancel b";
      simp add: core_def shape_def live_worker_def worker_ok_def)

lemma core_store [simp]:
  "core (b\<lparr>subs := x\<rparr>) = core b" "core (b\<lparr>replies := y\<rparr>) = core b"
  "core (b\<lparr>acks := z\<rparr>) = core b" "core (b\<lparr>ctxs := u\<rparr>) = core b" "core (b\<lparr>calls := v\<rparr>) = core b"
  "core (b\<lparr>reqs := r\<rparr>) = core b" "core (b\<lparr>nextRef := n\<rparr>) = core b"
  "core (b\<lparr>cancels := c\<rparr>) = core b" "core (b\<lparr>messageCh := q\<rparr>) = core b"
  "core (b\<lparr>closeOnce := o'\<rparr>) = core b" "core (b\<lparr>dispatcher := d\<rparr>) = core b"
  by (rule core_cong; simp)+

lemma core_effects [simp]:
  "core (sub_stop r e b) = core b" "core (send_reply r res b) = core b"
  "core (send_ack r b) = core b"
  by (simp_all add: store_defs)

lemma core_active_or_pending: "core b \<Longrightarrow> pending b = [] \<or> active b = []"
  by (auto simp: core_def shape_def split: subscriptionState.splits)

lemma core_running: "core b \<Longrightarrow> active b \<noteq> [] \<Longrightarrow> state b = subscriptionRunning"
  by (auto simp: core_def shape_def split: subscriptionState.splits)

lemma live_workerE:
  assumes "core b" and "workerCancel b = Some w"
  obtains ws x where "workers b = ws @ [x]" "w = length ws" "\<forall>y \<in> set ws. finished y" "worker_ok b x"
  using assms by (auto simp: core_def live_worker_def)

section \<open>Building blocks of the handlers\<close>

text \<open>Beginning to stop cancels the live worker, wherever it stands, once the maps allow it.\<close>

lemma worker_ok_stop:
  "worker_ok b x \<Longrightarrow> worker_ok (b\<lparr>state := subscriptionStopping\<rparr>) (x\<lparr>w_ctxDone := True\<rparr>)"
  by (auto simp: worker_ok_def pc_ok_def split: workerPC.splits)

lemma core_beginStopping:
  assumes "live_worker b" and "workerCancel b \<noteq> None" and "active b = []"
    and "\<not> boxCtxDone b"
  shows "core (beginStopping b)"
proof -
  from assms(1,2) obtain ws x where w: "workers b = ws @ [x]" "workerCancel b = Some (length ws)"
    "\<forall>y \<in> set ws. finished y" "worker_ok b x"
    by (auto simp: live_worker_def)
  from worker_ok_stop [OF w(4)] have
    "worker_ok (b\<lparr>state := subscriptionStopping, workers := ws @ [x\<lparr>w_ctxDone := True\<rparr>]\<rparr>)
       (x\<lparr>w_ctxDone := True\<rparr>)"
    by (simp add: worker_ok_def)
  with w assms(3,4) show ?thesis
    by (auto simp: beginStopping_def cancel_worker_def core_def shape_def live_worker_def)
qed

lemma core_startGeneration:
  assumes "\<forall>x \<in> set (workers b). finished x" and "pending b \<noteq> []" and "active b = []"
    and "\<not> boxCtxDone b"
  shows "core (startGeneration b)"
  using assms
  by (auto simp: startGeneration_def startWorker_def Let_def core_def shape_def live_worker_def
      worker_ok_def pc_ok_def)

lemma core_restartOrIdle:
  assumes "\<forall>x \<in> set (workers b). finished x" and "active b = []" and "workerCancel b = None"
    and "\<not> boxCtxDone b"
  shows "core (restartOrIdle b)"
proof (cases "pending b = []")
  case True
  with assms show ?thesis
    by (simp add: restartOrIdle_def core_def shape_def live_worker_def)
next
  case False
  with assms show ?thesis
    by (simp add: restartOrIdle_def core_startGeneration)
qed

text \<open>Changing the maps while the state stays, as long as \<open>shape\<close> allows it.\<close>

lemma core_maps:
  assumes "core b" and "shape (b\<lparr>pending := p, active := a\<rparr>)"
  shows "core (b\<lparr>pending := p, active := a\<rparr>)"
  using assms
  by (cases "workerCancel b") (simp_all add: core_def live_worker_def worker_ok_def)

lemma core_pending:
  "core b \<Longrightarrow> shape (b\<lparr>pending := p\<rparr>) \<Longrightarrow> core (b\<lparr>pending := p\<rparr>)"
  by (cases "workerCancel b") (simp_all add: core_def live_worker_def worker_ok_def)

lemma core_active:
  "core b \<Longrightarrow> shape (b\<lparr>active := a\<rparr>) \<Longrightarrow> core (b\<lparr>active := a\<rparr>)"
  by (cases "workerCancel b") (simp_all add: core_def live_worker_def worker_ok_def)

lemma live_maps [simp]:
  "live_worker (b\<lparr>pending := p\<rparr>) = live_worker b" "live_worker (b\<lparr>active := a\<rparr>) = live_worker b"
  "live_worker (b\<lparr>subs := s\<rparr>) = live_worker b" "live_worker (b\<lparr>replies := r\<rparr>) = live_worker b"
  by (cases "workerCancel b"; simp add: live_worker_def worker_ok_def)+

lemma shape_workers [simp]: "shape (b\<lparr>workers := ws\<rparr>) = shape b"
  by (cases "state b") (simp_all add: shape_def)

lemma coreD:
  assumes "core b"
  shows "shape b" "live_worker b" "boxCtxDone b \<longleftrightarrow> state b = subscriptionClosing"
  using assms by (simp_all add: core_def)

section \<open>The handlers keep the core\<close>

lemma core_rejectDuplicate [simp]: "core (rejectDuplicate q b) = core b"
  by (simp add: rejectDuplicate_def Let_def)

lemma core_handleJoin:
  assumes "core b"
  shows "core (handleJoin q b)"
proof -
  note c = coreD [OF assms]
  let ?p = "AList.update (jr_subscriberID q) q (pending b)"
  let ?a = "AList.update (jr_subscriberID q) (jr_subscriber q) (active b)"
  show ?thesis
  proof (cases "state b")
    case subscriptionIdle
    with c have "core (startGeneration (b\<lparr>pending := ?p\<rparr>))"
      by (intro core_startGeneration) (auto simp: shape_def live_worker_def)
    with subscriptionIdle assms show ?thesis by (simp add: handleJoin_def)
  next
    case subscriptionStarting
    with c have "core (b\<lparr>pending := ?p\<rparr>)"
      by (intro core_pending assms) (simp add: shape_def)
    with subscriptionStarting assms show ?thesis by (simp add: handleJoin_def)
  next
    case subscriptionRunning
    with c have "core (b\<lparr>active := ?a\<rparr>)"
      by (intro core_active assms) (simp add: shape_def)
    with subscriptionRunning assms show ?thesis by (simp add: handleJoin_def)
  next
    case subscriptionStopping
    with c have "core (b\<lparr>pending := ?p\<rparr>)"
      by (intro core_pending assms) (simp add: shape_def)
    with subscriptionStopping assms show ?thesis by (simp add: handleJoin_def)
  next
    case subscriptionClosing
    with assms show ?thesis by (simp add: handleJoin_def)
  qed
qed

lemma core_cancelPending:
  assumes "core b"
  shows "core (cancelPending i s b)"
proof (cases "map_of (pending b) i")
  case None
  with assms show ?thesis by (simp add: cancelPending_def)
next
  case (Some p)
  note c = coreD [OF assms]
  define b1 where "b1 = fail_request (Some CtxCanceled) (i, p) b"
  have b1: "state b1 = state b" "active b1 = active b" "workerCancel b1 = workerCancel b"
    "boxCtxDone b1 = boxCtxDone b" "pending b1 = AList.delete i (pending b)"
    "live_worker b1 = live_worker b"
    by (simp_all add: b1_def fail_request_eq)
  have stop: "core (beginStopping b1)" if "state b1 = subscriptionStarting"
    using that c b1 by (intro core_beginStopping) (auto simp: shape_def)
  have keep: "core b1" if "\<not> (pending b1 = [] \<and> state b1 = subscriptionStarting)"
    using that c b1 Some
    by (auto simp: core_def shape_def split: subscriptionState.splits)
  show ?thesis
    using assms Some stop keep by (auto simp: cancelPending_def Let_def b1_def)
qed

lemma core_stop_one:
  assumes "core b" and "map_of (active b) i = Some a"
  shows "core (let b = stop_subscriber e (i, a) b in
      if active b = [] \<and> state b = subscriptionRunning then beginStopping b else b)"
proof -
  note c = coreD [OF assms(1)]
  define b1 where "b1 = stop_subscriber e (i, a) b"
  have run: "state b = subscriptionRunning"
    using assms by (intro core_running) auto
  have b1: "state b1 = state b" "pending b1 = pending b" "workerCancel b1 = workerCancel b"
    "boxCtxDone b1 = boxCtxDone b" "active b1 = AList.delete i (active b)"
    "live_worker b1 = live_worker b"
    by (simp_all add: b1_def stop_subscriber_eq)
  have stop: "core (beginStopping b1)" if "active b1 = []"
    using that c b1 run by (intro core_beginStopping) (auto simp: shape_def)
  have keep: "core b1" if "active b1 \<noteq> []"
    using that c b1 run by (simp add: core_def shape_def)
  show ?thesis
    using stop keep by (auto simp: Let_def b1_def [symmetric] b1 run)
qed

lemma core_cancelActive: "core b \<Longrightarrow> core (cancelActive i s b)"
  by (auto simp: cancelActive_def core_stop_one split: option.splits)

lemma core_handleCancelJoin: "core b \<Longrightarrow> core (handleCancelJoin i s b)"
  by (simp add: handleCancelJoin_def core_cancelActive core_cancelPending)

lemma core_handleLeave: "core b \<Longrightarrow> core (handleLeave i r b)"
  by (auto simp: handleLeave_def core_stop_one split: option.splits)

lemma core_handleStop:
  assumes "core b"
  shows "core (handleStop r b)"
proof -
  note c = coreD [OF assms]
  define b1 where "b1 = stopActive None b"
  have b1: "state b1 = state b" "pending b1 = pending b" "workerCancel b1 = workerCancel b"
    "boxCtxDone b1 = boxCtxDone b" "active b1 = []" "live_worker b1 = live_worker b"
    by (simp_all add: b1_def stopActive_eq)
  have stop: "core (beginStopping b1)"
    if "state b1 = subscriptionStarting \<or> state b1 = subscriptionRunning"
    using that c b1 by (intro core_beginStopping) (auto simp: shape_def)
  have keep: "core b1" if "\<not> (state b1 = subscriptionStarting \<or> state b1 = subscriptionRunning)"
    using that c b1 by (auto simp: core_def shape_def split: subscriptionState.splits)
  show ?thesis
    using stop keep by (auto simp: handleStop_def Let_def b1_def [symmetric])
qed

lemma core_handleClose:
  assumes "core b"
  shows "core (handleClose b)"
proof (cases "state b = subscriptionClosing")
  case True
  with assms show ?thesis by (simp add: handleClose_def)
next
  case False
  show ?thesis
  proof (cases "workerCancel b")
    case None
    with assms False show ?thesis
      by (simp add: handleClose_def Let_def failPending_eq stopActive_eq core_def shape_def
          live_worker_def)
  next
    case (Some w)
    with assms obtain ws x where w: "workers b = ws @ [x]" "w = length ws"
      "\<forall>y \<in> set ws. finished y" "worker_ok b x"
      by (rule live_workerE)
    let ?b = "b\<lparr>state := subscriptionClosing\<rparr>"
    have "worker_ok (b\<lparr>state := subscriptionClosing\<rparr>) (x\<lparr>w_ctxDone := True\<rparr>)"
      using w(4) by (auto simp: worker_ok_def pc_ok_def split: workerPC.splits)
    with Some w False show ?thesis
      by (simp add: handleClose_def Let_def failPending_eq stopActive_eq core_def shape_def
          live_worker_def cancel_worker_def worker_ok_def)
  qed
qed

lemma core_handleMessage:
  assumes "core b" and dk: "distinct (keys (active b))" and dv: "distinct (vals (active b))"
  shows "core (handleMessage m b)"
proof (cases "state b = subscriptionRunning \<and> smsg_generation m = generation b")
  case False
  with assms show ?thesis by (auto simp: handleMessage_def)
next
  case True
  note c = coreD [OF assms(1)]
  define b1 where "b1 = b\<lparr>active := filter (\<lambda>p. has_room b (snd p)) (active b),
      subs := (\<lambda>r. if r \<in> snd ` set (active b)
                   then fanned (smsg_capsule m) (subs b r) else subs b r)\<rparr>"
  have b1: "state b1 = state b" "pending b1 = pending b" "workerCancel b1 = workerCancel b"
    "boxCtxDone b1 = boxCtxDone b" "live_worker b1 = live_worker b"
    by (simp_all add: b1_def)
  have "core (beginStopping b1)" if "active b1 = []"
    using that c b1 True by (intro core_beginStopping) (auto simp: shape_def)
  moreover have "core b1" if "active b1 \<noteq> []"
    using that c b1 True by (simp add: core_def shape_def)
  ultimately show ?thesis
    using True dk dv by (auto simp: handleMessage_eq Let_def b1_def [symmetric])
qed

section \<open>The worker's steps keep the core\<close>

text \<open>A worker that has not yet delivered its terminal event is the current one.\<close>

lemma live_index:
  assumes "core b" and "w < length (workers b)" and "\<not> finished (workers b ! w)"
  obtains ws x where "workerCancel b = Some w" "workers b = ws @ [x]" "w = length ws"
    "\<forall>y \<in> set ws. finished y" "worker_ok b x" "workers b ! w = x"
proof (cases "workerCancel b")
  case None
  with assms show ?thesis by (auto simp: core_def live_worker_def)
next
  case (Some v)
  with assms(1) obtain ws x where v: "workers b = ws @ [x]" "v = length ws"
    "\<forall>y \<in> set ws. finished y" "worker_ok b x"
    by (rule live_workerE)
  have "w = length ws"
  proof (rule ccontr)
    assume "w \<noteq> length ws"
    with assms(2) v(1) have "workers b ! w \<in> set ws" by (simp add: nth_append)
    with v(3) assms(3) show False by blast
  qed
  with that v Some show ?thesis by simp
qed

lemma dropExpired_frame:
  obtains P S R where "dropExpired b = b\<lparr>pending := P, subs := S, replies := R\<rparr>"
  by (simp add: dropExpired_def fold_drop_expired)

lemma core_worker_start:
  assumes "core b" and "w < length (workers b)" and "w_pc (workers b ! w) = WSendStart err"
  shows "core (handleStartResult (w_generation (workers b ! w)) w err
           (set_pc w (if err = None then WAwait else WReturning) b))"
proof -
  have nf: "\<not> finished (workers b ! w)" using assms(3) by (simp add: finished_def)
  obtain ws x where w: "workerCancel b = Some w" "workers b = ws @ [x]" "w = length ws"
    "\<forall>y \<in> set ws. finished y" "worker_ok b x" "workers b ! w = x"
    using live_index [OF assms(1,2) nf] by blast
  note c = coreD [OF assms(1)]
  have x: "w_pc x = WSendStart err" "w_generation x = generation b" "w_activation x = []"
    "state b \<noteq> subscriptionRunning" "state b \<noteq> subscriptionIdle"
    "w_ctxDone x \<longleftrightarrow> state b = subscriptionStopping \<or> state b = subscriptionClosing"
    using w assms(3) c(1) by (auto simp: worker_ok_def pc_ok_def shape_def)
  show ?thesis
  proof (cases err)
    case (Some e)
    define b1 where "b1 = b\<lparr>workers := ws @ [x\<lparr>w_pc := WReturning\<rparr>], workerCancel := None\<rparr>"
    have b1: "\<forall>y \<in> set (workers b1). finished y" "state b1 = state b" "pending b1 = pending b"
      "active b1 = active b" "workerCancel b1 = None" "boxCtxDone b1 = boxCtxDone b"
      using w(4) by (auto simp: b1_def finished_def)
    have eq: "handleStartResult (w_generation (workers b ! w)) w err
        (set_pc w (if err = None then WAwait else WReturning) b) =
        (case state b of subscriptionStarting \<Rightarrow> (failPending err b1)\<lparr>state := subscriptionIdle\<rparr>
         | subscriptionStopping \<Rightarrow> restartOrIdle b1 | _ \<Rightarrow> b1)"
      using w x Some
      by (cases "state b") (simp_all add: handleStartResult_def set_pc_def Let_def b1_def)
    show ?thesis
    proof (cases "state b")
      case subscriptionStarting
      with b1 c show ?thesis
        unfolding eq by (simp add: failPending_eq core_def shape_def live_worker_def)
    next
      case subscriptionStopping
      with b1 c show ?thesis
        unfolding eq by (simp add: core_restartOrIdle shape_def)
    next
      case subscriptionClosing
      with b1 c show ?thesis
        unfolding eq by (simp add: core_def shape_def live_worker_def)
    qed (use x in simp_all)
  next
    case None
    define b1 where "b1 = b\<lparr>workers := ws @ [x\<lparr>w_pc := WAwait\<rparr>]\<rparr>"
    have eq: "handleStartResult (w_generation (workers b ! w)) w err
        (set_pc w (if err = None then WAwait else WReturning) b) =
        (case state b of
          subscriptionStarting \<Rightarrow>
             let b = dropExpired b1 in
             if pending b = [] then send_activation w False (beginStopping b)
             else admitPending (send_activation w True (b\<lparr>state := subscriptionRunning\<rparr>))
         | _ \<Rightarrow> send_activation w False b1)"
      using w x None
      by (cases "state b") (simp_all add: handleStartResult_def set_pc_def Let_def b1_def)
    obtain P S R where drop: "dropExpired b1 = b1\<lparr>pending := P, subs := S, replies := R\<rparr>"
      by (rule dropExpired_frame)
    show ?thesis
    proof (cases "state b")
      case subscriptionStarting
      have ne: "admit_active P [] = [] \<longleftrightarrow> P = []"
        by (cases P rule: rev_cases) (auto simp: admit_active_def)
      from subscriptionStarting w x c show ?thesis
        unfolding eq
        by (simp add: Let_def drop [unfolded b1_def] b1_def beginStopping_def cancel_worker_def send_activation_def
            admitPending_eq core_def shape_def live_worker_def worker_ok_def pc_ok_def ne)
    qed (unfold eq, use w x c in \<open>simp_all add: b1_def send_activation_def core_def shape_def
        live_worker_def worker_ok_def pc_ok_def\<close>)
  qed
qed

lemma core_worker_stopped:
  assumes "core b" and "w < length (workers b)"
    and "w_pc (workers b ! w) = WStop e \<or> w_pc (workers b ! w) = WStopInactive"
  shows "core (handleWorkerStopped (w_generation (workers b ! w)) err (set_pc w WReturning b))"
proof -
  have nf: "\<not> finished (workers b ! w)" using assms(3) by (auto simp: finished_def)
  obtain ws x where w: "workerCancel b = Some w" "workers b = ws @ [x]" "w = length ws"
    "\<forall>y \<in> set ws. finished y" "worker_ok b x" "workers b ! w = x"
    using live_index [OF assms(1,2) nf] by blast
  note c = coreD [OF assms(1)]
  define b1 where "b1 = b\<lparr>workers := ws @ [x\<lparr>w_pc := WReturning\<rparr>], workerCancel := None\<rparr>"
  have b1: "\<forall>y \<in> set (workers b1). finished y" "state b1 = state b" "pending b1 = pending b"
    "active b1 = active b" "workerCancel b1 = None" "boxCtxDone b1 = boxCtxDone b"
    using w(4) by (auto simp: b1_def finished_def)
  have st: "state b \<noteq> subscriptionStarting" "state b \<noteq> subscriptionIdle"
    using w assms(3) c(1) by (auto simp: worker_ok_def pc_ok_def shape_def)
  have gen: "w_generation x = generation b" using w(5) by (simp add: worker_ok_def)
  have eq: "handleWorkerStopped (w_generation (workers b ! w)) err (set_pc w WReturning b) =
      (case state b of subscriptionRunning \<Rightarrow> (stopActive err b1)\<lparr>state := subscriptionIdle\<rparr>
       | subscriptionStopping \<Rightarrow> restartOrIdle b1 | _ \<Rightarrow> b1)"
    using w gen
    by (cases "state b") (simp_all add: handleWorkerStopped_def set_pc_def Let_def b1_def)
  show ?thesis
  proof (cases "state b")
    case subscriptionRunning
    with b1 c show ?thesis
      unfolding eq by (simp add: stopActive_eq core_def shape_def live_worker_def)
  next
    case subscriptionStopping
    with b1 c show ?thesis
      unfolding eq by (simp add: core_restartOrIdle shape_def)
  next
    case subscriptionClosing
    with b1 c show ?thesis
      unfolding eq by (simp add: core_def shape_def live_worker_def)
  qed (use st in simp_all)
qed

text \<open>A step of the live worker alone: only its position and activation buffer change.\<close>

lemma core_worker_local:
  assumes "core b" and "w < length (workers b)" and "\<not> finished (workers b ! w)"
    and "\<And>s. pc_ok s (workers b ! w) \<Longrightarrow> s \<noteq> subscriptionIdle \<Longrightarrow> pc_ok s y"
    and "w_generation y = w_generation (workers b ! w)" "w_ctxDone y = w_ctxDone (workers b ! w)"
  shows "core (b\<lparr>workers := (workers b)[w := y]\<rparr>)"
proof -
  obtain ws x where w: "workerCancel b = Some w" "workers b = ws @ [x]" "w = length ws"
    "\<forall>y \<in> set ws. finished y" "worker_ok b x" "workers b ! w = x"
    using live_index [OF assms(1-3)] by blast
  note c = coreD [OF assms(1)]
  have "state b \<noteq> subscriptionIdle" using c(1) w(1) by (auto simp: shape_def)
  then have "worker_ok b y" using assms(4-6) w(5,6) by (auto simp: worker_ok_def)
  then show ?thesis
    using c w by (auto simp: core_def live_worker_def worker_ok_def)
qed

lemma core_worker_done:
  assumes "core b" and "w < length (workers b)" and "w_pc (workers b ! w) = WReturning"
  shows "core (set_pc w WDone b)"
proof -
  have upd: "\<forall>y \<in> set ((workers b)[w := (workers b ! w)\<lparr>w_pc := WDone\<rparr>]). finished y"
    if "\<forall>y \<in> set (workers b). finished y"
    using that set_update_subset_insert [of "workers b" w] by (fastforce simp: finished_def)
  note c = coreD [OF assms(1)]
  show ?thesis
  proof (cases "workerCancel b")
    case None
    with c upd show ?thesis
      by (simp add: set_pc_def core_def live_worker_def)
  next
    case (Some v)
    with assms(1) obtain ws x where v: "workers b = ws @ [x]" "v = length ws"
      "\<forall>y \<in> set ws. finished y" "worker_ok b x"
      by (rule live_workerE)
    have "w \<noteq> length ws"
      using v assms(3) by (auto simp: worker_ok_def pc_ok_def)
    with assms(2) v have wl: "w < length ws" by simp
    have "\<forall>y \<in> set (ws[w := (ws ! w)\<lparr>w_pc := WDone\<rparr>]). finished y"
      using v(3) set_update_subset_insert [of ws w] by (fastforce simp: finished_def)
    with c v wl Some show ?thesis
      by (auto simp: set_pc_def core_def live_worker_def worker_ok_def list_update_append nth_append)
  qed
qed

end
