(* ===== verification/BoxRefs.thy ===== *)
theory BoxRefs
  imports BoxLife
begin

text \<open>
  Who refers to whom: the requests in the maps against the callers of \<open>JoinSubContext\<close>, their
  reply channels and their subscribers. Every handler is an evolution of the stores
  (\<open>evolves\<close>), a reflexive and transitive relation that keeps the invariant; only the
  handling of a join adds a reference to the maps.
\<close>

section \<open>What the handlers leave alone\<close>

definition frame where
  "frame b = (dispatcher b, boxDone b, boxCloseErr b, topicCloses b, closeOnce b, calls b,
     reqs b, nextRef b, cancels b, ctxs b, messageCh b, messageCap b)"

lemma frame_upd [simp]:
  "frame (b\<lparr>state := a1\<rparr>) = frame b" "frame (b\<lparr>generation := a2\<rparr>) = frame b"
  "frame (b\<lparr>pending := a3\<rparr>) = frame b" "frame (b\<lparr>active := a4\<rparr>) = frame b"
  "frame (b\<lparr>workerCancel := a5\<rparr>) = frame b" "frame (b\<lparr>workers := a6\<rparr>) = frame b"
  "frame (b\<lparr>subs := a7\<rparr>) = frame b" "frame (b\<lparr>replies := a8\<rparr>) = frame b"
  "frame (b\<lparr>acks := a9\<rparr>) = frame b" "frame (b\<lparr>boxCtxDone := a10\<rparr>) = frame b"
  by (simp_all add: frame_def)

lemma frame_blocks [simp]:
  "frame (startGeneration b) = frame b" "frame (beginStopping b) = frame b"
  "frame (restartOrIdle b) = frame b" "frame (sub_stop r e b) = frame b"
  "frame (send_reply r res b) = frame b" "frame (send_ack r b) = frame b"
  "frame (send_activation w a b) = frame b" "frame (cancel_worker w b) = frame b"
  "frame (fail_request e p b) = frame b" "frame (stop_subscriber e q b) = frame b"
  "frame (failPending e b) = frame b" "frame (stopActive e b) = frame b"
  "frame (dropExpired b) = frame b" "frame (admitPending b) = frame b"
  "frame (rejectDuplicate x b) = frame b"
  by (simp_all add: startGeneration_def startWorker_def beginStopping_def restartOrIdle_def Let_def
      store_defs fail_request_eq stop_subscriber_eq failPending_eq stopActive_eq dropExpired_def
      fold_drop_expired admitPending_eq rejectDuplicate_def split: option.split)

lemma frame_fan_out [simp]: "frame (fold (fan_out c) ps b) = frame b"
  by (induction ps arbitrary: b) (simp_all add: fan_out_eq)

lemma frame_dispatch: "frame (dispatch ev b) = frame b"
  by (cases ev)
    (simp_all add: handler_defs Let_def split: option.split subscriptionState.split)

lemma frame_handleMessage: "frame (handleMessage m b) = frame b"
  by (simp add: handleMessage_def Let_def)

lemma frameD:
  assumes "frame b' = frame b"
  shows "dispatcher b' = dispatcher b" "boxDone b' = boxDone b" "topicCloses b' = topicCloses b"
    "closeOnce b' = closeOnce b" "calls b' = calls b" "reqs b' = reqs b" "nextRef b' = nextRef b"
    "cancels b' = cancels b" "ctxs b' = ctxs b" "messageCh b' = messageCh b"
    "messageCap b' = messageCap b" "boxCloseErr b' = boxCloseErr b"
  using assms by (simp_all add: frame_def)

lemma calls_handleControl: "calls (handleControl ev b) = calls b"
  using frameD(5) [OF frame_dispatch [of ev b]] by (simp add: handleControl_def Let_def)

section \<open>References\<close>

definition booked :: "Box \<Rightarrow> nat \<Rightarrow> bool" where
  "booked b r \<longleftrightarrow> r \<in> set (sub_refs (pending b))"

definition joined :: "Box \<Rightarrow> nat \<Rightarrow> bool" where
  "joined b r \<longleftrightarrow> r \<in> snd ` set (active b)"

definition request_ok :: "Box \<Rightarrow> string \<times> joinRequest \<Rightarrow> bool" where
  "request_ok b p \<longleftrightarrow>
     fst p = jr_subscriberID (snd p) \<and> jr_reply (snd p) = jr_subscriber (snd p) \<and>
     snd p = reqs b (jr_subscriber (snd p))"

definition maps_ok :: "Box \<Rightarrow> bool" where
  "maps_ok b \<longleftrightarrow>
     distinct (keys (pending b)) \<and> distinct (keys (active b)) \<and>
     (pending b = [] \<or> active b = []) \<and>
     (\<forall>p \<in> set (pending b). request_ok b p) \<and>
     (\<forall>p \<in> set (active b). fst p = jr_subscriberID (reqs b (snd p)))"

lemma distinct_sub_refs:
  assumes "maps_ok b" and "set ps \<subseteq> set (pending b)" and "distinct (keys ps)"
  shows "distinct (sub_refs ps)"
proof -
  have inj: "inj_on (\<lambda>p. jr_subscriber (snd p)) (set ps)"
  proof (rule inj_onI)
    fix p q
    assume "p \<in> set ps" "q \<in> set ps" and eq: "jr_subscriber (snd p) = jr_subscriber (snd q)"
    then have "request_ok b p" "request_ok b q" using assms(1,2) by (auto simp: maps_ok_def)
    with eq show "p = q" by (metis request_ok_def prod.collapse)
  qed
  have "distinct ps" using assms(3) by (simp add: distinct_map)
  with inj show ?thesis by (simp add: sub_refs_def distinct_map)
qed

lemma reply_refs_sub_refs:
  assumes "maps_ok b" and "set ps \<subseteq> set (pending b)"
  shows "reply_refs ps = sub_refs ps"
  using assms by (auto simp: reply_refs_def sub_refs_def maps_ok_def request_ok_def)

lemma distinct_active_vals:
  assumes "maps_ok b"
  shows "distinct (vals (active b))"
proof -
  have "inj_on snd (set (active b))"
  proof (rule inj_onI)
    fix p q
    assume "p \<in> set (active b)" "q \<in> set (active b)" "snd p = snd q"
    with assms have "fst p = fst q" unfolding maps_ok_def by metis
    with \<open>snd p = snd q\<close> show "p = q" by (simp add: prod_eq_iff)
  qed
  moreover have "distinct (active b)"
    using assms by (simp add: maps_ok_def distinct_map)
  ultimately show ?thesis by (simp add: distinct_map)
qed

lemma maps_ok_keys: "maps_ok b \<Longrightarrow> distinct (keys (active b))"
  by (simp add: maps_ok_def)

section \<open>Evolution of the stores\<close>

text \<open>
  One reference: a booked request may be answered, once, and may then be joined; a joined one
  may leave; whatever stays in the maps is not stopped, and whatever leaves them is.
\<close>

definition evolve :: "Box \<Rightarrow> Box \<Rightarrow> nat \<Rightarrow> bool" where
  "evolve b c r \<longleftrightarrow>
     (booked c r \<longrightarrow> booked b r) \<and>
     (joined c r \<longrightarrow> joined b r \<or> booked b r) \<and>
     (\<not> booked b r \<or> booked c r \<longrightarrow> replies c r = replies b r) \<and>
     (booked b r \<and> \<not> booked c r \<longrightarrow>
        (\<exists>x. replies c r = replies b r @ [x] \<and>
           (res_err x = None \<longrightarrow> res_subscriber x = Some r) \<and>
           (res_err x \<noteq> None \<longrightarrow> \<not> joined c r))) \<and>
     (booked c r \<or> joined c r \<longrightarrow> sub_done (subs c r) = sub_done (subs b r)) \<and>
     (\<not> booked b r \<and> \<not> joined b r \<longrightarrow> subs c r = subs b r) \<and>
     (sub_wf (subs b r) \<longrightarrow> sub_wf (subs c r) \<and>
        ((booked b r \<or> joined b r) \<and> \<not> booked c r \<and> \<not> joined c r \<longrightarrow> sub_done (subs c r)))"

definition evolves :: "Box \<Rightarrow> Box \<Rightarrow> bool" where
  "evolves b c \<longleftrightarrow> frame c = frame b \<and> (maps_ok b \<longrightarrow> maps_ok c \<and> (\<forall>r. evolve b c r))"

lemma evolve_refl: "evolve b b r"
  by (auto simp: evolve_def)

lemma evolve_trans:
  assumes "evolve b c r" and "evolve c d r"
  shows "evolve b d r"
  using assms unfolding evolve_def by (cases "booked b r"; cases "booked c r"; cases "booked d r") auto

lemma evolves_refl [simp]: "evolves b b"
  by (simp add: evolves_def evolve_refl)

lemma evolves_trans: "evolves b c \<Longrightarrow> evolves c d \<Longrightarrow> evolves b d"
  unfolding evolves_def by (auto intro: evolve_trans)

text \<open>Steps that leave the maps and the stores of replies and subscribers as they are.\<close>

lemma evolves_same:
  assumes "frame c = frame b" "pending c = pending b" "active c = active b" "subs c = subs b"
    "replies c = replies b"
  shows "evolves b c"
  using assms
  by (auto simp: evolves_def evolve_def maps_ok_def booked_def joined_def request_ok_def frame_def)

lemma evolves_blocks [intro, simp]:
  "evolves b (startGeneration b)" "evolves b (beginStopping b)" "evolves b (restartOrIdle b)"
  "evolves b (send_activation w a b)" "evolves b (send_ack r b)" "evolves b (cancel_worker w b)"
  "evolves b (b\<lparr>state := s\<rparr>)" "evolves b (b\<lparr>workerCancel := wc\<rparr>)" "evolves b (b\<lparr>boxCtxDone := x\<rparr>)"
  by (rule evolves_same;
      simp add: startGeneration_def startWorker_def beginStopping_def restartOrIdle_def Let_def
        store_defs split: option.split)+



lemma booked_delete:
  assumes "maps_ok b" and "p \<in> set (pending b)"
  shows "r \<in> set (sub_refs (AList.delete (fst p) (pending b))) \<longleftrightarrow>
      booked b r \<and> r \<noteq> jr_subscriber (snd p)"
proof -
  have "fst q = fst p \<longleftrightarrow> jr_subscriber (snd q) = jr_subscriber (snd p)"
    if "q \<in> set (pending b)" for q
  proof -
    have "request_ok b q" "request_ok b p" using assms that by (auto simp: maps_ok_def)
    moreover have "inj_on fst (set (pending b))"
      using assms(1) by (simp add: maps_ok_def distinct_map)
    ultimately show ?thesis using that assms(2) by (metis inj_onD request_ok_def)
  qed
  then show ?thesis by (auto simp: booked_def sub_refs_def set_delete)
qed

lemma joined_delete:
  assumes "maps_ok b" and "p \<in> set (active b)"
  shows "r \<in> snd ` set (AList.delete (fst p) (active b)) \<longleftrightarrow> joined b r \<and> r \<noteq> snd p"
proof -
  have "fst q = fst p \<longleftrightarrow> snd q = snd p" if "q \<in> set (active b)" for q
  proof -
    have "inj_on fst (set (active b))" using assms(1) by (simp add: maps_ok_def distinct_map)
    then show ?thesis using that assms unfolding maps_ok_def by (metis inj_onD)
  qed
  then show ?thesis by (auto simp: joined_def set_delete)
qed

lemma maps_ok_delete:
  assumes "maps_ok b"
  shows "maps_ok (b\<lparr>pending := AList.delete k (pending b), subs := s, replies := rs\<rparr>)"
    and "maps_ok (b\<lparr>active := AList.delete k (active b), subs := s\<rparr>)"
  using assms by (auto simp: maps_ok_def request_ok_def set_delete)

lemma evolves_fail_request:
  assumes "p \<in> set (pending b)" and "e \<noteq> None"
  shows "evolves b (fail_request e p b)"
proof -
  have "evolve b (fail_request e p b) r" if m: "maps_ok b" for r
  proof -
    have rok: "request_ok b p" using assms m by (auto simp: maps_ok_def)
    have bk: "booked (fail_request e p b) r' \<longleftrightarrow> booked b r' \<and> r' \<noteq> jr_subscriber (snd p)" for r'
      using booked_delete [OF m assms(1)] by (simp add: booked_def fail_request_eq)
    have jn: "joined (fail_request e p b) r' \<longleftrightarrow> joined b r'" for r'
      by (simp add: joined_def fail_request_eq)
    have nj: "booked b r \<Longrightarrow> \<not> joined b r" for r
      using m by (auto simp: maps_ok_def booked_def joined_def)
    have bp: "booked b (jr_subscriber (snd p))"
      using assms(1) by (auto simp: booked_def sub_refs_def)
    show ?thesis
    proof (cases "r = jr_subscriber (snd p)")
      case True
      with rok assms(2) bp nj show ?thesis
        by (simp add: evolve_def bk jn) (simp add: fail_request_eq request_ok_def stop_done)
    next
      case False
      with rok show ?thesis
        by (simp add: evolve_def bk jn) (auto simp: fail_request_eq request_ok_def)
    qed
  qed
  then show ?thesis
    by (simp add: evolves_def) (simp add: fail_request_eq maps_ok_delete)
qed

lemma evolves_stop_subscriber:
  assumes "p \<in> set (active b)"
  shows "evolves b (stop_subscriber e p b)"
proof -
  have "evolve b (stop_subscriber e p b) r" if m: "maps_ok b" for r
  proof -
    have bk: "booked (stop_subscriber e p b) r' \<longleftrightarrow> booked b r'" for r'
      by (simp add: booked_def stop_subscriber_eq)
    have jn: "joined (stop_subscriber e p b) r' \<longleftrightarrow> joined b r' \<and> r' \<noteq> snd p" for r'
      using joined_delete [OF m assms] by (simp add: joined_def stop_subscriber_eq)
    have nb: "\<not> booked b (snd p)" "joined b (snd p)"
      using m assms by (auto simp: maps_ok_def booked_def joined_def)
    show ?thesis
      using nb by (cases "r = snd p")
        (simp_all add: evolve_def bk jn, auto simp: stop_subscriber_eq stop_done)
  qed
  then show ?thesis
    by (simp add: evolves_def) (simp add: stop_subscriber_eq maps_ok_delete)
qed

section \<open>The loops evolve the stores\<close>

text \<open>
  A loop over entries that are still in the map when their turn comes: each step is an
  evolution that removes at most its own key.
\<close>

lemma evolves_fold_pending:
  assumes step: "\<And>p b. p \<in> set (pending b) \<Longrightarrow> evolves b (f p b)"
    and keep: "\<And>p q b. q \<in> set (pending b) \<Longrightarrow> fst q \<noteq> fst p \<Longrightarrow> q \<in> set (pending (f p b))"
    and "distinct (keys ps)" and "set ps \<subseteq> set (pending b)"
  shows "evolves b (fold f ps b)"
  using assms(3,4)
proof (induction ps arbitrary: b)
  case Nil
  then show ?case by simp
next
  case (Cons p ps)
  have "set ps \<subseteq> set (pending (f p b))"
  proof
    fix q assume q: "q \<in> set ps"
    then have "fst q \<noteq> fst p" using Cons.prems(1) by (metis distinct.simps(2) image_eqI list.set_map list.simps(9))
    with q Cons.prems(2) show "q \<in> set (pending (f p b))" by (intro keep) auto
  qed
  with Cons have "evolves (f p b) (fold f ps (f p b))" by simp
  moreover have "evolves b (f p b)" using Cons.prems by (intro step) simp
  ultimately show ?case by (auto intro: evolves_trans)
qed

lemma evolves_fold_active:
  assumes step: "\<And>p b. p \<in> set (active b) \<Longrightarrow> evolves b (f p b)"
    and keep: "\<And>p q b. q \<in> set (active b) \<Longrightarrow> fst q \<noteq> fst p \<Longrightarrow> q \<in> set (active (f p b))"
    and "distinct (keys ps)" and "set ps \<subseteq> set (active b)"
  shows "evolves b (fold f ps b)"
  using assms(3,4)
proof (induction ps arbitrary: b)
  case Nil
  then show ?case by simp
next
  case (Cons p ps)
  have "set ps \<subseteq> set (active (f p b))"
  proof
    fix q assume q: "q \<in> set ps"
    then have "fst q \<noteq> fst p" using Cons.prems(1) by (metis distinct.simps(2) image_eqI list.set_map list.simps(9))
    with q Cons.prems(2) show "q \<in> set (active (f p b))" by (intro keep) auto
  qed
  with Cons have "evolves (f p b) (fold f ps (f p b))" by simp
  moreover have "evolves b (f p b)" using Cons.prems by (intro step) simp
  ultimately show ?case by (auto intro: evolves_trans)
qed

lemma kept:
  "q \<in> set (pending b) \<Longrightarrow> fst q \<noteq> fst p \<Longrightarrow> q \<in> set (pending (fail_request e p b))"
  "q' \<in> set (active b) \<Longrightarrow> fst q' \<noteq> fst p' \<Longrightarrow> q' \<in> set (active (stop_subscriber e p' b))"
  by (simp_all add: fail_request_eq stop_subscriber_eq set_delete)

lemma maps_ok_pending_keys: "maps_ok b \<Longrightarrow> distinct (keys (pending b))"
  by (simp add: maps_ok_def)

lemma evolvesI:
  "(maps_ok b \<Longrightarrow> evolves b c) \<Longrightarrow> frame c = frame b \<Longrightarrow> evolves b c"
  by (auto simp: evolves_def)

lemma evolves_failPending [intro]:
  assumes "e \<noteq> None"
  shows "evolves b (failPending e b)"
proof (rule evolvesI)
  assume "maps_ok b"
  then show "evolves b (failPending e b)"
    unfolding failPending_def using assms
    by (intro evolves_fold_pending [OF evolves_fail_request kept(1)] maps_ok_pending_keys) auto
qed simp

lemma evolves_stopActive [intro, simp]: "evolves b (stopActive e b)"
proof (rule evolvesI)
  assume "maps_ok b"
  then show "evolves b (stopActive e b)"
    unfolding stopActive_def
    by (intro evolves_fold_active [OF evolves_stop_subscriber kept(2)] maps_ok_keys) auto
qed simp

lemma evolves_drop_expired: "p \<in> set (pending b) \<Longrightarrow> evolves b (drop_expired p b)"
  by (simp add: drop_expired_def evolves_fail_request)

lemma kept_drop_expired:
  "q \<in> set (pending b) \<Longrightarrow> fst q \<noteq> fst p \<Longrightarrow> q \<in> set (pending (drop_expired p b))"
  by (simp add: drop_expired_def kept)

lemma evolves_dropExpired [intro, simp]: "evolves b (dropExpired b)"
proof (rule evolvesI)
  assume "maps_ok b"
  then show "evolves b (dropExpired b)"
    unfolding dropExpired_def
    by (intro evolves_fold_pending [OF evolves_drop_expired kept_drop_expired]
        maps_ok_pending_keys) auto
qed simp

lemma evolves_fan_out:
  assumes "p \<in> set (active b)"
  shows "evolves b (fan_out c p b)"
proof (cases "fst (offer c (subs b (snd p)))")
  case False
  then show ?thesis using assms by (simp add: fan_out_def evolves_stop_subscriber)
next
  case True
  have "joined b (snd p)" using assms by (auto simp: joined_def)
  with True show ?thesis
    by (auto simp: fan_out_def evolves_def evolve_def maps_ok_def booked_def joined_def request_ok_def)
qed

lemma kept_fan_out:
  "q \<in> set (active b) \<Longrightarrow> fst q \<noteq> fst p \<Longrightarrow> q \<in> set (active (fan_out c p b))"
  by (simp add: fan_out_def kept)

lemma evolves_handleMessage: "evolves b (handleMessage m b)"
proof (rule evolvesI)
  assume "maps_ok b"
  then have "evolves b (fold (fan_out (smsg_capsule m)) (active b) b)"
    by (intro evolves_fold_active [OF evolves_fan_out kept_fan_out] maps_ok_keys) auto
  then show "evolves b (handleMessage m b)"
    by (auto simp: handleMessage_def Let_def intro: evolves_trans)
qed (rule frame_handleMessage)


lemma filter_unique_ref:
  "distinct (sub_refs ps) \<Longrightarrow> r \<in> set (sub_refs ps) \<Longrightarrow>
   \<exists>p. filter (\<lambda>p. jr_subscriber (snd p) = r) ps = [p] \<and> jr_subscriber (snd p) = r"
proof (induction ps)
  case Nil
  then show ?case by simp
next
  case (Cons p ps)
  show ?case
  proof (cases "jr_subscriber (snd p) = r")
    case True
    with Cons.prems(1) have "r \<notin> set (sub_refs ps)" by simp
    then have "filter (\<lambda>p. jr_subscriber (snd p) = r) ps = []"
      by (auto simp: filter_empty_conv sub_refs_def)
    with True show ?thesis by simp
  next
    case False
    with Cons show ?thesis by auto
  qed
qed

lemma evolves_admitPending [intro, simp]: "evolves b (admitPending b)"
proof (cases "pending b = []")
  case True
  then show ?thesis by (simp add: admitPending_def)
next
  case False
  show ?thesis
  proof (rule evolvesI)
    assume m: "maps_ok b"
    with False have act: "active b = []" by (simp add: maps_ok_def)
    have keys: "distinct (keys (pending b))" using m by (rule maps_ok_pending_keys)
    have active: "active (admitPending b) =
        List.map (\<lambda>p. (fst p, jr_subscriber (snd p))) (pending b)"
      using act keys by (simp add: admitPending_eq admit_active_fresh)
    have bk: "\<not> booked (admitPending b) r" for r
      by (simp add: booked_def admitPending_eq)
    have jn: "joined (admitPending b) r \<longleftrightarrow> booked b r" "\<not> joined b r" for r
      using act by (simp_all add: joined_def booked_def active sub_refs_def image_image)
    have refs: "distinct (sub_refs (pending b))"
      using m keys by (intro distinct_sub_refs) auto
    have same: "filter (\<lambda>p. jr_reply (snd p) = r) (pending b) =
        filter (\<lambda>p. jr_subscriber (snd p) = r) (pending b)" for r
      using m by (intro filter_cong) (auto simp: maps_ok_def request_ok_def)
    have reply: "replies (admitPending b) r = replies b r @
        (if booked b r then [\<lparr>res_subscriber = Some r, res_err = None\<rparr>] else [])" for r
    proof (cases "booked b r")
      case True
      then obtain p where "filter (\<lambda>p. jr_subscriber (snd p) = r) (pending b) = [p]"
        "jr_subscriber (snd p) = r"
        using filter_unique_ref [OF refs] unfolding booked_def by metis
      with True show ?thesis by (simp add: admitPending_eq same admit_reply_def)
    next
      case False
      then show ?thesis
        by (auto simp: admitPending_eq same booked_def sub_refs_def filter_empty_conv)
    qed
    have "pending (admitPending b) = []" "reqs (admitPending b) = reqs b"
      by (simp_all add: admitPending_eq)
    then have "maps_ok (admitPending b)"
      using m keys by (auto simp: maps_ok_def active comp_def request_ok_def)
    moreover have "evolve b (admitPending b) r" for r
      by (simp add: evolve_def bk jn reply) (simp add: admitPending_eq)
    ultimately show "evolves b (admitPending b)"
      by (simp add: evolves_def)
  qed simp
qed

section \<open>Every event but a join evolves the stores\<close>

lemmas evolves_into =
  evolves_blocks [THEN evolves_trans [rotated]]
  evolves_stopActive [THEN evolves_trans [rotated]]
  evolves_dropExpired [THEN evolves_trans [rotated]]
  evolves_admitPending [THEN evolves_trans [rotated]]
  evolves_failPending [THEN evolves_trans [rotated]]

lemma evolves_cancelPending: "evolves b (cancelPending i s b)"
proof (cases "map_of (pending b) i")
  case None
  then show ?thesis by (simp add: cancelPending_def)
next
  case (Some p)
  then have "evolves b (fail_request (Some CtxCanceled) (i, p) b)"
    by (intro evolves_fail_request map_of_SomeD) auto
  with Some show ?thesis
    by (simp add: cancelPending_def Let_def evolves_into)
qed

lemma evolves_stop_one:
  assumes "map_of (active b) i = Some a"
  shows "evolves b (let b = stop_subscriber e (i, a) b in
      if active b = [] \<and> state b = subscriptionRunning then beginStopping b else b)"
proof -
  have "evolves b (stop_subscriber e (i, a) b)"
    using assms by (intro evolves_stop_subscriber map_of_SomeD)
  then show ?thesis by (simp add: Let_def evolves_into)
qed

lemma evolves_cancelActive: "evolves b (cancelActive i s b)"
  by (auto simp: cancelActive_def evolves_stop_one split: option.splits)

lemma evolves_handleLeave: "evolves b (handleLeave i r b)"
  by (auto simp: handleLeave_def intro: evolves_into evolves_stop_one split: option.splits)

lemma evolves_handleStop: "evolves b (handleStop r b)"
  by (simp add: handleStop_def Let_def evolves_into)

lemma evolves_handleClose: "evolves b (handleClose b)"
proof -
  have "evolves b (stopActive (Some ErrBoxClosed) (failPending (Some ErrBoxClosed)
      (b\<lparr>state := subscriptionClosing, boxCtxDone := True\<rparr>)))"
    by (intro evolves_into evolves_same) simp_all
  then show ?thesis
    by (simp add: handleClose_def Let_def evolves_into split: option.split)
qed

lemma evolves_handleWorkerStopped: "evolves b (handleWorkerStopped g e b)"
proof -
  let ?b = "b\<lparr>workerCancel := None\<rparr>"
  have "evolves b ((stopActive e ?b)\<lparr>state := subscriptionIdle\<rparr>)" "evolves b (restartOrIdle ?b)"
    by (intro evolves_into evolves_refl)+
  then show ?thesis
    by (auto simp: handleWorkerStopped_def Let_def split: subscriptionState.split)
qed

lemma evolves_handleStartResult: "evolves b (handleStartResult g a e b)"
proof -
  let ?b = "b\<lparr>workerCancel := None\<rparr>" and ?d = "dropExpired b"
  have "e \<noteq> None \<Longrightarrow> evolves b ((failPending e ?b)\<lparr>state := subscriptionIdle\<rparr>)"
    "evolves b (restartOrIdle ?b)" "evolves b (send_activation a False (beginStopping ?d))"
    "evolves b (admitPending (send_activation a True (?d\<lparr>state := subscriptionRunning\<rparr>)))"
    by (intro evolves_into evolves_refl; assumption)+
  then show ?thesis
    by (auto simp: handleStartResult_def Let_def split: subscriptionState.split)
qed

lemma evolves_dispatch:
  assumes "\<forall>q. ev \<noteq> JoinReq q"
  shows "evolves b (dispatch ev b)"
  using assms
  by (cases ev) (auto simp: handleCancelJoin_def evolves_handleLeave evolves_handleStop
      evolves_handleClose evolves_handleStartResult evolves_handleWorkerStopped
      intro: evolves_trans evolves_cancelPending evolves_cancelActive)

end
