(* ===== verification/BoxInv.thy ===== *)
theory BoxInv
  imports BoxRefs
begin

text \<open>
  The invariant of the whole box: the life cycle (\<open>BoxLife\<close>), the maps and, for every caller
  of \<open>JoinSubContext\<close>, the agreement of its position with the dispatcher's maps, its reply
  channel and its subscriber. Every step of every goroutine keeps it.
\<close>

section \<open>Callers\<close>

definition call_ok :: "Box \<Rightarrow> nat \<Rightarrow> bool" where
  "call_ok b r \<longleftrightarrow>
     sub_wf (subs b r) \<and> length (replies b r) \<le> 1 \<and>
     (booked b r \<longrightarrow> replies b r = []) \<and>
     (booked b r \<or> joined b r \<longrightarrow>
        (calls b r = CWait \<or> (\<exists>res. calls b r = CReturned res)) \<and>
        (sub_done (subs b r) \<longrightarrow> r \<in> set (cancels b))) \<and>
     (r \<in> set (cancels b) \<longrightarrow> (\<exists>res. calls b r = CReturned res \<and> res_err res \<noteq> None)) \<and>
     (calls b r = CNone \<longleftrightarrow> nextRef b \<le> r) \<and>
     (calls b r = CNone \<longrightarrow> replies b r = []) \<and>
     (calls b r = CSend \<longrightarrow> replies b r = [] \<and> \<not> sub_done (subs b r)) \<and>
     (calls b r = CSend \<or> calls b r = CWait \<longrightarrow>
        jr_subscriber (reqs b r) = r \<and> jr_reply (reqs b r) = r) \<and>
     (calls b r = CWait \<and> \<not> booked b r \<longrightarrow>
        (\<exists>x. replies b r = [x] \<and> (res_err x = None \<longrightarrow> res_subscriber x = Some r) \<and>
             (res_err x \<noteq> None \<longrightarrow> \<not> joined b r))) \<and>
     (\<forall>res. calls b r = CReturned res \<longrightarrow>
        (res_err res = None \<longrightarrow> res_subscriber res = Some r \<and> \<not> booked b r) \<and>
        (res_err res \<noteq> None \<and> (booked b r \<or> joined b r) \<longrightarrow> r \<in> set (cancels b))) \<and>
     (\<not> booked b r \<and> \<not> joined b r \<and>
        (calls b r = CWait \<or> (\<exists>res. calls b r = CReturned res \<and> res_err res = None)) \<longrightarrow>
        sub_done (subs b r))"

definition refs_ok :: "Box \<Rightarrow> bool" where
  "refs_ok b \<longleftrightarrow> maps_ok b \<and> distinct (cancels b) \<and> (\<forall>r. call_ok b r)"

definition box_inv :: "Box \<Rightarrow> bool" where
  "box_inv b \<longleftrightarrow> life b \<and> refs_ok b"

text \<open>An evolution of the stores keeps the agreement of every caller.\<close>

lemma call_ok_evolve:
  assumes ok: "call_ok b r" and ev: "evolve b c r" and "frame c = frame b"
  shows "call_ok c r"
proof -
  note f = frameD [OF assms(3)]
  have wf: "sub_wf (subs c r)" using ok ev by (simp add: call_ok_def evolve_def)
  have jn: "joined c r \<Longrightarrow> joined b r \<or> booked b r" using ev by (simp add: evolve_def)
  have dn: "booked c r \<or> joined c r \<Longrightarrow> sub_done (subs c r) = sub_done (subs b r)"
    using ev by (simp add: evolve_def)
  have out: "sub_done (subs c r)" if "\<not> booked c r" "\<not> joined c r" "booked b r \<or> joined b r"
    using ok ev that by (auto simp: call_ok_def evolve_def)
  show ?thesis
  proof (cases "booked b r")
    case False
    with ev have same: "\<not> booked c r" "replies c r = replies b r" by (simp_all add: evolve_def)
    show ?thesis
    proof (cases "joined b r")
      case False
      then have "subs c r = subs b r" "\<not> joined c r"
        using ev \<open>\<not> booked b r\<close> jn by (auto simp: evolve_def)
      then show ?thesis using ok same False \<open>\<not> booked b r\<close> unfolding call_ok_def f by simp
    next
      case True
      note j = True
      show ?thesis
      proof (cases "joined c r")
        case True
        then have "sub_done (subs c r) = sub_done (subs b r)" using dn by simp
        then show ?thesis using ok wf same True j \<open>\<not> booked b r\<close> unfolding call_ok_def f by simp
      next
        case False
        then have "sub_done (subs c r)" using out same j by simp
        moreover have "calls b r \<noteq> CSend" using ok j by (auto simp: call_ok_def)
        ultimately show ?thesis
          using ok wf same False j \<open>\<not> booked b r\<close> unfolding call_ok_def f by (simp, blast)
      qed
    qed
  next
    case True
    note b = True
    have r0: "replies b r = []" "calls b r = CWait \<or> (\<exists>res. calls b r = CReturned res)"
      using ok b by (auto simp: call_ok_def)
    show ?thesis
    proof (cases "booked c r")
      case True
      with ev have "replies c r = []" by (simp add: evolve_def r0)
      with ok wf dn b True show ?thesis
        unfolding call_ok_def f by (cases "calls b r") auto
    next
      case False
      with ev b r0 obtain x where x: "replies c r = [x]"
        "res_err x = None \<longrightarrow> res_subscriber x = Some r" "res_err x \<noteq> None \<longrightarrow> \<not> joined c r"
        by (auto simp: evolve_def)
      have jw: "joined c r \<Longrightarrow> sub_done (subs c r) \<Longrightarrow> r \<in> set (cancels b)"
        using ok dn b by (auto simp: call_ok_def)
      have bn: "calls b r = CNone \<longleftrightarrow> nextRef b \<le> r"
        "r \<in> set (cancels b) \<Longrightarrow> \<exists>res. calls b r = CReturned res \<and> res_err res \<noteq> None"
        using ok by (auto simp: call_ok_def)
      from r0(2) show ?thesis
      proof
        assume w: "calls b r = CWait"
        moreover have "jr_subscriber (reqs b r) = r \<and> jr_reply (reqs b r) = r"
          using ok w by (simp add: call_ok_def)
        ultimately show ?thesis
          using wf False x jw bn out b unfolding call_ok_def f by (simp, blast)
      next
        assume "\<exists>res. calls b r = CReturned res"
        then obtain res where res: "calls b r = CReturned res" by blast
        moreover have "res_err res \<noteq> None" "r \<in> set (cancels b)"
          using ok b res by (auto simp: call_ok_def)
        ultimately show ?thesis
          using wf False x(1) bn(1) out b unfolding call_ok_def f by auto
      qed
    qed
  qed
qed

lemma refs_ok_evolves:
  assumes "refs_ok b" and "evolves b c"
  shows "refs_ok c"
proof -
  have fr: "frame c = frame b" and ev: "maps_ok c" "\<And>r. evolve b c r"
    using assms by (auto simp: refs_ok_def evolves_def)
  have "call_ok c r" for r
    using assms(1) ev(2) fr by (auto simp: refs_ok_def intro: call_ok_evolve)
  with ev(1) assms(1) show ?thesis by (simp add: refs_ok_def frameD(8) [OF fr])
qed

text \<open>Only these fields matter.\<close>

lemma call_ok_cong:
  assumes "pending c = pending b" "active c = active b" "subs c r = subs b r"
    "replies c r = replies b r" "calls c r = calls b r" "cancels c = cancels b"
    "nextRef c = nextRef b" "reqs c r = reqs b r"
  shows "call_ok c r = call_ok b r"
  using assms by (simp add: call_ok_def booked_def joined_def)

lemma maps_ok_cong:
  assumes "pending c = pending b" "active c = active b" "reqs c = reqs b"
  shows "maps_ok c = maps_ok b"
  using assms by (simp add: maps_ok_def request_ok_def)

lemma refs_ok_cong:
  assumes "pending c = pending b" "active c = active b" "subs c = subs b"
    "replies c = replies b" "calls c = calls b" "cancels c = cancels b"
    "nextRef c = nextRef b" "reqs c = reqs b"
  shows "refs_ok c = refs_ok b"
proof -
  have "maps_ok c = maps_ok b" by (rule maps_ok_cong) (simp_all add: assms)
  moreover have "call_ok c r = call_ok b r" for r by (rule call_ok_cong) (simp_all add: assms)
  ultimately show ?thesis by (simp add: refs_ok_def assms(6))
qed

lemma refs_ok_fields [simp]:
  "refs_ok (b\<lparr>dispatcher := d\<rparr>) = refs_ok b" "refs_ok (b\<lparr>closeOnce := x\<rparr>) = refs_ok b"
  "refs_ok (b\<lparr>messageCh := q\<rparr>) = refs_ok b" "refs_ok (b\<lparr>workers := ws\<rparr>) = refs_ok b"
  "refs_ok (b\<lparr>ctxs := cs\<rparr>) = refs_ok b"
  by (rule refs_ok_cong; simp)+

lemma refs_ok_set_pc [simp]: "refs_ok (set_pc w pc b) = refs_ok b"
  by (simp add: set_pc_def)

lemma refs_ok_handleControl:
  assumes "refs_ok b" and "\<forall>q. ev \<noteq> JoinReq q"
  shows "refs_ok (handleControl ev b)"
  using refs_ok_evolves [OF assms(1) evolves_dispatch [OF assms(2)]]
  by (simp add: handleControl_def Let_def)

text \<open>An untouched reference keeps its agreement when only other references change.\<close>

lemma call_ok_other:
  assumes "call_ok b r" "booked c r = booked b r" "joined c r = joined b r" "subs c r = subs b r"
    "replies c r = replies b r" "calls c r = calls b r" "reqs c r = reqs b r"
    "r \<in> set (cancels c) \<longleftrightarrow> r \<in> set (cancels b)" "nextRef c \<le> r \<longleftrightarrow> nextRef b \<le> r"
  shows "call_ok c r"
  using assms by (simp add: call_ok_def)

lemma refs_okI:
  assumes "maps_ok c" "distinct (cancels c)" "\<And>r'. r' \<noteq> r \<Longrightarrow> call_ok c r'" "call_ok c r"
  shows "refs_ok c"
  using assms unfolding refs_ok_def by metis

section \<open>The handling of a join\<close>

text \<open>A caller that is about to send is unknown to the dispatcher.\<close>

lemma call_ok_CSend:
  assumes "call_ok b r" "calls b r = CSend"
  shows "\<not> booked b r" "\<not> joined b r" "replies b r = []" "\<not> sub_done (subs b r)"
    "jr_subscriber (reqs b r) = r" "jr_reply (reqs b r) = r" "r \<notin> set (cancels b)" "r < nextRef b"
    "sub_wf (subs b r)"
  using assms by (auto simp: call_ok_def)

lemma refs_ok_join_error:
  assumes "refs_ok b" "calls b r = CSend" "err \<noteq> None"
  shows "refs_ok (send_reply r \<lparr>res_subscriber = None, res_err = err\<rparr>
           (sub_stop r err (set_call r CWait b)))"
    (is "refs_ok ?c")
proof (rule refs_okI [where r = r])
  have ok: "call_ok b r'" for r' using assms(1) by (simp add: refs_ok_def)
  note s = call_ok_CSend [OF ok assms(2)]
  have bj: "booked ?c r' = booked b r'" "joined ?c r' = joined b r'" for r'
    by (simp_all add: booked_def joined_def store_defs caller_defs)
  have "maps_ok ?c = maps_ok b"
    by (rule maps_ok_cong) (simp_all add: store_defs caller_defs)
  then show "maps_ok ?c" using assms(1) by (simp add: refs_ok_def)
  show "distinct (cancels ?c)"
    using assms(1) by (simp add: refs_ok_def store_defs caller_defs)
  show "call_ok ?c r'" if "r' \<noteq> r" for r'
    using ok [of r'] that by (rule_tac call_ok_other [of b]) (simp_all add: bj, simp_all add: store_defs caller_defs)
  show "call_ok ?c r"
    using s assms(3) by (simp add: call_ok_def bj) (simp add: store_defs caller_defs stop_done)
qed

lemma refs_ok_join_pending:
  assumes "refs_ok b" "calls b r = CSend" "active b = []"
    and "map_of (pending b) (jr_subscriberID (reqs b r)) = None"
  shows "refs_ok ((set_call r CWait b)\<lparr>pending :=
           AList.update (jr_subscriberID (reqs b r)) (reqs b r) (pending b)\<rparr>)"
    (is "refs_ok ?c")
proof (rule refs_okI [where r = r])
  have ok: "call_ok b r'" for r' using assms(1) by (simp add: refs_ok_def)
  note s = call_ok_CSend [OF ok assms(2)]
  have p: "pending ?c = pending b @ [(jr_subscriberID (reqs b r), reqs b r)]"
    using assms(4) by (simp add: update_new)
  have bj: "booked ?c r' \<longleftrightarrow> booked b r' \<or> r' = r" "joined ?c r' = joined b r'" for r'
    using s(5) by (auto simp: booked_def p) (simp_all add: joined_def caller_defs)
  have req: "request_ok ?c q \<longleftrightarrow> request_ok b q" for q
    by (simp add: request_ok_def caller_defs)
  show "maps_ok ?c"
    using assms s(5,6) unfolding maps_ok_def p req
    by (auto simp: refs_ok_def maps_ok_def map_of_eq_None_iff request_ok_def caller_defs)
  show "distinct (cancels ?c)"
    using assms(1) by (simp add: refs_ok_def caller_defs)
  show "call_ok ?c r'" if "r' \<noteq> r" for r'
    using ok [of r'] that by (rule_tac call_ok_other [of b]) (simp_all add: bj, simp_all add: caller_defs)
  show "call_ok ?c r"
    using s by (simp add: call_ok_def bj) (simp add: caller_defs)
qed

lemma refs_ok_join_active:
  assumes "refs_ok b" "calls b r = CSend" "pending b = []"
    and "map_of (active b) (jr_subscriberID (reqs b r)) = None"
  shows "refs_ok (send_reply r \<lparr>res_subscriber = Some r, res_err = None\<rparr>
           ((set_call r CWait b)\<lparr>active := AList.update (jr_subscriberID (reqs b r)) r (active b)\<rparr>))"
    (is "refs_ok ?c")
proof (rule refs_okI [where r = r])
  have ok: "call_ok b r'" for r' using assms(1) by (simp add: refs_ok_def)
  note s = call_ok_CSend [OF ok assms(2)]
  have p: "active ?c = active b @ [(jr_subscriberID (reqs b r), r)]"
    using assms(4) by (simp add: update_new store_defs)
  have bj: "booked ?c r' = booked b r'" "joined ?c r' \<longleftrightarrow> joined b r' \<or> r' = r" for r'
    by (auto simp: joined_def p) (simp_all add: booked_def caller_defs store_defs)
  have frame: "pending ?c = []" "reqs ?c = reqs b" "cancels ?c = cancels b"
    using assms(3) by (simp_all add: caller_defs store_defs)
  show "maps_ok ?c"
    using assms unfolding maps_ok_def p frame
    by (auto simp: refs_ok_def maps_ok_def map_of_eq_None_iff)
  show "distinct (cancels ?c)"
    using assms(1) by (simp add: refs_ok_def frame)
  show "call_ok ?c r'" if "r' \<noteq> r" for r'
    using ok [of r'] that by (rule_tac call_ok_other [of b]) (simp_all add: bj, simp_all add: caller_defs store_defs)
  show "call_ok ?c r"
    using s by (simp add: call_ok_def bj) (simp add: caller_defs store_defs)
qed

lemma refs_ok_handleJoin:
  assumes inv: "refs_ok b" "core b" and call: "calls b r = CSend"
  shows "refs_ok (handleJoin (reqs b r) (set_call r CWait b))"
proof -
  let ?c = "set_call r CWait b" and ?q = "reqs b r"
  have ok: "call_ok b r" using inv(1) by (simp add: refs_ok_def)
  note s = call_ok_CSend [OF ok call]
  have c: "state ?c = state b" "active ?c = active b" "pending ?c = pending b"
    "ctx_err ?c = ctx_err b"
    by (simp_all add: caller_defs ctx_err_def fun_eq_iff split: option.split)
  note err = refs_ok_join_error [OF inv(1) call]
  note sh = coreD(1) [OF inv(2)]
  show ?thesis
  proof (cases "ctx_err b (jr_ctx ?q) \<noteq> None \<or> state b = subscriptionClosing \<or>
      map_of (active b) (jr_subscriberID ?q) \<noteq> None \<or> map_of (pending b) (jr_subscriberID ?q) \<noteq> None")
    case True
    then show ?thesis
      using s by (auto simp: handleJoin_def rejectDuplicate_def Let_def c intro: err)
  next
    case False
    have pend: "refs_ok (?c\<lparr>pending := AList.update (jr_subscriberID ?q) ?q (pending b)\<rparr>)"
      if "active b = []"
      using refs_ok_join_pending [OF inv(1) call that] False by simp
    have act: "refs_ok (send_reply r \<lparr>res_subscriber = Some r, res_err = None\<rparr>
        (?c\<lparr>active := AList.update (jr_subscriberID ?q) r (active b)\<rparr>))" if "pending b = []"
      using refs_ok_join_active [OF inv(1) call that] False by simp
    show ?thesis
      using False pend act sh s
      by (cases "state b") (auto simp: handleJoin_def c shape_def
          intro: refs_ok_evolves [OF _ evolves_blocks(1)])
  qed
qed

section \<open>Control events and the life cycle\<close>

lemma ctxDone_blocks [simp]:
  "boxCtxDone (startGeneration b) = boxCtxDone b" "boxCtxDone (beginStopping b) = boxCtxDone b"
  "boxCtxDone (restartOrIdle b) = boxCtxDone b" "boxCtxDone (sub_stop r e b) = boxCtxDone b"
  "boxCtxDone (send_reply r res b) = boxCtxDone b" "boxCtxDone (send_ack r b) = boxCtxDone b"
  "boxCtxDone (send_activation w a b) = boxCtxDone b"
  "boxCtxDone (fail_request e p b) = boxCtxDone b"
  "boxCtxDone (stop_subscriber e q b) = boxCtxDone b"
  "boxCtxDone (failPending e b) = boxCtxDone b" "boxCtxDone (stopActive e b) = boxCtxDone b"
  "boxCtxDone (dropExpired b) = boxCtxDone b" "boxCtxDone (admitPending b) = boxCtxDone b"
  "boxCtxDone (rejectDuplicate x b) = boxCtxDone b" "boxCtxDone (set_pc v pc b) = boxCtxDone b"
  by (simp_all add: startGeneration_def startWorker_def beginStopping_def restartOrIdle_def Let_def
      store_defs fail_request_eq stop_subscriber_eq failPending_eq stopActive_eq dropExpired_def
      fold_drop_expired admitPending_eq rejectDuplicate_def set_pc_def split: option.split)

lemma ctxDone_fan_out [simp]: "boxCtxDone (fold (fan_out c) ps b) = boxCtxDone b"
  by (induction ps arbitrary: b) (simp_all add: fan_out_eq)

lemma ctxDone_dispatch: "ev \<noteq> CloseReq \<Longrightarrow> boxCtxDone (dispatch ev b) = boxCtxDone b"
  by (cases ev)
    (simp_all add: handler_defs Let_def split: option.split subscriptionState.split)

lemma ctxDone_handleMessage [simp]: "boxCtxDone (handleMessage m b) = boxCtxDone b"
  by (simp add: handleMessage_def Let_def)

lemma workerCancel_handleMessage [simp]: "workerCancel (handleMessage m b) = workerCancel b"
proof -
  have "workerCancel (fold (fan_out c) ps b) = workerCancel b" for c ps and b :: Box
    by (induction ps arbitrary: b) (simp_all add: fan_out_eq)
  then show ?thesis
    by (simp add: handleMessage_def Let_def beginStopping_def cancel_worker_def split: option.split)
qed

lemma life_loop:
  assumes "life b" and "dispatcher b = DLoop"
  shows "core b" "\<not> boxDone b" "topicCloses b = 0" "closeOnce b \<longleftrightarrow> boxCtxDone b"
    "\<not> (boxCtxDone b \<and> workerCancel b = None)"
  using assms by (auto simp: life_def link_def core_def)

lemma life_handleControl:
  assumes "life b" "dispatcher b = DLoop" "core (dispatch ev c)"
    and "dispatcher c = DLoop" "boxDone c = boxDone b" "topicCloses c = topicCloses b"
    and "if ev = CloseReq then closeOnce c \<and> state (dispatch ev c) = subscriptionClosing
         else closeOnce c = closeOnce b \<and> boxCtxDone c = boxCtxDone b"
  shows "life (handleControl ev c)"
proof -
  note l = life_loop [OF assms(1,2)] and f = frameD [OF frame_dispatch [of ev c]]
  have closing: "state (dispatch ev c) = subscriptionClosing \<longleftrightarrow> closeOnce c"
  proof (cases "ev = CloseReq")
    case True
    with assms(7) show ?thesis by simp
  next
    case False
    with assms(7) l(4) coreD(3) [OF assms(3)] show ?thesis by (simp add: ctxDone_dispatch)
  qed
  have "life (dispatch ev c)"
    if "state (dispatch ev c) \<noteq> subscriptionClosing \<or> workerCancel (dispatch ev c) \<noteq> None"
    using that assms l closing by (auto simp: life_def link_def f)
  moreover have "life ((dispatch ev c)\<lparr>dispatcher := DWait\<rparr>)"
    if "\<not> (state (dispatch ev c) \<noteq> subscriptionClosing \<or> workerCancel (dispatch ev c) \<noteq> None)"
    using that assms l closing by (auto simp: life_def link_def f)
  ultimately show ?thesis by (simp add: handleControl_def Let_def)
qed

lemma core_dispatch_caller:
  assumes "core b"
  shows "core (dispatch (JoinReq q) b)" "core (dispatch (CancelJoinReq i s) b)"
    "core (dispatch (LeaveReq i r) b)" "core (dispatch (StopReq r) b)" "core (dispatch CloseReq b)"
  using assms
  by (simp_all add: core_handleJoin core_handleCancelJoin core_handleLeave core_handleStop
      core_handleClose)

lemma life_event:
  assumes "life b" "dispatcher b = DLoop" "core (dispatch ev c)" "ev \<noteq> CloseReq"
    and "frame c = frame b" "boxCtxDone c = boxCtxDone b"
  shows "life (handleControl ev c)"
proof -
  note f = frameD [OF assms(5)]
  show ?thesis
    by (rule life_handleControl [OF assms(1-3)]) (use assms f in simp_all)
qed

lemma life_cong:
  assumes "core c = core b" "state c = state b" "workerCancel c = workerCancel b"
    "workers c = workers b" "dispatcher c = dispatcher b" "boxDone c = boxDone b"
    "topicCloses c = topicCloses b" "closeOnce c = closeOnce b"
  shows "life c = life b"
  using assms by (simp add: life_def link_def)

lemma life_fields [simp]:
  "life (b\<lparr>subs := x\<rparr>) = life b" "life (b\<lparr>replies := y\<rparr>) = life b"
  "life (b\<lparr>acks := z\<rparr>) = life b" "life (b\<lparr>ctxs := u\<rparr>) = life b" "life (b\<lparr>calls := v\<rparr>) = life b"
  "life (b\<lparr>reqs := r\<rparr>) = life b" "life (b\<lparr>nextRef := n\<rparr>) = life b"
  "life (b\<lparr>cancels := c\<rparr>) = life b" "life (b\<lparr>messageCh := q\<rparr>) = life b"
  by (rule life_cong; simp)+

section \<open>Callers keep the invariant\<close>

lemma booked_mem: "p \<in> set (pending b) \<Longrightarrow> booked b (jr_subscriber (snd p))"
  by (simp add: booked_def sub_refs_def)

lemma joined_mem: "p \<in> set (active b) \<Longrightarrow> joined b (snd p)"
  by (simp add: joined_def)

lemma call_ok_basic:
  assumes "call_ok b r"
  shows "sub_wf (subs b r)" "length (replies b r) \<le> 1" "booked b r \<Longrightarrow> replies b r = []"
    "calls b r = CNone \<longleftrightarrow> nextRef b \<le> r"
  using assms by (simp_all add: call_ok_def)

lemma closed_maps:
  assumes "life b" and "boxCtxDone b \<or> boxDone b"
  shows "\<not> booked b r" "\<not> joined b r"
  using assms by (auto simp: life_def link_def core_def shape_def booked_def joined_def)

lemma call_ok_cancels:
  assumes "call_ok b r" "r \<in> set (cancels b)"
  obtains res where "calls b r = CReturned res" "res_err res \<noteq> None"
  using assms unfolding call_ok_def by blast

lemma call_ok_waiting:
  assumes "call_ok b r" "calls b r = CSend \<or> calls b r = CWait"
  shows "r \<notin> set (cancels b)" "calls b r \<noteq> CNone"
  using assms(2) call_ok_cancels [OF assms(1)] by (metis callPC.distinct)+

text \<open>A step of one caller that leaves the maps and every other caller alone.\<close>

lemma refs_ok_caller:
  assumes "refs_ok b" "pending c = pending b" "active c = active b" "nextRef c = nextRef b"
    and "reqs c = reqs b" "distinct (cancels c)" "call_ok c r"
    and "\<And>r'. r' \<noteq> r \<Longrightarrow> subs c r' = subs b r' \<and> replies c r' = replies b r' \<and>
           calls c r' = calls b r' \<and> (r' \<in> set (cancels c) \<longleftrightarrow> r' \<in> set (cancels b))"
  shows "refs_ok c"
proof (rule refs_okI [where r = r])
  have "maps_ok c = maps_ok b" by (rule maps_ok_cong) (simp_all add: assms(2,3,5))
  then show "maps_ok c" using assms(1) by (simp add: refs_ok_def)
  show "call_ok c r'" if "r' \<noteq> r" for r'
  proof (rule call_ok_other [of b])
    show "call_ok b r'" using assms(1) by (simp add: refs_ok_def)
  qed (use assms(2-5) assms(8) [OF that] in \<open>simp_all add: booked_def joined_def\<close>)
qed (fact assms)+

lemma refs_ok_leave_error:
  assumes "refs_ok b" "calls b r = CSend \<or> calls b r = CWait" "\<not> booked b r" "\<not> joined b r"
  shows "refs_ok (set_call r (join_error e) (sub_stop r (Some e) b))" (is "refs_ok ?c")
proof (rule refs_ok_caller [OF assms(1), where r = r])
  have ok: "call_ok b r" using assms(1) by (simp add: refs_ok_def)
  have bj: "booked ?c r = booked b r" "joined ?c r = joined b r"
    by (simp_all add: booked_def joined_def caller_defs store_defs)
  have nc: "r \<notin> set (cancels b)" "calls b r \<noteq> CNone"
    using call_ok_waiting [OF ok] assms(2) by simp_all
  have c: "calls ?c r = CReturned \<lparr>res_subscriber = None, res_err = Some e\<rparr>"
    "cancels ?c = cancels b" "subs ?c r = stop (Some e) (subs b r)" "replies ?c r = replies b r"
    "nextRef ?c = nextRef b"
    by (simp_all add: caller_defs store_defs)
  show "call_ok ?c r"
    unfolding call_ok_def bj c using call_ok_basic [OF ok] nc assms(3,4) by simp
  show "distinct (cancels ?c)" using assms(1) by (simp add: refs_ok_def caller_defs store_defs)
qed (simp_all add: caller_defs store_defs)

lemma refs_ok_abandon:
  assumes "refs_ok b" "calls b r = CWait"
  shows "refs_ok (spawn_cancel r (join_ctx r e b))" (is "refs_ok ?c")
proof (rule refs_ok_caller [OF assms(1), where r = r])
  have ok: "call_ok b r" using assms(1) by (simp add: refs_ok_def)
  have bj: "booked ?c r = booked b r" "joined ?c r = joined b r"
    by (simp_all add: booked_def joined_def caller_defs store_defs)
  have nc: "r \<notin> set (cancels b)" "calls b r \<noteq> CNone"
    using call_ok_waiting [OF ok] assms(2) by simp_all
  have c: "calls ?c r = CReturned \<lparr>res_subscriber = None, res_err = Some e\<rparr>"
    "r \<in> set (cancels ?c)" "subs ?c r = stop (Some e) (subs b r)" "replies ?c r = replies b r"
    "nextRef ?c = nextRef b"
    by (simp_all add: caller_defs store_defs)
  show "call_ok ?c r"
    unfolding call_ok_def bj c using call_ok_basic [OF ok] nc c(2) by simp
  show "distinct (cancels ?c)"
    using assms(1) nc by (simp add: refs_ok_def caller_defs store_defs)
qed (simp_all add: caller_defs store_defs)

lemma refs_ok_join_result:
  assumes "refs_ok b" "calls b r = CWait" "replies b r \<noteq> []"
  shows "refs_ok (join_result r b)" (is "refs_ok ?c")
proof -
  have ok: "call_ok b r" using assms(1) by (simp add: refs_ok_def)
  have nb: "\<not> booked b r" using ok assms(3) by (auto simp: call_ok_def)
  with ok assms(2) obtain x where x: "replies b r = [x]"
    "res_err x = None \<longrightarrow> res_subscriber x = Some r" "res_err x \<noteq> None \<longrightarrow> \<not> joined b r"
    by (auto simp: call_ok_def)
  have nc: "r \<notin> set (cancels b)" "calls b r \<noteq> CNone"
    using call_ok_waiting [OF ok] assms(2) by simp_all
  have d: "distinct (cancels b)" using assms(1) by (simp add: refs_ok_def)
  have bj: "booked ?c r = booked b r" "joined ?c r = joined b r"
    by (simp_all add: booked_def joined_def caller_defs x(1) Let_def split: option.split)
  show ?thesis
  proof (rule refs_ok_caller [OF assms(1), where r = r])
    have "\<not> joined b r \<Longrightarrow> sub_done (subs b r)" using ok assms(2) nb by (auto simp: call_ok_def)
    then show "call_ok ?c r"
      using ok nc nb x(2,3)
      by (simp add: call_ok_def bj) (simp add: caller_defs x(1) Let_def split: option.split)
    show "distinct (cancels ?c)"
      using d nc by (simp add: caller_defs x(1) Let_def split: option.split)
  qed (simp_all add: caller_defs x(1) Let_def split: option.split)
qed

lemma refs_ok_enter:
  assumes "refs_ok b"
  shows "refs_ok (join_enter ext i ctx b)" (is "refs_ok ?c")
proof (rule refs_okI [where r = "nextRef b"])
  let ?r = "nextRef b"
  have ok: "call_ok b r" for r using assms by (simp add: refs_ok_def)
  have cn: "calls b ?r = CNone" using ok [of ?r] by (auto simp: call_ok_def)
  have fresh: "\<not> booked b ?r" "\<not> joined b ?r" "?r \<notin> set (cancels b)" "replies b ?r = []"
    "sub_wf (subs b ?r)"
    using ok [of ?r] cn by (auto simp: call_ok_def)
  have bj: "booked ?c r = booked b r" "joined ?c r = joined b r" for r
    by (simp_all add: booked_def joined_def caller_defs Let_def split: option.split)
  have frame: "pending ?c = pending b" "active ?c = active b" "cancels ?c = cancels b"
    "nextRef ?c = Suc ?r" "\<And>r. r \<noteq> ?r \<Longrightarrow> reqs ?c r = reqs b r"
    by (simp_all add: caller_defs Let_def split: option.split)
  have pend: "jr_subscriber (snd p) \<noteq> ?r" if "p \<in> set (pending b)" for p
    using fresh(1) booked_mem [OF that] by metis
  have act: "snd p \<noteq> ?r" if "p \<in> set (active b)" for p
    using fresh(2) joined_mem [OF that] by metis
  show "maps_ok ?c"
    using assms pend act by (auto simp: refs_ok_def maps_ok_def request_ok_def frame)
  show "distinct (cancels ?c)" using assms by (simp add: refs_ok_def frame)
  show "call_ok ?c r'" if "r' \<noteq> ?r" for r'
  proof (rule call_ok_other [of b])
    show "call_ok b r'" by (rule ok)
    show "nextRef ?c \<le> r' \<longleftrightarrow> ?r \<le> r'" using that by (auto simp: frame)
  qed (use that in \<open>simp_all add: bj frame, simp_all add: caller_defs Let_def split: option.split\<close>)
  show "call_ok ?c ?r"
    using fresh by (simp add: call_ok_def bj frame)
      (simp add: caller_defs Let_def newSubscriber_def sub_wf_def split: option.split)
qed

section \<open>The cancelling goroutine\<close>

lemma booked_request:
  assumes "maps_ok b" and "booked b r"
  shows "map_of (pending b) (jr_subscriberID (reqs b r)) = Some (reqs b r)"
    and "jr_subscriber (reqs b r) = r"
proof -
  from assms(2) obtain p where p: "p \<in> set (pending b)" "jr_subscriber (snd p) = r"
    by (auto simp: booked_def sub_refs_def)
  with assms(1) have q: "request_ok b p" by (simp add: maps_ok_def)
  with p show "jr_subscriber (reqs b r) = r" by (simp add: request_ok_def)
  from p q have "(jr_subscriberID (reqs b r), reqs b r) \<in> set (pending b)"
    by (metis request_ok_def prod.collapse)
  then show "map_of (pending b) (jr_subscriberID (reqs b r)) = Some (reqs b r)"
    using assms(1) by (simp add: maps_ok_def)
qed

lemma joined_request:
  assumes "maps_ok b" and "joined b r"
  shows "map_of (active b) (jr_subscriberID (reqs b r)) = Some r"
proof -
  from assms(2) obtain p where p: "p \<in> set (active b)" "snd p = r"
    by (auto simp: joined_def)
  with assms(1) have "fst p = jr_subscriberID (reqs b r)" by (simp add: maps_ok_def)
  with p have "(jr_subscriberID (reqs b r), r) \<in> set (active b)" by (metis prod.collapse)
  then show ?thesis using assms(1) by (simp add: maps_ok_def)
qed

lemma beginStopping_maps [simp]:
  "pending (beginStopping b) = pending b" "active (beginStopping b) = active b"
  by (simp_all add: beginStopping_def Let_def cancel_worker_def split: option.split)

lemma beginStopping_booked [simp]:
  "booked (beginStopping b) r = booked b r" "joined (beginStopping b) r = joined b r"
  by (simp_all add: booked_def joined_def)

lemma cancelPending_gone:
  assumes "maps_ok b"
  shows "\<not> booked (cancelPending (jr_subscriberID (reqs b r)) r b) r"
proof (cases "booked b r")
  case False
  moreover have "booked (cancelPending i r b) r \<Longrightarrow> booked b r" for i
    using evolves_cancelPending assms by (auto simp: evolves_def evolve_def)
  ultimately show ?thesis by blast
next
  case True
  let ?p = "(jr_subscriberID (reqs b r), reqs b r)"
  note q = booked_request [OF assms True]
  have "?p \<in> set (pending b)" using q(1) by (rule map_of_SomeD)
  then have "\<not> booked (fail_request (Some CtxCanceled) ?p b) r"
    using booked_delete [OF assms, of ?p r] q(2) by (simp add: booked_def fail_request_eq)
  then show ?thesis by (simp add: cancelPending_def Let_def q)
qed

lemma cancelActive_gone:
  assumes "maps_ok b"
  shows "\<not> joined (cancelActive (jr_subscriberID (reqs b r)) r b) r"
proof (cases "joined b r")
  case False
  then have "active (cancelActive i r b) = active b \<or> \<not> joined (cancelActive i r b) r" for i
    by (auto simp: cancelActive_def Let_def stop_subscriber_eq joined_def set_delete
        split: option.splits)
  with False show ?thesis by (metis joined_def)
next
  case True
  let ?p = "(jr_subscriberID (reqs b r), r)"
  note q = joined_request [OF assms True]
  have "?p \<in> set (active b)" using q by (rule map_of_SomeD)
  then have "\<not> joined (stop_subscriber (Some CtxCanceled) ?p b) r"
    using joined_delete [OF assms, of ?p r] by (simp add: joined_def stop_subscriber_eq)
  then show ?thesis by (simp add: cancelActive_def Let_def q)
qed

lemma handleCancelJoin_gone:
  assumes "maps_ok b"
  shows "\<not> booked (handleCancelJoin (jr_subscriberID (reqs b r)) r b) r"
    and "\<not> joined (handleCancelJoin (jr_subscriberID (reqs b r)) r b) r"
proof -
  let ?c = "cancelPending (jr_subscriberID (reqs b r)) r b"
  have c: "maps_ok ?c" "reqs ?c = reqs b"
    using evolves_cancelPending [of b "jr_subscriberID (reqs b r)" r] assms
    by (auto simp: evolves_def frame_def)
  have "evolves ?c (cancelActive (jr_subscriberID (reqs b r)) r ?c)"
    by (rule evolves_cancelActive)
  then show "\<not> booked (handleCancelJoin (jr_subscriberID (reqs b r)) r b) r"
    using c(1) cancelPending_gone [OF assms]
    by (auto simp: handleCancelJoin_def evolves_def evolve_def)
  show "\<not> joined (handleCancelJoin (jr_subscriberID (reqs b r)) r b) r"
    using cancelActive_gone [OF c(1)] by (simp add: handleCancelJoin_def c(2))
qed

lemma refs_ok_uncancel:
  assumes "refs_ok b" "r \<in> set (cancels b)" "\<not> booked b r" "\<not> joined b r"
  shows "refs_ok (b\<lparr>cancels := remove1 r (cancels b)\<rparr>)" (is "refs_ok ?c")
proof (rule refs_ok_caller [OF assms(1), where r = r])
  have ok: "call_ok b r" using assms(1) by (simp add: refs_ok_def)
  have d: "distinct (cancels b)" using assms(1) by (simp add: refs_ok_def)
  have bj: "booked ?c r = booked b r" "joined ?c r = joined b r"
    by (simp_all add: booked_def joined_def)
  obtain res where res: "calls b r = CReturned res" "res_err res \<noteq> None"
    using call_ok_cancels [OF ok assms(2)] by blast
  then show "call_ok ?c r"
    unfolding call_ok_def bj using call_ok_basic [OF ok] assms(3,4) d by auto
  show "distinct (cancels ?c)" using d by simp
qed (use assms in simp_all)

lemma refs_ok_deliver_cancel:
  assumes "refs_ok b" "r \<in> set (cancels b)"
  shows "refs_ok (deliver_cancel r b)"
proof -
  let ?ev = "CancelJoinReq (jr_subscriberID (reqs b r)) r"
  have m: "maps_ok b" using assms(1) by (simp add: refs_ok_def)
  let ?c = "handleControl ?ev b"
  have "refs_ok ?c" using assms(1) by (rule refs_ok_handleControl) simp
  moreover have "\<not> booked ?c r" "\<not> joined ?c r"
    using handleCancelJoin_gone [OF m, of r]
    by (auto simp: handleControl_def Let_def booked_def joined_def)
  moreover have "cancels ?c = cancels b"
    using frameD(8) [OF frame_dispatch [of ?ev b]] by (auto simp: handleControl_def Let_def)
  ultimately have "refs_ok (?c\<lparr>cancels := remove1 r (cancels ?c)\<rparr>)"
    using assms(2) by (intro refs_ok_uncancel) simp_all
  then show ?thesis by (simp add: deliver_cancel_def Let_def)
qed

section \<open>Every step keeps the invariant\<close>

lemma core_call [simp]: "core (set_call r pc b) = core b"
  by (simp add: set_call_def)

lemma frame_set_pc [simp]: "frame (set_pc w pc b) = frame b"
  by (simp add: set_pc_def)

lemma box_inv_call:
  assumes "call_step ext b c" and "box_inv b"
  shows "box_inv c"
proof -
  have life: "life b" and refs: "refs_ok b" using assms(2) by (simp_all add: box_inv_def)
  have core: "core b" using life by (simp add: life_def)
  have event: "life (handleControl ev b)" if "dispatcher b = DLoop" "core (dispatch ev b)" "ev \<noteq> CloseReq" for ev
    using life_event [OF life that(1,2,3)] by simp
  from assms(1) show ?thesis
  proof cases
    case (enter i ctx)
    have "life (join_enter ext i ctx b)"
      using life by (simp add: join_enter_def set_call_def Let_def split: option.split)
    with refs enter show ?thesis by (simp add: box_inv_def refs_ok_enter)
  next
    case (send r)
    have fr: "dispatcher (set_call r CWait b) = DLoop" "boxDone (set_call r CWait b) = boxDone b"
      "topicCloses (set_call r CWait b) = topicCloses b" "closeOnce (set_call r CWait b) = closeOnce b"
      "boxCtxDone (set_call r CWait b) = boxCtxDone b"
      using send(3) by (simp_all add: set_call_def)
    have "core (dispatch (JoinReq (reqs b r)) (set_call r CWait b))"
      using core by (intro core_dispatch_caller) simp
    then have "life (join_send r b)"
      unfolding join_send_def by (intro life_handleControl [OF life send(3)]) (use fr in simp_all)
    moreover have "refs_ok (join_send r b)"
      using refs_ok_handleJoin [OF refs core send(2)]
      by (simp add: join_send_def handleControl_def Let_def)
    ultimately show ?thesis using send(1) by (simp add: box_inv_def)
  next
    case (send_ctx r e)
    have ok: "call_ok b r" using refs by (simp add: refs_ok_def)
    note cs = call_ok_CSend [OF ok send_ctx(2)]
    have "refs_ok (join_ctx r e b)"
      unfolding join_ctx_def using refs send_ctx(2) cs by (intro refs_ok_leave_error) auto
    with life send_ctx(1) show ?thesis
      by (simp add: box_inv_def join_ctx_def set_call_def sub_stop_def)
  next
    case (send_closed r)
    have ok: "call_ok b r" using refs by (simp add: refs_ok_def)
    note cs = call_ok_CSend [OF ok send_closed(2)]
    have "refs_ok (join_closed r b)"
      unfolding join_closed_def using refs send_closed(2) cs by (intro refs_ok_leave_error) auto
    with life send_closed(1) show ?thesis
      by (simp add: box_inv_def join_closed_def set_call_def sub_stop_def)
  next
    case (wait_ctx r e)
    with refs refs_ok_abandon life show ?thesis
      by (simp add: box_inv_def) (simp add: spawn_cancel_def join_ctx_def set_call_def sub_stop_def)
  next
    case (wait_closed r)
    have "refs_ok (join_closed r b)"
      unfolding join_closed_def using refs wait_closed closed_maps [OF life]
      by (intro refs_ok_leave_error) auto
    with life wait_closed(1) show ?thesis
      by (simp add: box_inv_def join_closed_def set_call_def sub_stop_def)
  next
    case (wait_reply r)
    have "life (join_result r b)"
      using life by (simp add: join_result_def set_call_def spawn_cancel_def Let_def
          split: list.split option.split)
    with refs wait_reply show ?thesis by (simp add: box_inv_def refs_ok_join_result)
  next
    case (cancel_deliver r)
    have "life (deliver_cancel r b)"
      using event [OF cancel_deliver(3) core_dispatch_caller(2) [OF core]]
      by (simp add: deliver_cancel_def Let_def)
    with refs cancel_deliver show ?thesis by (simp add: box_inv_def refs_ok_deliver_cancel)
  next
    case (cancel_abandon r)
    have "refs_ok (b\<lparr>cancels := remove1 r (cancels b)\<rparr>)"
      using refs cancel_abandon closed_maps [OF life] by (intro refs_ok_uncancel) auto
    with life cancel_abandon(1) show ?thesis by (simp add: box_inv_def)
  next
    case (leave i ack)
    with event [OF leave(2) core_dispatch_caller(3) [OF core]] refs show ?thesis
      by (simp add: box_inv_def refs_ok_handleControl)
  next
    case (stop_sub ack)
    with event [OF stop_sub(2) core_dispatch_caller(4) [OF core]] refs show ?thesis
      by (simp add: box_inv_def refs_ok_handleControl)
  next
    case close
    let ?c = "b\<lparr>closeOnce := True\<rparr>"
    have d: "core (dispatch CloseReq ?c)" using core by (intro core_dispatch_caller) simp
    have st: "state (dispatch CloseReq ?c) = subscriptionClosing"
      by (simp add: handleClose_def Let_def failPending_eq stopActive_eq cancel_worker_def
          split: option.split)
    have "life (handleControl CloseReq ?c)"
      by (rule life_handleControl [OF life close(3) d]) (use st close in simp_all)
    with refs close(1) show ?thesis
      by (simp add: box_inv_def refs_ok_handleControl)
  qed
qed

lemma life_set_pc:
  assumes "life b" "w < length (workers b)" "\<not> finished (workers b ! w)"
    and "\<And>s. pc_ok s (workers b ! w) \<Longrightarrow> s \<noteq> subscriptionIdle \<Longrightarrow> pc_ok s y"
    and "w_generation y = w_generation (workers b ! w)" "w_ctxDone y = w_ctxDone (workers b ! w)"
  shows "life (b\<lparr>workers := (workers b)[w := y]\<rparr>)"
proof -
  have core: "core b" using assms(1) by (simp add: life_def)
  have "workerCancel b \<noteq> None"
    using live_index [OF core assms(2,3)] by blast
  with assms(1) have loop: "dispatcher b = DLoop" by (auto simp: life_def link_def)
  have "core (b\<lparr>workers := (workers b)[w := y]\<rparr>)"
    by (rule core_worker_local [OF core]) (use assms in auto)
  with assms(1) loop show ?thesis by (simp add: life_def link_def)
qed

lemma life_handleMessage:
  assumes "life b" "maps_ok b" "dispatcher b = DLoop"
  shows "life (handleMessage m b)"
proof -
  note l = life_loop [OF assms(1,3)] and f = frameD [OF frame_handleMessage [of m b]]
  have core: "core (handleMessage m b)"
    by (rule core_handleMessage [OF l(1) maps_ok_keys distinct_active_vals]) (fact assms(2))+
  have "state (handleMessage m b) = subscriptionClosing \<longleftrightarrow> boxCtxDone b"
    using coreD(3) [OF core] by simp
  with core l assms(3) show ?thesis by (auto simp: life_def link_def f)
qed

lemma box_inv_worker:
  assumes "worker_step U w b c" and "box_inv b" and w: "w < length (workers b)"
  shows "box_inv c"
proof -
  have life: "life b" and refs: "refs_ok b" using assms(2) by (simp_all add: box_inv_def)
  have core: "core b" using life by (simp add: life_def)
  have maps: "maps_ok b" using refs by (simp add: refs_ok_def)
  have local: "box_inv (set_pc w pc b)"
    if "\<not> finished (workers b ! w)"
      and "\<And>s. pc_ok s (workers b ! w) \<Longrightarrow> s \<noteq> subscriptionIdle \<Longrightarrow> pc_ok s ((workers b ! w)\<lparr>w_pc := pc\<rparr>)"
    for pc
    using life_set_pc [OF life w that(1) that(2)] refs by (simp add: box_inv_def) (simp add: set_pc_def)
  have event: "box_inv (handleControl ev (set_pc w pc b))"
    if "dispatcher b = DLoop" "core (dispatch ev (set_pc w pc b))" "ev \<noteq> CloseReq"
      "\<forall>q. ev \<noteq> JoinReq q" for ev pc
    using life_event [OF life that(1,2,3)] refs that(4)
    by (simp add: box_inv_def refs_ok_handleControl)
  from assms(1) show ?thesis
  proof cases
    case (subscribe err)
    then show ?thesis
      unfolding subscribe(1) by (intro local) (auto simp: finished_def pc_ok_def)
  next
    case (start err)
    show ?thesis
      unfolding start(1) worker_start_def
      by (rule event) (use start core_worker_start [OF core w] in auto)
  next
    case activate
    then obtain a rest where a: "w_activation (workers b ! w) = a # rest"
      by (cases "w_activation (workers b ! w)") auto
    have "life (worker_activate w b)"
      unfolding worker_activate_def a list.case
      by (rule life_set_pc [OF life w])
        (use activate a in \<open>auto simp: finished_def pc_ok_def\<close>)
    moreover have "refs_ok (worker_activate w b)" using refs by (simp add: worker_activate_def a)
    ultimately show ?thesis using activate(1) by (simp add: box_inv_def)
  next
    case cancel_inactive
    then show ?thesis
      unfolding cancel_inactive(1) by (intro local) (auto simp: finished_def pc_ok_def)
  next
    case stop_inactive
    show ?thesis
      unfolding stop_inactive(1) worker_stopped_def
      by (rule event) (use stop_inactive core_worker_stopped [OF core w] in auto)
  next
    case (next_error nextErr)
    then show ?thesis
      unfolding next_error(1) by (intro local) (auto simp: finished_def pc_ok_def)
  next
    case (next_undecodable data)
    with assms(2) show ?thesis by simp
  next
    case (next_capsule data capsule)
    then show ?thesis
      unfolding next_capsule(1) by (intro local) (auto simp: finished_def pc_ok_def)
  next
    case (queue capsule)
    then have "box_inv (set_pc w WLoopCheck b)"
      by (intro local) (auto simp: finished_def pc_ok_def)
    then show ?thesis
      unfolding queue(1) by (simp add: box_inv_def enqueue_message_def)
  next
    case (queue_unbuffered capsule)
    let ?b = "set_pc w WLoopCheck b"
    have "box_inv ?b"
      using queue_unbuffered by (intro local) (auto simp: finished_def pc_ok_def)
    then have "life ?b" "refs_ok ?b" by (simp_all add: box_inv_def)
    moreover have "dispatcher ?b = DLoop" using queue_unbuffered by (simp add: set_pc_def)
    moreover have "maps_ok ?b" using maps maps_ok_cong [of ?b b] by (simp add: set_pc_def)
    ultimately show ?thesis
      unfolding queue_unbuffered(1)
      by (simp add: box_inv_def life_handleMessage refs_ok_evolves [OF _ evolves_handleMessage])
  next
    case (queue_cancelled capsule)
    then show ?thesis
      unfolding queue_cancelled(1) by (intro local) (auto simp: finished_def pc_ok_def)
  next
    case loop_check
    then show ?thesis
      unfolding loop_check(1) by (intro local) (auto simp: finished_def pc_ok_def)
  next
    case (cancel e)
    then show ?thesis
      unfolding cancel(1) by (intro local) (auto simp: finished_def pc_ok_def)
  next
    case (stopped e)
    show ?thesis
      unfolding stopped(1) worker_stopped_def
      by (rule event) (use stopped core_worker_stopped [OF core w] in auto)
  next
    case return
    have core': "core (set_pc w WDone b)" by (rule core_worker_done [OF core w return(2)])
    have "\<forall>x \<in> set (workers b). w_pc x = WDone \<Longrightarrow> False"
      using return(2) w nth_mem by fastforce
    with life have "dispatcher b \<noteq> DReturned" by (auto simp: life_def link_def)
    with life core' have "life (set_pc w WDone b)"
      by (simp add: life_def link_def set_pc_def)
    with refs return(1) show ?thesis by (simp add: box_inv_def)
  qed
qed

lemma box_inv_dispatcher:
  assumes "dispatcher_step b c" and "box_inv b"
  shows "box_inv c"
  using assms(1)
proof cases
  case (message m ms)
  let ?b = "b\<lparr>messageCh := ms\<rparr>"
  have "life ?b" "refs_ok ?b" "dispatcher ?b = DLoop"
    using assms(2) message by (simp_all add: box_inv_def)
  moreover have "maps_ok ?b" using \<open>refs_ok ?b\<close> by (simp only: refs_ok_def)
  ultimately show ?thesis
    unfolding message(1)
    by (simp add: box_inv_def life_handleMessage refs_ok_evolves [OF _ evolves_handleMessage])
next
  case (finish err)
  have "core (finishClose err b)"
    using assms(2) core_cong [of "finishClose err b" b]
    by (simp add: box_inv_def life_def finishClose_def)
  then have "life (finishClose err b)"
    using assms(2) finish by (auto simp: box_inv_def life_def link_def finishClose_def)
  moreover have "refs_ok (finishClose err b)"
    using assms(2) refs_ok_cong [of "finishClose err b" b]
    by (simp add: box_inv_def finishClose_def)
  ultimately show ?thesis using finish(1) by (simp add: box_inv_def)
qed

lemma box_inv_env:
  assumes "env_step b c" and "box_inv b"
  shows "box_inv c"
  using assms(1)
proof cases
  case (ctx_end ctx e)
  with assms(2) show ?thesis by (simp add: box_inv_def)
next
  case (consume r m s)
  have frame: "sub_done s = sub_done (subs b r)"
    using consume(2) by (auto simp: receive_def split: list.splits)
  have refs: "refs_ok b" using assms(2) by (simp add: box_inv_def)
  then have ok: "call_ok b r" by (simp add: refs_ok_def)
  let ?c = "b\<lparr>subs := (subs b)(r := s)\<rparr>"
  have same: "booked ?c r = booked b r" "joined ?c r = joined b r" "subs ?c r = s"
    "replies ?c = replies b" "calls ?c = calls b" "cancels ?c = cancels b"
    "nextRef ?c = nextRef b" "reqs ?c = reqs b"
    by (simp_all add: booked_def joined_def)
  have "sub_wf s" using call_ok_basic(1) [OF ok] consume(2) by (rule receive_wf)
  then have "call_ok ?c r"
    using ok unfolding call_ok_def same frame by blast
  then have "refs_ok ?c"
    by (intro refs_ok_caller [OF refs, where r = r]) (use refs in \<open>simp_all add: refs_ok_def\<close>)
  with assms(2) consume(1) show ?thesis by (simp add: box_inv_def)
qed

lemma box_inv_step:
  assumes "box_step U ext b c" and "box_inv b"
  shows "box_inv c"
  using assms(1)
  by cases (use assms(2) in \<open>auto intro: box_inv_call box_inv_worker box_inv_dispatcher box_inv_env\<close>)

lemma box_inv_init:
  assumes "box_init b"
  shows "box_inv b"
proof -
  from assms obtain sz topic ctx0 where b: "newBoxWithBackend sz topic ctx0 = Returns b"
    by (auto simp: box_init_def)
  then show ?thesis
    by (auto simp: newBoxWithBackend_def box_inv_def life_def core_def link_def shape_def
        live_worker_def refs_ok_def maps_ok_def call_ok_def booked_def joined_def
        split: if_splits)
qed

interpretation box: machine box_init "box_step U ext" box_inv for U ext
  by unfold_locales (auto intro: box_inv_init box_inv_step)

end
