(* ===== verification/BoxRun.thy ===== *)
theory BoxRun
  imports BoxInv
begin

text \<open>
  A small run of a box: two callers join, the second abandons its join and its cancel is
  delivered, then the box is closed and its worker and its dispatcher end. The states of the
  run are the concrete instances at which the properties of \<open>BoxSafety\<close> are applied.
\<close>

definition run0 :: Box where
  "run0 = (case newBoxWithBackend 1 ''t'' (\<lambda>_. None) of Returns b \<Rightarrow> b | Panics _ \<Rightarrow> undefined)"

definition run1 :: Box where "run1 = join_enter 1 ''a'' 0 run0"
definition run2 :: Box where "run2 = join_send 0 run1"
definition run3 :: Box where "run3 = set_pc 0 (WSendStart None) run2"
definition run4 :: Box where "run4 = worker_start 0 None run3"
definition run5 :: Box where "run5 = join_result 0 run4"
definition run6 :: Box where "run6 = join_enter 1 ''b'' 0 run5"
definition run7 :: Box where "run7 = join_send 1 run6"
definition run8 :: Box where "run8 = run7\<lparr>ctxs := (ctxs run7)(0 := Some CtxCanceled)\<rparr>"
definition run9 :: Box where "run9 = spawn_cancel 1 (join_ctx 1 CtxCanceled run8)"
definition run10 :: Box where "run10 = deliver_cancel 1 run9"
definition run11 :: Box where "run11 = handleControl CloseReq (run10\<lparr>closeOnce := True\<rparr>)"
definition run12 :: Box where "run12 = worker_activate 0 run11"
definition run13 :: Box where "run13 = set_pc 0 (WCancel None) run12"
definition run14 :: Box where "run14 = set_pc 0 (WStop None) run13"
definition run15 :: Box where "run15 = worker_stopped 0 None run14"
definition run16 :: Box where "run16 = set_pc 0 WDone run15"
definition run17 :: Box where "run17 = finishClose None run16"

lemmas run_body = caller_defs worker_defs handler_defs store_defs Let_def handleControl_def
  ctx_err_def startGeneration_def startWorker_def beginStopping_def fail_request_def
  stop_subscriber_def stopActive_def failPending_def admitPending_def admit_request_def
  dropExpired_def drop_expired_def newSubscriber_def stop_def finishClose_def

lemmas run_defs = run0_def run1_def run2_def run3_def run4_def run5_def run6_def run7_def run8_def
  run9_def run10_def run11_def run12_def run13_def run14_def run15_def run16_def run17_def
  newBoxWithBackend_def run_body

section \<open>Its states\<close>

lemma run2_facts:
  "dispatcher run1 = DLoop" "calls run1 0 = CSend"
  "state run2 = subscriptionStarting" "booked run2 0" "calls run2 0 = CWait" "replies run2 0 = []"
  "w_pc (workers run2 ! 0) = WSubscribe" "length (workers run2) = 1" "dispatcher run2 = DLoop"
  by (simp_all add: run_defs booked_def sub_refs_def)

lemma run4_facts:
  "w_pc (workers run3 ! 0) = WSendStart None" "length (workers run3) = 1" "dispatcher run3 = DLoop"
  "state run4 = subscriptionRunning" "active run4 = [(''a'', 0)]" "pending run4 = []"
  "calls run4 0 = CWait" "replies run4 0 = [\<lparr>res_subscriber = Some 0, res_err = None\<rparr>]"
  "length (workers run4) = 1" "w_pc (workers run4 ! 0) = WAwait" "dispatcher run4 = DLoop"
  "generation run4 = 1"
  by (simp_all add: run_defs)

lemma run7_facts:
  "calls run5 0 = CReturned \<lparr>res_subscriber = Some 0, res_err = None\<rparr>"
  "calls run6 1 = CSend" "dispatcher run6 = DLoop"
  "state run7 = subscriptionRunning" "active run7 = [(''a'', 0), (''b'', 1)]"
  "calls run7 1 = CWait" "ctxs run7 0 = None" "jr_ctx (reqs run7 1) = Some 0"
  "calls run7 0 = CReturned \<lparr>res_subscriber = Some 0, res_err = None\<rparr>"
  by (simp_all add: run_defs)

lemma run10_facts:
  "calls run8 1 = CWait" "ctx_err run8 (jr_ctx (reqs run8 1)) = Some CtxCanceled"
  "cancels run9 = [1]" "dispatcher run9 = DLoop" "joined run9 1" "joined run9 0"
  "cancels run10 = []" "active run10 = [(''a'', 0)]" "state run10 = subscriptionRunning"
  "calls run10 1 = CReturned \<lparr>res_subscriber = None, res_err = Some CtxCanceled\<rparr>"
  "calls run10 0 = CReturned \<lparr>res_subscriber = Some 0, res_err = None\<rparr>"
  "dispatcher run10 = DLoop" "\<not> closeOnce run10" "generation run10 = 1" "joined run10 0"
  "subs run10 0 = newSubscriber 1"
  by (simp_all add: run_defs joined_def)

lemma run14_facts:
  "w_pc (workers run11 ! 0) = WAwait" "w_activation (workers run11 ! 0) = [True]"
  "length (workers run11) = 1" "state run11 = subscriptionClosing" "dispatcher run11 = DLoop"
  "w_pc (workers run12 ! 0) = WNext" "w_ctxDone (workers run12 ! 0)" "length (workers run12) = 1"
  "w_pc (workers run13 ! 0) = WCancel None" "length (workers run13) = 1"
  "w_pc (workers run14 ! 0) = WStop None" "length (workers run14) = 1" "dispatcher run14 = DLoop"
  by (simp_all add: run_defs)

lemma run17_facts:
  "w_pc (workers run15 ! 0) = WReturning" "length (workers run15) = 1" "dispatcher run15 = DWait"
  "workers run16 = [\<lparr>w_generation = 1, w_pc = WDone, w_ctxDone = True, w_activation = []\<rparr>]"
  "dispatcher run16 = DWait"
  "boxDone run17" "calls run17 0 = CReturned \<lparr>res_subscriber = Some 0, res_err = None\<rparr>"
  by (simp_all add: run_defs)

section \<open>It is a run\<close>

lemma run_init: "box_init run0"
  unfolding box_init_def by (rule exI [of _ 1]) (simp add: run0_def newBoxWithBackend_def)

lemma run_call: "call_step 1 b c \<Longrightarrow> reach box_init (box_step U 1) b \<Longrightarrow> reach box_init (box_step U 1) c"
  by (blast intro: reach.reach_step box_call)

lemma run_worker:
  "worker_step U 0 b c \<Longrightarrow> length (workers b) = 1 \<Longrightarrow> reach box_init (box_step U 1) b \<Longrightarrow>
   reach box_init (box_step U 1) c"
  by (rule reach.reach_step, assumption, rule box_worker) simp_all

lemma reach_run2: "reach box_init (box_step U 1) run2"
  unfolding run2_def
  by (rule run_call [OF call_step.send], rule run2_facts, rule run2_facts,
      unfold run1_def, rule run_call [OF call_step.enter], rule reach.reach_init, rule run_init)

lemma reach_run4: "reach box_init (box_step U 1) run4"
  unfolding run4_def
  by (rule run_worker [OF worker_step.start], rule run4_facts, rule run4_facts, rule run4_facts,
      unfold run3_def, rule run_worker [OF worker_step.subscribe], rule run2_facts,
      rule run2_facts, rule reach_run2)

lemma reach_run7: "reach box_init (box_step U 1) run7"
  unfolding run7_def
  by (rule run_call [OF call_step.send], rule run7_facts, rule run7_facts,
      unfold run6_def, rule run_call [OF call_step.enter],
      unfold run5_def, rule run_call [OF call_step.wait_reply], rule run4_facts,
      simp add: run4_facts, rule reach_run4)

lemma reach_run9: "reach box_init (box_step U 1) run9"
proof -
  have "env_step run7 run8"
    unfolding run8_def by (rule env_step.ctx_end) (rule run7_facts)
  then have "reach box_init (box_step U 1) run8"
    by (blast intro: reach.reach_step box_env reach_run7)
  then show ?thesis
    unfolding run9_def by (rule run_call [OF call_step.wait_ctx, OF run10_facts(1,2)])
qed

lemma reach_run10: "reach box_init (box_step U 1) run10"
  unfolding run10_def
  by (rule run_call [OF call_step.cancel_deliver]) (simp_all add: run10_facts reach_run9 del: One_nat_def)

lemma reach_run14: "reach box_init (box_step U 1) run14"
proof -
  have "reach box_init (box_step U 1) run11"
    unfolding run11_def
    by (rule run_call [OF call_step.close]) (simp_all add: run10_facts reach_run10 del: One_nat_def)
  then have "reach box_init (box_step U 1) run12"
    unfolding run12_def
    by (rule run_worker [OF worker_step.activate, rotated 3]) (simp_all add: run14_facts)
  moreover have "worker_step U 0 run12 run13"
    using worker_step.next_error [of run12 0 U CtxCanceled]
    by (simp add: run13_def run14_facts terminal_error_def)
  ultimately have "reach box_init (box_step U 1) run13"
    by (blast intro: run_worker run14_facts)
  then show ?thesis
    unfolding run14_def
    by (rule run_worker [OF worker_step.cancel, rotated 2]) (simp_all add: run14_facts)
qed

lemma reach_run17: "reach box_init (box_step U 1) run17"
proof -
  have "reach box_init (box_step U 1) run15"
    unfolding run15_def
    by (rule run_worker [OF worker_step.stopped, OF run14_facts(11,13,12) reach_run14])
  then have "reach box_init (box_step U 1) run16"
    unfolding run16_def
    by (rule run_worker [OF worker_step.return, rotated 2]) (simp_all add: run17_facts)
  moreover have "dispatcher_step run16 run17"
    unfolding run17_def by (rule dispatcher_step.finish) (simp_all add: run17_facts)
  ultimately show ?thesis by (blast intro: reach.reach_step box_dispatcher)
qed

section \<open>A second generation\<close>

text \<open>
  From the state after the delivered cancel: the first caller leaves, the worker ends, and a
  third join starts the next generation.
\<close>

definition again1 :: Box where "again1 = handleControl (LeaveReq ''a'' 0) run10"
definition again2 :: Box where "again2 = worker_activate 0 again1"
definition again3 :: Box where "again3 = set_pc 0 (WStop None) (set_pc 0 (WCancel None) again2)"
definition again4 :: Box where "again4 = worker_stopped 0 None again3"
definition again5 :: Box where "again5 = join_enter 1 ''c'' 1 again4"
definition again6 :: Box where "again6 = join_send 2 again5"

lemmas again_defs = again1_def again2_def again3_def again4_def again5_def again6_def run_defs

lemma again_facts:
  "dispatcher run10 = DLoop" "state again1 = subscriptionStopping"
  "w_pc (workers again1 ! 0) = WAwait" "w_activation (workers again1 ! 0) = [True]"
  "length (workers again1) = 1"
  "w_pc (workers again2 ! 0) = WNext" "w_ctxDone (workers again2 ! 0)" "length (workers again2) = 1"
  "w_pc (workers again3 ! 0) = WStop None" "length (workers again3) = 1" "dispatcher again3 = DLoop"
  "state again4 = subscriptionIdle" "calls again5 2 = CSend" "dispatcher again5 = DLoop"
  "length (workers again6) = 2" "w_generation (workers again6 ! 0) = 1" "generation again6 = 2"
  by (simp_all add: again_defs numeral_2_eq_2)

lemma reach_again6: "reach box_init (box_step U 1) again6"
proof -
  have "reach box_init (box_step U 1) again1"
    unfolding again1_def by (rule run_call [OF call_step.leave, OF run10_facts(12) reach_run10])
  then have "reach box_init (box_step U 1) again2"
    unfolding again2_def
    by (rule run_worker [OF worker_step.activate, rotated 3]) (simp_all add: again_facts)
  moreover have "worker_step U 0 again2 (set_pc 0 (WCancel None) again2)"
    using worker_step.next_error [of again2 0 U CtxCanceled]
    by (simp add: again_facts terminal_error_def)
  ultimately have "reach box_init (box_step U 1) (set_pc 0 (WCancel None) again2)"
    by (blast intro: run_worker again_facts)
  then have "reach box_init (box_step U 1) again3"
    unfolding again3_def
    by (rule run_worker [OF worker_step.cancel, rotated 2]) (simp_all add: set_pc_def again_facts)
  then have "reach box_init (box_step U 1) again4"
    unfolding again4_def by (intro run_worker [OF worker_step.stopped, OF again_facts(9,11,10)])
  then have "reach box_init (box_step U 1) again5"
    unfolding again5_def by (rule run_call [OF call_step.enter])
  then show ?thesis
    unfolding again6_def by (intro run_call [OF call_step.send, OF again_facts(13,14)])
qed

end
