(* ===== verification/BoxSafety.thy ===== *)
theory BoxSafety
  imports BoxRun
begin

text \<open>
  What the invariant of \<open>BoxInv\<close> says to the users of a box, for every reachable state, the
  functional behaviour of the fan-out, and the numbering of the generations.
\<close>

section \<open>Facts read off the invariant\<close>

lemma reach_core: "reach box_init (box_step U ext) b \<Longrightarrow> core b"
  using box.reach_inv by (auto simp: box_inv_def life_def)

lemma reach_link: "reach box_init (box_step U ext) b \<Longrightarrow> link b"
  using box.reach_inv by (auto simp: box_inv_def life_def)

lemma reach_maps: "reach box_init (box_step U ext) b \<Longrightarrow> maps_ok b"
  using box.reach_inv by (auto simp: box_inv_def refs_ok_def)

lemma reach_call: "reach box_init (box_step U ext) b \<Longrightarrow> call_ok b r"
  using box.reach_inv by (auto simp: box_inv_def refs_ok_def)

lemma reach_box_step: "reach box_init (box_step U ext) b \<Longrightarrow> box_step U ext b c \<Longrightarrow>
    reach box_init (box_step U ext) c"
  by (rule reach.reach_step)

section \<open>A cancel touches its own join only\<close>

text \<open>\<open>apart r b c\<close>: outside the reference \<open>r\<close>, maps and stores agree.\<close>

definition apart :: "nat \<Rightarrow> Box \<Rightarrow> Box \<Rightarrow> bool" where
  "apart r b c \<longleftrightarrow> (\<forall>r'. r' \<noteq> r \<longrightarrow>
     booked c r' = booked b r' \<and> joined c r' = joined b r' \<and> subs c r' = subs b r' \<and>
     replies c r' = replies b r')"

lemma apart_refl [simp]: "apart r b b"
  by (simp add: apart_def)

lemma apart_trans: "apart r b c \<Longrightarrow> apart r c d \<Longrightarrow> apart r b d"
  by (simp add: apart_def)

lemma apart_beginStopping: "apart r b c \<Longrightarrow> apart r b (beginStopping c)"
  by (simp add: apart_def) (simp add: beginStopping_def cancel_worker_def Let_def split: option.split)

lemma apart_cancelPending:
  assumes "maps_ok b"
  shows "apart r b (cancelPending i r b)"
proof (cases "map_of (pending b) i")
  case None
  then show ?thesis by (simp add: cancelPending_def apart_def)
next
  case (Some q)
  have mem: "(i, q) \<in> set (pending b)" using Some by (rule map_of_SomeD)
  then have "request_ok b (i, q)" using assms by (simp add: maps_ok_def)
  then have ok: "jr_reply q = jr_subscriber q" unfolding request_ok_def by simp
  have "apart r b (fail_request (Some CtxCanceled) (i, q) b)" if "jr_subscriber q = r"
    using booked_delete [OF assms mem] ok that
    by (auto simp: apart_def booked_def joined_def fail_request_eq)
  with Some show ?thesis
    by (cases "jr_subscriber q = r") (simp_all add: cancelPending_def Let_def apart_beginStopping)
qed

lemma apart_cancelActive:
  assumes "maps_ok b"
  shows "apart r b (cancelActive i r b)"
proof (cases "map_of (active b) i")
  case None
  then show ?thesis by (simp add: cancelActive_def apart_def)
next
  case (Some a)
  have mem: "(i, a) \<in> set (active b)" using Some by (rule map_of_SomeD)
  have "apart r b (stop_subscriber (Some CtxCanceled) (i, a) b)" if "a = r"
    using joined_delete [OF assms mem] that
    by (auto simp: apart_def booked_def joined_def stop_subscriber_eq)
  with Some show ?thesis
    by (cases "a = r") (simp_all add: cancelActive_def Let_def apart_beginStopping)
qed

lemma apart_handleCancelJoin:
  assumes "maps_ok b"
  shows "apart r b (handleCancelJoin i r b)"
proof -
  have "maps_ok (cancelPending i r b)"
    using assms evolves_cancelPending by (auto simp: evolves_def)
  then show ?thesis
    unfolding handleCancelJoin_def
    by (rule apart_trans [OF apart_cancelPending [OF assms] apart_cancelActive])
qed

section \<open>Generations\<close>

lemma word_of_nat_less_neq:
  assumes "Suc m < n" and "n \<le> 2 ^ LENGTH('w)"
  shows "(word_of_nat (Suc m) :: 'w::len word) \<noteq> word_of_nat n"
proof
  assume "(word_of_nat (Suc m) :: 'w word) = word_of_nat n"
  then have "Suc m mod 2 ^ LENGTH('w) = n mod 2 ^ LENGTH('w)"
    unfolding word_of_nat_eq_iff by (simp only: take_bit_eq_mod)
  with assms show False by (cases "n = 2 ^ LENGTH('w)") auto
qed

text \<open>Workers are numbered by their generation, modulo the wrap-around of \<open>uint64\<close>.\<close>

definition gens :: "Box \<Rightarrow> 64 word list \<times> 64 word" where
  "gens b = (List.map w_generation (workers b), generation b)"

definition gens_ok :: "Box \<Rightarrow> bool" where
  "gens_ok b \<longleftrightarrow>
     List.map w_generation (workers b) = List.map (\<lambda>i. word_of_nat (Suc i)) [0..<length (workers b)] \<and>
     generation b = word_of_nat (length (workers b))"

lemma gens_upd [simp]:
  "gens (b\<lparr>state := a1\<rparr>) = gens b" "gens (b\<lparr>pending := a3\<rparr>) = gens b"
  "gens (b\<lparr>active := a4\<rparr>) = gens b" "gens (b\<lparr>workerCancel := a5\<rparr>) = gens b"
  "gens (b\<lparr>subs := a7\<rparr>) = gens b" "gens (b\<lparr>replies := a8\<rparr>) = gens b"
  "gens (b\<lparr>acks := a9\<rparr>) = gens b" "gens (b\<lparr>boxCtxDone := a10\<rparr>) = gens b"
  "gens (b\<lparr>dispatcher := a11\<rparr>) = gens b" "gens (b\<lparr>messageCh := a12\<rparr>) = gens b"
  "gens (b\<lparr>closeOnce := a13\<rparr>) = gens b" "gens (b\<lparr>calls := a14\<rparr>) = gens b"
  "gens (b\<lparr>reqs := a15\<rparr>) = gens b" "gens (b\<lparr>nextRef := a16\<rparr>) = gens b"
  "gens (b\<lparr>cancels := a17\<rparr>) = gens b" "gens (b\<lparr>ctxs := a18\<rparr>) = gens b"
  by (simp_all add: gens_def)

lemma gens_worker_upd [simp]:
  "w_generation x = w_generation (workers b ! w) \<Longrightarrow>
   gens (b\<lparr>workers := (workers b)[w := x]\<rparr>) = gens b"
  by (simp add: gens_def map_update) (metis list_update_beyond list_update_id map_update not_le nth_map)

lemma gens_state_worker [simp]:
  "gens (b\<lparr>state := s, workers := ws\<rparr>) = gens (b\<lparr>workers := ws\<rparr>)"
  by (simp add: gens_def)

lemma gens_ok_gens: "gens c = gens b \<Longrightarrow> gens_ok b \<Longrightarrow> gens_ok c"
  unfolding gens_def gens_ok_def by (metis length_map prod.inject)

lemma gens_blocks [simp]:
  "gens (sub_stop r e b) = gens b" "gens (send_reply r res b) = gens b" "gens (send_ack r b) = gens b"
  "gens (send_activation w a b) = gens b" "gens (cancel_worker w b) = gens b"
  "gens (beginStopping b) = gens b" "gens (fail_request e p b) = gens b"
  "gens (stop_subscriber e q b) = gens b" "gens (failPending e b) = gens b"
  "gens (stopActive e b) = gens b" "gens (dropExpired b) = gens b" "gens (admitPending b) = gens b"
  "gens (rejectDuplicate x b) = gens b" "gens (set_pc v pc b) = gens b"
  by (simp_all add: store_defs beginStopping_def Let_def fail_request_eq stop_subscriber_eq
      failPending_eq stopActive_eq dropExpired_def fold_drop_expired admitPending_eq
      rejectDuplicate_def set_pc_def split: option.split)

lemma gens_finishClose [simp]: "gens (finishClose e b) = gens b"
  by (simp add: finishClose_def gens_def)

lemma gens_fan_out [simp]: "gens (fold (fan_out c) ps b) = gens b"
  by (induction ps arbitrary: b) (simp_all add: fan_out_eq)

lemma gens_handleMessage [simp]: "gens (handleMessage m b) = gens b"
  by (simp add: handleMessage_def Let_def)

lemma gens_ok_startGeneration: "gens_ok b \<Longrightarrow> gens_ok (startGeneration b)"
  by (simp add: gens_ok_def startGeneration_def startWorker_def Let_def)

lemma gens_ok_cong [simp]:
  "gens_ok (b\<lparr>pending := a3\<rparr>) = gens_ok b" "gens_ok (b\<lparr>workerCancel := a5\<rparr>) = gens_ok b"
  "gens_ok (b\<lparr>state := a1\<rparr>) = gens_ok b" "gens_ok (b\<lparr>dispatcher := a11\<rparr>) = gens_ok b"
  "gens_ok (b\<lparr>calls := a14\<rparr>) = gens_ok b" "gens_ok (b\<lparr>closeOnce := a13\<rparr>) = gens_ok b"
  by (simp_all add: gens_ok_def)

lemma gens_ok_set_pc [simp]: "gens_ok (set_pc w pc b) = gens_ok b"
  using gens_ok_gens [of "set_pc w pc b" b] gens_ok_gens [of b "set_pc w pc b"] by auto

lemma gens_ok_restartOrIdle: "gens_ok b \<Longrightarrow> gens_ok (restartOrIdle b)"
  by (simp add: restartOrIdle_def gens_ok_startGeneration)

lemma gens_ok_dispatch:
  assumes "gens_ok b"
  shows "gens_ok (dispatch ev b)"
proof -
  have keep: "gens_ok c" if "gens c = gens b" for c
    using that assms by (rule gens_ok_gens)
  show ?thesis
  proof (cases ev)
    case (JoinReq q)
    with assms show ?thesis
      by (auto simp: handleJoin_def intro: keep gens_ok_startGeneration split: subscriptionState.split)
  next
    case (StartResult g a e)
    with assms show ?thesis
      by (auto simp: handleStartResult_def Let_def intro: keep gens_ok_restartOrIdle
          split: subscriptionState.split)
  next
    case (WorkerStopped g e)
    with assms show ?thesis
      by (auto simp: handleWorkerStopped_def Let_def intro: keep gens_ok_restartOrIdle
          split: subscriptionState.split)
  qed (auto simp: handleCancelJoin_def cancelPending_def cancelActive_def handleLeave_def
      handleStop_def handleClose_def Let_def intro!: keep split: option.split)
qed

lemma gens_ok_handleControl: "gens_ok b \<Longrightarrow> gens_ok (handleControl ev b)"
  using gens_ok_dispatch [of b ev] by (simp add: handleControl_def Let_def)

lemma gens_ok_step:
  assumes "box_step U ext b c" and "gens_ok b"
  shows "gens_ok c"
proof -
  have keep: "gens_ok d" if "gens d = gens b" for d
    using that assms(2) by (rule gens_ok_gens)
  from assms(1) show ?thesis
  proof cases
    case box_call
    then show ?thesis
    proof cases
      case (cancel_deliver r)
      have "gens_ok (handleControl (CancelJoinReq (jr_subscriberID (reqs b r)) r) b)"
        using assms(2) by (rule gens_ok_handleControl)
      then show ?thesis
        unfolding cancel_deliver(1) deliver_cancel_def Let_def by (rule gens_ok_gens [rotated]) simp
    qed (auto simp: caller_defs sub_stop_def Let_def assms(2) gens_ok_handleControl
        intro: keep split: option.split list.split)
  next
    case (box_worker w)
    from box_worker(2) show ?thesis
      by cases (auto simp: worker_start_def worker_stopped_def worker_activate_def enqueue_message_def
          assms(2) gens_ok_handleControl intro: keep split: list.split)
  next
    case box_dispatcher
    then show ?thesis
      by cases (auto intro!: keep)
  next
    case box_env
    then show ?thesis by cases (auto intro!: keep)
  qed
qed

interpretation boxgen: machine box_init "box_step U ext" gens_ok for U ext
proof unfold_locales
  fix s assume "box_init s"
  then show "gens_ok s"
    by (auto simp: gens_ok_def box_init_def newBoxWithBackend_def split: if_splits)
qed (rule gens_ok_step)


section \<open>Callers of JoinSubContext\<close>

text \<open>
  C1. No orphan: once a join has returned an error and its cancelling goroutine, if there was
  one, has finished, the dispatcher holds nothing of it, neither as a pending request nor as
  an active subscriber.
\<close>

theorem join_no_orphan:
  assumes "reach box_init (box_step U ext) b"
    and "calls b r = CReturned res" and "res_err res \<noteq> None" and "r \<notin> set (cancels b)"
  shows "\<not> booked b r \<and> \<not> joined b r"
  using reach_call [OF assms(1), of r] assms(2-4) by (auto simp: call_ok_def)

theorem join_no_orphan_witness: "\<not> booked run10 1 \<and> \<not> joined run10 1"
  using join_no_orphan [OF reach_run10 run10_facts(10)] by (simp add: run10_facts(7))

text \<open>
  C2. No subscriber is lost: the subscriber a successful join returns is the caller's own, and
  as long as it is not in the active map its done channel is closed, so that the stream that
  waits on it ends; while it is in the map it is not stopped.
\<close>

theorem join_live_or_done:
  assumes "reach box_init (box_step U ext) b"
    and "calls b r = CReturned res" and "res_err res = None"
  shows "res_subscriber res = Some r \<and> (joined b r \<longleftrightarrow> \<not> Done (subs b r))"
proof -
  have ok: "call_ok b r" by (rule reach_call [OF assms(1)])
  have "\<not> booked b r" "res_subscriber res = Some r" "r \<notin> set (cancels b)"
    using ok assms(2,3) by (auto simp: call_ok_def)
  with ok assms(2,3) show ?thesis by (auto simp: call_ok_def Done_def)
qed

theorem join_live_or_done_witness: "joined run10 0 \<and> \<not> Done (subs run10 0) \<and> Done (subs run17 0)"
proof -
  have "joined run10 0" by (simp add: joined_def run10_facts)
  moreover have "\<not> joined run17 0" by (simp add: run_defs joined_def)
  ultimately show ?thesis
    using join_live_or_done [OF reach_run10 run10_facts(11)]
      join_live_or_done [OF reach_run17 run17_facts(7)] by simp
qed

text \<open>
  C3. A waiting join is answered exactly once: either its request is still pending and its
  reply channel is empty, or it is not pending and the channel holds one reply, which names
  its own subscriber when it is a success and after which it is not active when it is an
  error. No send on a reply channel, whose capacity is one, can therefore block.
\<close>

theorem join_answered_once:
  assumes "reach box_init (box_step U ext) b" and "calls b r = CWait"
  shows "booked b r \<and> replies b r = [] \<or>
    \<not> booked b r \<and> (\<exists>x. replies b r = [x] \<and>
      (if res_err x = None then res_subscriber x = Some r else \<not> joined b r))"
  using reach_call [OF assms(1), of r] assms(2) by (auto simp: call_ok_def)

theorem join_answered_once_witness:
  "booked run2 0 \<and> replies run2 0 = [] \<and>
   (\<exists>x. replies run4 0 = [x] \<and> res_subscriber x = Some 0)"
  using join_answered_once [OF reach_run2 run2_facts(5)] join_answered_once [OF reach_run4 run4_facts(7)]
  by (simp add: run2_facts run4_facts)

text \<open>
  C9. The cancel of an abandoned join removes that join, wherever it stands, and leaves every
  other caller's request, membership, subscriber and replies alone, also one with the same
  subscriber id.
\<close>

theorem cancel_own_join_only:
  assumes "reach box_init (box_step U ext) b"
  shows "\<not> booked (deliver_cancel r b) r \<and> \<not> joined (deliver_cancel r b) r \<and>
    (\<forall>r'. r' \<noteq> r \<longrightarrow>
      booked (deliver_cancel r b) r' = booked b r' \<and> joined (deliver_cancel r b) r' = joined b r' \<and>
      subs (deliver_cancel r b) r' = subs b r' \<and> replies (deliver_cancel r b) r' = replies b r')"
proof -
  let ?c = "handleCancelJoin (jr_subscriberID (reqs b r)) r b"
  have m: "maps_ok b" by (rule reach_maps [OF assms])
  have same: "pending (deliver_cancel r b) = pending ?c" "active (deliver_cancel r b) = active ?c"
    "subs (deliver_cancel r b) = subs ?c" "replies (deliver_cancel r b) = replies ?c"
    by (simp_all add: deliver_cancel_def handleControl_def Let_def)
  show ?thesis
    using handleCancelJoin_gone [OF m, of r] apart_handleCancelJoin [OF m]
    by (simp add: apart_def booked_def joined_def same)
qed

theorem cancel_own_join_only_witness:
  "\<not> joined (deliver_cancel 1 run9) 1 \<and> joined (deliver_cancel 1 run9) 0"
  using cancel_own_join_only [OF reach_run9, of 1] by (auto simp: run10_facts)

section \<open>The subscription's life cycle\<close>

text \<open>
  C11. The subscription state and the two maps agree: there are active subscribers exactly in
  the running state, pending requests only while a generation starts or stops (and always
  while it starts), a current worker in exactly the states starting, running and stopping or
  while closing is under way, and the box's context is cancelled exactly when it is closing.
  When \<open>boxDone\<close> is closed, the box is closing, its topic has been closed exactly once, every
  worker goroutine has returned and no caller is pending or active.
\<close>

theorem box_lifecycle:
  assumes "reach box_init (box_step U ext) b"
  shows "(active b \<noteq> [] \<longleftrightarrow> state b = subscriptionRunning) \<and>
    (state b = subscriptionStarting \<longrightarrow> pending b \<noteq> []) \<and>
    (pending b \<noteq> [] \<longrightarrow> state b \<in> {subscriptionStarting, subscriptionStopping}) \<and>
    (state b \<in> {subscriptionStarting, subscriptionRunning, subscriptionStopping} \<longrightarrow>
       workerCancel b \<noteq> None) \<and>
    (state b = subscriptionIdle \<longrightarrow> workerCancel b = None \<and> (\<forall>x \<in> set (workers b). finished x)) \<and>
    (boxCtxDone b \<longleftrightarrow> state b = subscriptionClosing) \<and>
    (boxDone b \<longrightarrow> state b = subscriptionClosing \<and> topicCloses b = 1 \<and>
       (\<forall>x \<in> set (workers b). w_pc x = WDone) \<and> pending b = [] \<and> active b = [])"
  using reach_core [OF assms] reach_link [OF assms]
  by (cases "state b") (auto simp: core_def link_def shape_def live_worker_def)

theorem box_lifecycle_witness:
  "active run10 \<noteq> [] \<and> state run10 = subscriptionRunning \<and> boxDone run17 \<and> topicCloses run17 = 1"
  using box_lifecycle [OF reach_run10] box_lifecycle [OF reach_run17]
  by (simp add: run10_facts run17_facts)

text \<open>
  C10. One worker at a time: a worker that has not sent its terminal event is the last one
  started, the one whose cancel function the dispatcher holds, it has the current generation,
  and its context is cancelled exactly when the subscription is stopping or closing.
\<close>

theorem one_live_worker:
  assumes "reach box_init (box_step U ext) b"
    and "w < length (workers b)" and "\<not> finished (workers b ! w)"
  shows "Suc w = length (workers b) \<and> workerCancel b = Some w \<and>
    w_generation (workers b ! w) = generation b \<and>
    (w_ctxDone (workers b ! w) \<longleftrightarrow> state b \<in> {subscriptionStopping, subscriptionClosing})"
proof -
  obtain ws x where "workerCancel b = Some w" "workers b = ws @ [x]" "w = length ws"
    "worker_ok b x" "workers b ! w = x"
    by (rule live_index [OF reach_core [OF assms(1)] assms(2,3)])
  then show ?thesis by (auto simp: worker_ok_def)
qed

theorem one_live_worker_witness: "workerCancel run4 = Some 0 \<and> w_generation (workers run4 ! 0) = 1"
  using one_live_worker [OF reach_run4, of 0] by (simp add: run4_facts finished_def)

text \<open>
  C12. A superseded generation is inert: below the wrap-around of the \<open>uint64\<close> counter, a
  message, a failed start or a terminal event of any worker but the last changes nothing, and
  a late successful start is only told not to go on.
\<close>

theorem stale_generation_inert:
  assumes "reach box_init (box_step U ext) b"
    and "Suc w < length (workers b)" and "length (workers b) \<le> 2 ^ 64"
  shows "let g = w_generation (workers b ! w) in
    handleMessage \<lparr>smsg_generation = g, smsg_capsule = c\<rparr> b = b \<and>
    handleWorkerStopped g e b = b \<and> handleStartResult g w (Some e') b = b \<and>
    handleStartResult g w None b = send_activation w False b"
proof -
  have ok: "gens_ok b" by (rule boxgen.reach_inv [OF assms(1)])
  then have "w_generation (workers b ! w) = word_of_nat (Suc w)"
    using assms(2) unfolding gens_ok_def by (metis (no_types, lifting) Suc_lessD add_0 nth_map nth_map_upt
      length_map minus_nat.diff_0)
  moreover have "(word_of_nat (Suc w) :: 64 word) \<noteq> word_of_nat (length (workers b))"
    using assms(2,3) by (intro word_of_nat_less_neq) simp_all
  ultimately have "w_generation (workers b ! w) \<noteq> generation b"
    using ok by (simp add: gens_ok_def)
  then show ?thesis
    by (simp add: handleMessage_def handleWorkerStopped_def handleStartResult_def)
qed

theorem stale_generation_inert_witness:
  "handleWorkerStopped 1 None again6 = again6 \<and> handleStartResult 1 0 (Some ErrBoxClosed) again6 = again6"
  using stale_generation_inert [OF reach_again6, of 0] by (simp add: again_facts Let_def)

section \<open>Fan-out\<close>

text \<open>
  C6. A message of the current generation reaches every active subscriber, in order, after
  what it already holds; a subscriber whose buffer is full is stopped with
  \<open>ErrSlowSubscriber\<close> and leaves the map without losing what it holds; all others are
  untouched. The subscription stops exactly when nobody is left.
\<close>

theorem fan_out_delivery:
  assumes "reach box_init (box_step U ext) b"
    and "state b = subscriptionRunning" and "smsg_generation m = generation b"
  shows "subs (handleMessage m b) r =
      (if \<not> joined b r then subs b r
       else if length (Messages (subs b r)) < sub_capacity (subs b r)
       then (subs b r)\<lparr>sub_messages := Messages (subs b r) @ [smsg_capsule m]\<rparr>
       else stop (Some ErrSlowSubscriber) (subs b r)) \<and>
    (joined (handleMessage m b) r \<longleftrightarrow> joined b r \<and> has_room b r) \<and>
    state (handleMessage m b) =
      (if \<exists>r'. joined b r' \<and> has_room b r' then subscriptionRunning else subscriptionStopping)"
proof -
  have m: "maps_ok b" by (rule reach_maps [OF assms(1)])
  note eq = handleMessage_eq [OF distinct_active_vals [OF m] maps_ok_keys [OF m] assms(2,3)]
  show ?thesis
    using assms(2)
    by (auto simp: eq Let_def joined_def fanned_def offer_def has_room_def Messages_def
        beginStopping_def cancel_worker_def filter_empty_conv image_iff Bex_def split: option.split)
qed

definition tick :: TimestampedSignedMsgCapsule where
  "tick = \<lparr>ts_Timestamp = 1, ts_SignedMsgCapsule = None, ts_unknownFields = []\<rparr>"

theorem fan_out_delivery_witness:
  "sub_messages (subs (handleMessage \<lparr>smsg_generation = 1, smsg_capsule = tick\<rparr> run10) 0) = [tick]"
  using fan_out_delivery [OF reach_run10 run10_facts(9),
      of "\<lparr>smsg_generation = 1, smsg_capsule = tick\<rparr>" 0]
  by (simp add: run10_facts Messages_def newSubscriber_def)

section \<open>Construction\<close>

text \<open>
  C13. The two buffer sizes are not treated alike: a negative external size stops the process
  at start, a negative internal size is accepted there, and every attempt to create a box
  then panics.
\<close>

theorem internal_buffer_unchecked:
  assumes "- (2 ^ 63) \<le> n" and "n < 0"
  shows "msg_init [''INTERNAL_CHAN_BUFFER_SIZE'' \<mapsto> Itoa n] = Returns (n, 256) \<and>
    loadExternalChanBufferSize [''EXTERNAL_CHAN_BUFFER_SIZE'' \<mapsto> Itoa n] =
      Panics ''EXTERNAL_CHAN_BUFFER_SIZE must be greater than zero'' \<and>
    newBoxWithBackend n topic ctx0 = Panics ''makechan: size out of range''"
  using assms
  by (simp add: msg_init_def GetEnvInt_cases DefaultInternalChanBufferSize_def loadExternal_cases
      Atoi_Itoa newBoxWithBackend_def)

theorem internal_buffer_unchecked_witness:
  "msg_init [''INTERNAL_CHAN_BUFFER_SIZE'' \<mapsto> Itoa (- 1)] = Returns (- 1, 256)"
  using internal_buffer_unchecked [of "- 1"] by simp

end
