(* ===== verification/BoxClose.thy ===== *)
theory BoxClose
  imports BoxSafety
begin

text \<open>
  Closing a box comes to an end: a measure on the goroutines of the box that every one of their
  steps decreases once \<open>Close\<close> has been handled, and that the callers and the environment cannot
  increase; and until the box is done, one of these steps is possible.
\<close>

section \<open>The measure\<close>

fun pc_left :: "workerPC \<Rightarrow> nat" where
  "pc_left WSubscribe = 10"
| "pc_left (WSendStart err) = 9"
| "pc_left WAwait = 8"
| "pc_left WNext = 7"
| "pc_left (WQueue c) = 6"
| "pc_left WLoopCheck = 4"
| "pc_left (WCancel e) = 3"
| "pc_left WCancelInactive = 3"
| "pc_left (WStop e) = 2"
| "pc_left WStopInactive = 2"
| "pc_left WReturning = 1"
| "pc_left WDone = 0"

fun dispatcher_left :: "dispatcherPC \<Rightarrow> nat" where
  "dispatcher_left DLoop = 2"
| "dispatcher_left DWait = 1"
| "dispatcher_left DReturned = 0"

definition workers_left :: "Box \<Rightarrow> nat" where
  "workers_left b = sum_list (List.map (\<lambda>x. pc_left (w_pc x)) (workers b))"

definition close_left :: "Box \<Rightarrow> nat" where
  "close_left b = workers_left b + length (messageCh b) + dispatcher_left (dispatcher b)"

lemma sum_list_update_add:
  "i < length xs \<Longrightarrow> sum_list (List.map f (xs[i := y])) + f (xs ! i) = sum_list (List.map f xs) + (f y :: nat)"
  by (induction xs arbitrary: i) (auto split: nat.split)

lemma workers_left_update:
  "w < length (workers b) \<Longrightarrow>
     workers_left (b\<lparr>workers := (workers b)[w := y]\<rparr>) + pc_left (w_pc (workers b ! w)) =
     workers_left b + pc_left (w_pc y)"
  using sum_list_update_add [of w "workers b" "\<lambda>x. pc_left (w_pc x)" y] by (simp add: workers_left_def)

lemma close_left_set_pc:
  "w < length (workers b) \<Longrightarrow>
     close_left (set_pc w pc b) + pc_left (w_pc (workers b ! w)) = close_left b + pc_left pc"
  using workers_left_update [of w b "(workers b ! w)\<lparr>w_pc := pc\<rparr>"]
  by (simp add: close_left_def set_pc_def)

section \<open>The handlers of a closing box\<close>

definition closing :: "Box \<Rightarrow> bool" where
  "closing b \<longleftrightarrow> state b = subscriptionClosing \<and> pending b = [] \<and> active b = []"

lemma core_closing: "core b \<Longrightarrow> state b = subscriptionClosing \<Longrightarrow> closing b"
  by (simp add: core_def shape_def closing_def)

lemma closing_set_pc [simp]: "closing (set_pc w pc b) = closing b"
  by (simp add: closing_def set_pc_def)

lemma left_store [simp]:
  "workers_left (sub_stop r e b) = workers_left b" "workers_left (send_reply r res b) = workers_left b"
  "workers_left (send_ack r b) = workers_left b" "workers_left (b\<lparr>workerCancel := v\<rparr>) = workers_left b"
  "workers_left (b\<lparr>dispatcher := d\<rparr>) = workers_left b" "workers_left (set_call r pc b) = workers_left b"
  by (simp_all add: workers_left_def store_defs set_call_def)

lemma left_send_activation [simp]: "workers_left (send_activation w a b) = workers_left b"
proof (cases "w < length (workers b)")
  case True
  then show ?thesis
    using workers_left_update [of w b "(workers b ! w)\<lparr>w_activation := w_activation (workers b ! w) @ [a]\<rparr>"]
    by (simp add: send_activation_def)
qed (simp add: send_activation_def workers_left_def list_update_beyond)

lemma state_store [simp]:
  "state (sub_stop r e b) = state b" "state (send_reply r res b) = state b"
  "state (send_ack r b) = state b" "state (send_activation w a b) = state b"
  by (simp_all add: store_defs)

lemma closing_stopActive [simp]: "closing b \<Longrightarrow> stopActive e b = b"
  by (simp add: stopActive_def closing_def)

lemma closing_event:
  assumes "closing b"
  shows "workers_left (dispatch ev b) = workers_left b \<and> state (dispatch ev b) = subscriptionClosing"
proof -
  have c: "state b = subscriptionClosing" "pending b = []" "active b = []" "stopActive None b = b"
    using assms by (simp_all add: closing_def stopActive_def)
  show ?thesis by (cases ev) (simp_all add: c handler_defs Let_def)
qed

lemma closing_dispatch:
  assumes "closing b"
  shows "workers_left (dispatch ev b) = workers_left b" "messageCh (dispatch ev b) = messageCh b"
    "state (dispatch ev b) = subscriptionClosing" "dispatcher (dispatch ev b) = dispatcher b"
  using closing_event [OF assms] frameD [OF frame_dispatch [of ev b]] by simp_all

lemma closing_handleControl:
  assumes "closing b" "dispatcher b = DLoop"
  shows "close_left (handleControl ev b) \<le> close_left b" "state (handleControl ev b) = subscriptionClosing"
  using closing_dispatch [OF assms(1), of ev] assms(2)
  by (simp_all add: handleControl_def close_left_def Let_def)

lemma closing_handleMessage: "closing b \<Longrightarrow> handleMessage m b = b"
  by (simp add: handleMessage_def closing_def)

section \<open>The goroutines of a closing box\<close>

lemma closing_move:
  assumes "w < length (workers b)" "pc_left pc < pc_left (w_pc (workers b ! w))"
  shows "close_left (set_pc w pc b) < close_left b"
  using close_left_set_pc [OF assms(1), of pc] assms(2) by linarith

lemma closing_send:
  assumes "closing b" "dispatcher b = DLoop" "w < length (workers b)"
    "pc_left pc < pc_left (w_pc (workers b ! w))"
  shows "close_left (handleControl ev (set_pc w pc b)) < close_left b \<and>
    state (handleControl ev (set_pc w pc b)) = subscriptionClosing"
proof -
  have "closing (set_pc w pc b)" "dispatcher (set_pc w pc b) = DLoop"
    using assms(1,2) by (simp_all add: set_pc_def closing_def)
  then show ?thesis
    using closing_handleControl [of "set_pc w pc b" ev] closing_move [OF assms(3,4)] by linarith
qed

text \<open>
  Every step of a worker makes progress, except that \<open>Next\<close>, which chooses freely between a
  message that has come and the cancelled context, may once more answer with a message that the
  worker cannot decode and skips.
\<close>

definition skips ::
    "(bytes \<Rightarrow> TimestampedSignedMsgCapsule option) \<Rightarrow> nat \<Rightarrow> Box \<Rightarrow> Box \<Rightarrow> bool" where
  "skips U w b c \<longleftrightarrow> c = b \<and> w_pc (workers b ! w) = WNext \<and> (\<exists>data. U data = None)"

lemma closing_worker_step:
  assumes step: "worker_step U w b c" and w: "w < length (workers b)" and b: "closing b"
    and live: "w_pc (workers b ! w) = WLoopCheck \<Longrightarrow> w_ctxDone (workers b ! w)"
  shows "(skips U w b c \<or> close_left c < close_left b) \<and> state c = subscriptionClosing"
proof -
  have st: "state b = subscriptionClosing" "state (set_pc w pc b) = subscriptionClosing" for pc
    using b by (simp_all add: closing_def set_pc_def)
  note move = closing_move [OF w] and sent = closing_send [OF b _ w]
  from step show ?thesis
  proof (cases rule: worker_step.cases)
    case (start err)
    then show ?thesis
      using sent [of "if err = None then WAwait else WReturning"] by (simp add: worker_start_def)
  next
    case activate
    then obtain a rest where a: "w_activation (workers b ! w) = a # rest"
      by (cases "w_activation (workers b ! w)") auto
    let ?y = "(workers b ! w)\<lparr>w_activation := rest, w_pc := if a then WNext else WCancelInactive\<rparr>"
    have "pc_left (w_pc ?y) < pc_left (w_pc (workers b ! w))" using activate(2) by simp
    then have "workers_left (b\<lparr>workers := (workers b)[w := ?y]\<rparr>) < workers_left b"
      using workers_left_update [OF w, of ?y] by linarith
    moreover have c: "c = b\<lparr>workers := (workers b)[w := ?y]\<rparr>"
      unfolding activate(1) worker_activate_def a by simp
    moreover have "close_left (b\<lparr>workers := ws\<rparr>) < close_left b"
      if "workers_left (b\<lparr>workers := ws\<rparr>) < workers_left b" for ws
      using that by (simp add: close_left_def)
    moreover have "state c = subscriptionClosing" using c st(1) by simp
    ultimately show ?thesis by blast
  next
    case stop_inactive
    then show ?thesis using sent [of WReturning] by (simp add: worker_stopped_def)
  next
    case (stopped e)
    then show ?thesis using sent [of WReturning] by (simp add: worker_stopped_def)
  next
    case (queue m)
    then have "close_left c = Suc (close_left (set_pc w WLoopCheck b))"
      by (simp add: enqueue_message_def close_left_def workers_left_def)
    then show ?thesis
      using close_left_set_pc [OF w, of WLoopCheck] queue st by (simp add: enqueue_message_def)
  next
    case (queue_unbuffered m)
    then have "c = set_pc w WLoopCheck b" using b by (simp add: closing_handleMessage)
    then show ?thesis using move [of WLoopCheck] queue_unbuffered st by simp
  qed (use move live st in \<open>auto simp: skips_def\<close>)
qed

text \<open>So do the steps of the dispatcher; the callers and the environment do not interfere.\<close>

lemma closing_dispatcher_step:
  assumes "dispatcher_step b c" "closing b"
  shows "close_left c < close_left b \<and> state c = subscriptionClosing"
  using assms
  by (cases rule: dispatcher_step.cases)
    (auto simp: closing_handleMessage closing_def finishClose_def close_left_def workers_left_def
      handleMessage_def)

lemma closing_cong:
  assumes "closing b" "state c = state b" "pending c = pending b" "active c = active b"
    "workers c = workers b" "messageCh c = messageCh b" "dispatcher c = dispatcher b"
  shows "close_left c = close_left b" "closing c"
  using assms by (simp_all add: closing_def close_left_def workers_left_def)

lemma closing_call:
  assumes "closing b" "dispatcher b = DLoop" "closing c" "close_left c = close_left b" "dispatcher c = DLoop"
  shows "close_left (handleControl ev c) \<le> close_left b \<and> state (handleControl ev c) = subscriptionClosing"
  using closing_handleControl [OF assms(3,5), of ev] assms(4) by simp

lemma closing_call_step:
  assumes "call_step ext b c" "closing b" "closeOnce b"
  shows "close_left c \<le> close_left b \<and> state c = subscriptionClosing"
  using assms(1)
proof (cases rule: call_step.cases)
  case (send r)
  then show ?thesis
    using closing_call [OF assms(2) send(3), of "set_call r CWait b"] closing_cong [OF assms(2), of "set_call r CWait b"]
    by (simp add: join_send_def set_call_def)
next
  case (cancel_deliver r)
  then show ?thesis
    using closing_handleControl [OF assms(2)]
    by (simp add: deliver_cancel_def Let_def close_left_def workers_left_def)
next
  case (leave i ack)
  then show ?thesis using closing_handleControl [OF assms(2)] by simp
next
  case (stop_sub ack)
  then show ?thesis using closing_handleControl [OF assms(2)] by simp
next
  case close
  then show ?thesis using assms(3) by simp
qed (use assms(2) in \<open>auto simp: caller_defs sub_stop_def close_left_def workers_left_def closing_def Let_def
      split: option.split list.split\<close>)

lemma closing_env_step:
  assumes "env_step b c" "closing b"
  shows "close_left c \<le> close_left b \<and> state c = subscriptionClosing"
  using assms
  by (cases rule: env_step.cases) (auto simp: close_left_def workers_left_def closing_def)


section \<open>Progress\<close>

lemma closing_live:
  assumes "core b" "state b = subscriptionClosing" "w < length (workers b)"
    "w_pc (workers b ! w) = WLoopCheck \<or> w_pc (workers b ! w) = WNext"
  shows "w_ctxDone (workers b ! w)"
proof -
  have "\<not> finished (workers b ! w)" using assms(4) by (auto simp: finished_def)
  then obtain ws x where "worker_ok b x" "workers b ! w = x"
    using live_index [OF assms(1,3)] by metis
  then show ?thesis using assms(2) by (simp add: worker_ok_def)
qed

text \<open>
  Where the live worker of a cancelled generation goes on by itself, without the dispatcher; where
  it waits for an activation, or has an event to send, it does not.
\<close>

fun moves_alone :: "workerPC \<Rightarrow> bool" where
  "moves_alone WSubscribe = True" | "moves_alone WCancelInactive = True" | "moves_alone WNext = True"
| "moves_alone (WQueue c) = True" | "moves_alone WLoopCheck = True" | "moves_alone (WCancel e) = True"
| "moves_alone pc = False"

lemma worker_moves_alone:
  assumes "moves_alone (w_pc (workers b ! w))"
    and ctx: "w_pc (workers b ! w) = WLoopCheck \<or> (\<exists>m. w_pc (workers b ! w) = WQueue m) \<Longrightarrow> w_ctxDone (workers b ! w)"
  shows "\<exists>pc. worker_step U w b (set_pc w pc b) \<and> pc_left pc < pc_left (w_pc (workers b ! w))"
proof (cases "w_pc (workers b ! w)")
  case WSubscribe
  then show ?thesis using worker_step.subscribe [of b w U None] by (intro exI [of _ "WSendStart None"]) simp
next
  case WCancelInactive
  then show ?thesis using worker_step.cancel_inactive [of b w U] by (intro exI [of _ WStopInactive]) simp
next
  case WNext
  then show ?thesis using worker_step.next_error [of b w U CtxCanceled]
    by (intro exI [of _ "WCancel (terminal_error (w_ctxDone (workers b ! w)) CtxCanceled)"]) simp
next
  case (WQueue m)
  then show ?thesis using worker_step.queue_cancelled [of b w m U] ctx by (intro exI [of _ WLoopCheck]) simp
next
  case WLoopCheck
  then show ?thesis using worker_step.loop_check [of b w U] ctx by (intro exI [of _ "WCancel None"]) simp
next
  case (WCancel e)
  then show ?thesis using worker_step.cancel [of b w e U] by (intro exI [of _ "WStop e"]) simp
qed (use assms(1) in simp_all)

lemma worker_activate_step:
  assumes "w_pc (workers b ! w) = WAwait" and "w_activation (workers b ! w) = [a]" and "w < length (workers b)"
  shows "worker_step U w b (worker_activate w b)"
    and "workers (worker_activate w b) ! w = (workers b ! w)\<lparr>w_activation := [], w_pc := (if a then WNext else WCancelInactive)\<rparr>"
  using assms worker_step.activate [of b w U] by (simp_all add: worker_activate_def)

text \<open>While the dispatcher runs, the live worker can take a step that counts.\<close>

lemma live_progress:
  assumes "core b" "state b = subscriptionClosing" "dispatcher b = DLoop" "workerCancel b = Some w"
  shows "\<exists>c. w < length (workers b) \<and> worker_step U w b c \<and> c \<noteq> b"
proof -
  obtain ws x where w: "workers b = ws @ [x]" "w = length ws" "worker_ok b x"
    using live_workerE [OF assms(1,4)] by metis
  then have x: "workers b ! w = x" "w < length (workers b)" by simp_all
  have pc: "pc_ok subscriptionClosing x" "w_ctxDone x" using w(3) assms(2) by (simp_all add: worker_ok_def)
  have smaller: "c \<noteq> b" if "close_left c < close_left b" for c using that by auto
  note b = core_closing [OF assms(1,2)]
  have sent: "handleControl ev (set_pc w pc b) \<noteq> b" if "pc_left pc < pc_left (w_pc x)" for ev pc
    using closing_send [OF b assms(3) x(2), of pc ev] that x(1) by auto
  show ?thesis
  proof (cases "moves_alone (w_pc x)")
    case True
    then obtain d where d: "worker_step U w b (set_pc w d b)" "pc_left d < pc_left (w_pc x)"
      using worker_moves_alone [of b w U] x(1) pc(2) by auto
    with closing_move [OF x(2), of d] smaller x show ?thesis by metis
  next
    case alone: False
    show ?thesis
    proof (cases "w_pc x")
      case (WSendStart err)
      then have "pc_left (if err = None then WAwait else WReturning) < pc_left (w_pc x)" by simp
      with WSendStart show ?thesis
        using x assms(3) worker_step.start [of b w err U]
          sent [of "if err = None then WAwait else WReturning" "StartResult (w_generation x) w err"]
        by (auto simp: worker_start_def)
    next
      case WAwait
      then obtain a where a: "w_activation x = [a]" using pc(1) by (auto simp: pc_ok_def)
      then have "w_pc (workers (worker_activate w b) ! w) \<noteq> WAwait"
        using worker_activate_step(2) [of b w a] WAwait x by simp
      then have "worker_activate w b \<noteq> b" using WAwait x(1) by auto
      with worker_activate_step(1) [of b w a U] a WAwait x show ?thesis by auto
    next
      case WStopInactive
      then show ?thesis
        using x assms(3) worker_step.stop_inactive [of b w U] sent [of WReturning "WorkerStopped (w_generation x) None"]
        by (auto simp: worker_stopped_def)
    next
      case (WStop e)
      then show ?thesis
        using x assms(3) worker_step.stopped [of b w e U] sent [of WReturning "WorkerStopped (w_generation x) e"]
        by (auto simp: worker_stopped_def)
    qed (use alone pc(1) in \<open>simp_all add: pc_ok_def\<close>)
  qed
qed

text \<open>When it waits for the workers, either one of them can end or it can finish.\<close>

lemma wait_progress:
  assumes "core b" "workerCancel b = None" "dispatcher b = DWait"
  shows "(\<exists>w c. w < length (workers b) \<and> worker_step U w b c \<and> c \<noteq> b) \<or> (\<exists>c. dispatcher_step b c)"
proof (cases "\<forall>x \<in> set (workers b). w_pc x = WDone")
  case True
  then show ?thesis using dispatcher_step.finish [OF assms(3)] by blast
next
  case False
  then obtain w where w: "w < length (workers b)" "w_pc (workers b ! w) \<noteq> WDone"
    by (auto simp: in_set_conv_nth)
  then have "finished (workers b ! w)" using assms(1,2) by (auto simp: core_def live_worker_def)
  then have r: "w_pc (workers b ! w) = WReturning" using w(2) by (simp add: finished_def)
  have "set_pc w WDone b \<noteq> b"
  proof
    assume "set_pc w WDone b = b"
    then have "w_pc (workers (set_pc w WDone b) ! w) = w_pc (workers b ! w)" by simp
    with w show False by (simp add: set_pc_def)
  qed
  then show ?thesis using worker_step.return [OF r, of U] w(1) by blast
qed

section \<open>Properties\<close>

text \<open>
  C5. Closing a box: once \<open>Close\<close> has been handled the box stays closing, and no step of anybody
  increases what is left to do. Every step of the dispatcher decreases it, and so does every step
  of a worker with one exception: the worker that is in \<open>Next\<close> may be given one more message that
  it cannot decode and skip it, which changes nothing. How often that happens is up to the
  library, as the code does not look at the context between two such messages; the context is
  cancelled by then, so \<open>Next\<close> can answer with an error each time, and that answer counts. Until
  the box is done a step that counts is possible, whatever state it was closed in; and no caller
  of a join is kept waiting, as each can return at once.
\<close>

theorem close_terminates:
  assumes "reach box_init (box_step U ext) b" and "state b = subscriptionClosing"
  shows "(\<forall>c. box_step U ext b c \<longrightarrow> state c = subscriptionClosing \<and> close_left c \<le> close_left b) \<and>
    (\<forall>c. dispatcher_step b c \<longrightarrow> close_left c < close_left b) \<and>
    (\<forall>w c. w < length (workers b) \<and> worker_step U w b c \<longrightarrow>
      close_left c < close_left b \<or>
      skips U w b c \<and> w_ctxDone (workers b ! w) \<and>
        (\<forall>err. \<exists>d. d = set_pc w (WCancel (terminal_error True err)) b \<and> worker_step U w b d \<and>
          close_left d < close_left b)) \<and>
    (\<not> boxDone b \<longrightarrow>
      (\<exists>c. ((\<exists>w < length (workers b). worker_step U w b c) \<or> dispatcher_step b c) \<and>
        close_left c < close_left b)) \<and>
    (\<forall>r. calls b r = CSend \<or> calls b r = CWait \<longrightarrow>
      (\<exists>c res. call_step ext b c \<and> calls c r = CReturned res))"
proof -
  have core: "core b" and link: "link b" using reach_core reach_link assms(1) by blast+
  note b = core_closing [OF core assms(2)]
  have once: "closeOnce b" "boxCtxDone b" using core link assms(2) by (simp_all add: link_def core_def)
  note live = closing_live [OF core assms(2)]
  have worker: "(skips U w b c \<or> close_left c < close_left b) \<and> state c = subscriptionClosing"
    if "w < length (workers b)" "worker_step U w b c" for w c
    using closing_worker_step [OF that(2,1) b live] that by blast
  then have run: "(c = b \<or> close_left c < close_left b) \<and> state c = subscriptionClosing"
    if "w < length (workers b) \<and> worker_step U w b c \<or> dispatcher_step b c" for w c
    using that closing_dispatcher_step [OF _ b] unfolding skips_def by blast
  have failing: "w_ctxDone (workers b ! w) \<and>
      worker_step U w b (set_pc w (WCancel (terminal_error True err)) b) \<and>
      close_left (set_pc w (WCancel (terminal_error True err)) b) < close_left b"
    if "w < length (workers b)" "w_pc (workers b ! w) = WNext" for w err
    using live [OF that(1)] that(2) worker_step.next_error [OF that(2), of U err]
      closing_move [OF that(1), of "WCancel (terminal_error True err)"] by simp
  have counts: "close_left c < close_left b \<or> skips U w b c \<and> w_ctxDone (workers b ! w) \<and>
      (\<forall>err. \<exists>d. d = set_pc w (WCancel (terminal_error True err)) b \<and> worker_step U w b d \<and>
        close_left d < close_left b)" if "w < length (workers b)" "worker_step U w b c" for w c
    using worker [OF that] failing [OF that(1)] unfolding skips_def by blast
  have any: "state c = subscriptionClosing \<and> close_left c \<le> close_left b" if "box_step U ext b c" for c
    using that
  proof (cases rule: box_step.cases)
    case box_call
    then show ?thesis using closing_call_step [OF _ b once(1)] by blast
  next
    case box_env
    then show ?thesis using closing_env_step [OF _ b] by blast
  qed (use run in \<open>auto dest: less_imp_le\<close>)
  have progress: "\<exists>c. ((\<exists>w < length (workers b). worker_step U w b c) \<or> dispatcher_step b c) \<and>
      close_left c < close_left b" if "\<not> boxDone b"
  proof (cases "dispatcher b")
    case DLoop
    then obtain w where "workerCancel b = Some w" using link assms(2) by (auto simp: link_def)
    then show ?thesis using live_progress [OF core assms(2) DLoop, of w U] run by blast
  next
    case DWait
    then have "workerCancel b = None" using link by (simp add: link_def)
    then show ?thesis
      using wait_progress [OF core _ DWait, of U] run closing_dispatcher_step [OF _ b] by blast
  qed (use that link in \<open>simp add: link_def\<close>)
  have answer: "\<exists>c res. call_step ext b c \<and> calls c r = CReturned res"
    if "calls b r = CSend \<or> calls b r = CWait" for r
  proof -
    have "call_step ext b (join_closed r b)"
      using that once(2) call_step.send_closed call_step.wait_closed by blast
    moreover have "calls (join_closed r b) r = join_error ErrBoxClosed"
      by (simp add: join_closed_def set_call_def)
    ultimately show ?thesis unfolding join_error_def by blast
  qed
  have "close_left c < close_left b" if "dispatcher_step b c" for c
    using closing_dispatcher_step [OF that b] by blast
  then show ?thesis using any counts progress answer by blast
qed


text \<open>The run of \<open>BoxRun\<close> after its close, with one more caller.\<close>

definition run_late :: Box where "run_late = join_enter 1 ''z'' 5 run14"

lemma run_late_facts:
  "state run_late = subscriptionClosing" "\<not> boxDone run_late" "calls run_late 2 = CSend"
  "w_pc (workers run_late ! 0) = WStop None" "length (workers run_late) = 1" "dispatcher run_late = DLoop"
  by (simp_all add: run_late_def run_defs numeral_2_eq_2)

lemma reach_run_late: "reach box_init (box_step U 1) run_late"
  unfolding run_late_def by (rule run_call [OF call_step.enter reach_run14])

theorem close_terminates_witness:
  "(\<exists>c. close_left c < close_left run_late) \<and> (\<exists>c res. call_step 1 run_late c \<and> calls c 2 = CReturned res) \<and>
   state (worker_stopped 0 None run_late) = subscriptionClosing \<and>
   worker_stopped 0 None run_late \<noteq> run_late"
proof -
  let ?U = "\<lambda>_. None"
  note t = close_terminates [OF reach_run_late [of ?U] run_late_facts(1)]
  have step: "worker_step ?U 0 run_late (worker_stopped 0 None run_late)"
    by (rule worker_step.stopped [OF run_late_facts(4,6)])
  then have "box_step ?U 1 run_late (worker_stopped 0 None run_late)"
    using run_late_facts(5) by (intro box_worker [of 0]) simp_all
  then have "state (worker_stopped 0 None run_late) = subscriptionClosing" using t by blast
  moreover have "worker_stopped 0 None run_late = run_late \<or>
      close_left (worker_stopped 0 None run_late) < close_left run_late"
    using t step run_late_facts(5) unfolding skips_def by (metis less_one)
  moreover have "w_pc (workers (worker_stopped 0 None run_late) ! 0) = WReturning"
    by (simp add: run_late_def run_defs numeral_2_eq_2)
  ultimately have "state (worker_stopped 0 None run_late) = subscriptionClosing"
    "worker_stopped 0 None run_late \<noteq> run_late" using run_late_facts(4) by auto
  moreover have "\<exists>c. close_left c < close_left run_late" using t run_late_facts(2) by blast
  moreover have "\<exists>c res. call_step 1 run_late c \<and> calls c 2 = CReturned res"
    using t run_late_facts(3) by blast
  ultimately show ?thesis by blast
qed

end
