(* ===== verification/BoxJoin.thy ===== *)
theory BoxJoin
  imports BoxClose
begin

text \<open>
  A join comes to an end: the steps of the box's own worker goroutines and of the caller are
  enough to get every call of \<open>JoinSubContext\<close> to its return, from every state of the box. A
  request that waits for a generation to stop waits for the end of its worker, and then for the
  start of the next one; a measure counts these steps.
\<close>

section \<open>The measure\<close>

definition join_left :: "Box \<Rightarrow> nat" where
  "join_left b =
     (if state b = subscriptionStopping then 20 else 0) + pc_left (w_pc (last (workers b)))"

lemma join_left_set_pc:
  assumes "workers b = ws @ [x]" and "w = length ws"
  shows "join_left (set_pc w pc b) = (if state b = subscriptionStopping then 20 else 0) + pc_left pc"
  using assms by (simp add: join_left_def set_pc_def)

declare calls_handleControl [simp]

lemma calls_worker_step: "worker_step U w b c \<Longrightarrow> calls c = calls b"
  by (cases rule: worker_step.cases, assumption)
    (auto simp: worker_start_def worker_stopped_def worker_activate_def enqueue_message_def set_pc_def
      frameD(5) [OF frame_handleMessage] split: list.split)

section \<open>The events of the live worker\<close>

text \<open>A start result answers every request that waits for it.\<close>

lemma start_answers:
  assumes "state b = subscriptionStarting" and "w_generation (workers b ! w) = generation b"
  shows "pending (worker_start w err b) = []"
proof -
  have s: "state (set_pc w pc b) = subscriptionStarting" "generation (set_pc w pc b) = generation b" for pc
    using assms(1) by (simp_all add: set_pc_def)
  have p: "pending (send_activation v a d) = pending d" for v a d by (simp add: send_activation_def)
  have "pending (handleControl ev d) = pending (dispatch ev d)" for ev d
    by (simp add: handleControl_def Let_def)
  then show ?thesis
    by (simp add: worker_start_def Let_def handleStartResult_def s p assms(2) failPending_eq admitPending_eq)
qed

text \<open>In a stopping generation a late start is told not to go on, and its end starts the next one.\<close>

lemma restart_left:
  assumes "state b = subscriptionStopping" and "pending b \<noteq> []"
    and "ev = WorkerStopped (generation b) e \<or> ev = StartResult (generation b) w (Some err)"
  shows "join_left (handleControl ev (set_pc w pc b)) = 10"
  using assms
  by (auto simp: handleControl_def Let_def handleWorkerStopped_def handleStartResult_def set_pc_def
      restartOrIdle_def startGeneration_def startWorker_def join_left_def)

lemma late_start_left:
  assumes "state b = subscriptionStopping" and "workers b = ws @ [x]" and "w_generation x = generation b"
  shows "join_left (worker_start (length ws) None b) = 28"
  using assms
  by (simp add: worker_start_def handleControl_def Let_def handleStartResult_def set_pc_def
      send_activation_def join_left_def)

text \<open>What the live worker can do while requests wait for it.\<close>

lemma starting_step:
  assumes "state b = subscriptionStarting" and x: "workers b = ws @ [x]" "w = length ws" "worker_ok b x"
    and "dispatcher b = DLoop"
  shows "\<exists>c. worker_step U w b c \<and> (pending c = [] \<or> join_left c < join_left b)"
proof -
  have w: "workers b ! w = x" "w_generation (workers b ! w) = generation b" "pc_ok subscriptionStarting x"
    using x assms(1) by (simp_all add: worker_ok_def)
  show ?thesis
  proof (cases "w_pc x")
    case WSubscribe
    then have "worker_step U w b (set_pc w (WSendStart None) b)" using worker_step.subscribe w(1) by blast
    moreover have "join_left (set_pc w (WSendStart None) b) < join_left b"
      using WSubscribe assms(1) x(1) join_left_set_pc [OF x(1,2), of "WSendStart None"]
      by (simp add: join_left_def [of b])
    ultimately show ?thesis by blast
  next
    case (WSendStart err)
    then have "worker_step U w b (worker_start w err b)" using worker_step.start w(1) assms(5) by blast
    with start_answers [OF assms(1) w(2)] show ?thesis by blast
  qed (use w(3) in \<open>simp_all add: pc_ok_def\<close>)
qed

lemma stopping_step:
  assumes st: "state b = subscriptionStopping" and pend: "pending b \<noteq> []"
    and w: "workers b = ws @ [x]" "w = length ws" "worker_ok b x" and loop: "dispatcher b = DLoop"
  shows "\<exists>c. worker_step U w b c \<and> join_left c < join_left b"
proof -
  have x: "workers b ! w = x" "w < length (workers b)" "pc_ok subscriptionStopping x" "w_generation x = generation b"
    "w_ctxDone x" using w st by (simp_all add: worker_ok_def)
  have left: "join_left b = 20 + pc_left (w_pc x)" using w(1) st by (simp add: join_left_def)
  have stop: ?thesis if "worker_step U w b (worker_stopped w e b)" for e
    using that left restart_left [OF st pend, of _ e w undefined WReturning]
    by (auto simp: worker_stopped_def x(1,4))
  show ?thesis
  proof (cases "moves_alone (w_pc x)")
    case True
    then obtain pc where "worker_step U w b (set_pc w pc b)" "pc_left pc < pc_left (w_pc x)"
      using worker_moves_alone [of b w U] x(1,5) by auto
    then show ?thesis using left st by (auto simp: join_left_set_pc [OF w(1,2)])
  next
    case alone: False
    show ?thesis
    proof (cases "w_pc x")
      case (WSendStart err)
      then have step: "worker_step U w b (worker_start w err b)" using worker_step.start x(1) loop by blast
      have "join_left (worker_start w err b) < join_left b"
      proof (cases err)
        case None
        then show ?thesis using late_start_left [OF st w(1) x(4)] left WSendStart w(2) by simp
      next
        case (Some e)
        then show ?thesis
          using restart_left [OF st pend, of _ None w e WReturning] left WSendStart by (simp add: worker_start_def x(1,4))
      qed
      with step show ?thesis by blast
    next
      case WAwait
      with x(3) obtain a where "w_activation x = [a]" by (auto simp: pc_ok_def)
      with WAwait have "join_left (worker_activate w b) < join_left b" "worker_step U w b (worker_activate w b)"
        using left w(1,2) worker_activate_step(1) [of b w a U] x(1,2)
        by (simp_all add: worker_activate_def join_left_def)
      then show ?thesis by blast
    next
      case WStopInactive
      then show ?thesis using stop worker_step.stop_inactive x(1) loop by blast
    next
      case (WStop e)
      then show ?thesis using stop worker_step.stopped x(1) loop by blast
    qed (use alone x(3) in \<open>simp_all add: pc_ok_def\<close>)
  qed
qed

text \<open>A request that has not been answered is answered by the next step, or comes nearer to it.\<close>

lemma join_comes_nearer:
  assumes core: "core b" and link: "link b" and r: "booked b r"
  shows "\<exists>w c. w < length (workers b) \<and> worker_step U w b c \<and> (\<not> booked c r \<or> join_left c < join_left b)"
proof -
  have pend: "pending b \<noteq> []" using r by (auto simp: booked_def)
  then have st: "state b = subscriptionStarting \<or> state b = subscriptionStopping" "workerCancel b \<noteq> None"
    using core by (auto simp: core_def shape_def split: subscriptionState.splits)
  then have loop: "dispatcher b = DLoop" using link by (auto simp: link_def)
  obtain ws x where w: "workers b = ws @ [x]" "worker_ok b x"
    using core st(2) by (auto simp: core_def live_worker_def)
  obtain c where "worker_step U (length ws) b c" "pending c = [] \<or> join_left c < join_left b"
    using st(1) starting_step [OF _ w(1) refl w(2) loop, of U] stopping_step [OF _ pend w(1) refl w(2) loop, of U]
    by blast
  moreover from this have "\<not> booked c r \<or> join_left c < join_left b" by (auto simp: booked_def)
  moreover have "length ws < length (workers b)" using w(1) by simp
  ultimately show ?thesis by blast
qed

section \<open>Every join returns\<close>

text \<open>Only the workers of the box and the caller \<open>r\<close> itself move.\<close>

definition join_progress ::
    "(bytes \<Rightarrow> TimestampedSignedMsgCapsule option) \<Rightarrow> nat \<Rightarrow> nat \<Rightarrow> Box \<Rightarrow> Box \<Rightarrow> bool" where
  "join_progress U ext r b c \<longleftrightarrow>
     (\<exists>w < length (workers b). worker_step U w b c) \<or> call_step ext b c \<and> calls c r \<noteq> calls b r"

lemma join_progress_step: "join_progress U ext r b c \<Longrightarrow> box_step U ext b c"
  by (auto simp: join_progress_def intro: box_step.intros)

lemma join_steps:
  "join_progress U ext r b c \<Longrightarrow> steps (join_progress U ext r) b c"
  "join_progress U ext r b c \<Longrightarrow> steps (join_progress U ext r) c d \<Longrightarrow> steps (join_progress U ext r) b d"
  by (rule steps_one, assumption) (rule steps.steps_step, assumption+)

lemma join_is_answered:
  assumes "reach box_init (box_step U ext) b" and "calls b r = CWait"
  shows "\<exists>c. steps (join_progress U ext r) b c \<and> calls c r = CWait \<and> replies c r \<noteq> []"
  using assms
proof (induction "join_left b" arbitrary: b rule: less_induct)
  case less
  show ?case
  proof (cases "booked b r")
    case False
    then show ?thesis using join_answered_once [OF less.prems] less.prems(2) by (auto intro: steps_refl)
  next
    case True
    obtain w c where step: "w < length (workers b)" "worker_step U w b c" "\<not> booked c r \<or> join_left c < join_left b"
      using join_comes_nearer [OF reach_core reach_link True] less.prems(1) by blast
    then have go: "join_progress U ext r b c" by (auto simp: join_progress_def)
    have c: "reach box_init (box_step U ext) c" "calls c r = CWait"
      using reach.reach_step [OF less.prems(1) join_progress_step [OF go]] calls_worker_step [OF step(2)] less.prems(2)
      by simp_all
    show ?thesis
    proof (cases "booked c r")
      case False
      then show ?thesis using join_answered_once [OF c] c(2) join_steps(1) [OF go] by auto
    next
      case True
      then show ?thesis using less.hyps [OF _ c] step(3) join_steps(2) [OF go] by blast
    qed
  qed
qed

lemma join_result_returns:
  assumes "replies b r = [x]" and "res_err x = None \<longrightarrow> res_subscriber x = Some r"
  shows "\<exists>res. calls (join_result r b) r = CReturned res \<and> (res_err res = None \<longrightarrow> res_subscriber res = Some r)"
  using assms by (auto simp: join_result_def Let_def set_call_def join_error_def spawn_cancel_def split: option.split)

lemma waiting_returns:
  assumes "reach box_init (box_step U ext) b" and "calls b r = CWait"
  shows "\<exists>c res. steps (join_progress U ext r) b c \<and> calls c r = CReturned res \<and>
    (res_err res = None \<longrightarrow> res_subscriber res = Some r)"
proof -
  obtain c where c: "steps (join_progress U ext r) b c" "calls c r = CWait" "replies c r \<noteq> []"
    using join_is_answered [OF assms] by blast
  have reach: "reach box_init (box_step U ext) c"
    by (rule steps_preserve [where P = "reach box_init (box_step U ext)", OF c(1) _ assms(1)]) (blast intro: reach.reach_step join_progress_step)
  obtain x where x: "replies c r = [x]" "res_err x = None \<longrightarrow> res_subscriber x = Some r"
    using join_answered_once [OF reach c(2)] c(3) by (auto split: if_splits)
  from join_result_returns [OF x] obtain res where res: "calls (join_result r c) r = CReturned res \<and>
    (res_err res = None \<longrightarrow> res_subscriber res = Some r)"
    by (rule exE)
  have "join_progress U ext r c (join_result r c)"
    using call_step.wait_reply [OF c(2,3)] c(2) res by (simp add: join_progress_def)
  then have "steps (join_progress U ext r) b (join_result r c)"
    by (intro steps_trans [OF c(1)] join_steps(1))
  then show ?thesis using res by (intro exI [of _ "join_result r c"] exI [of _ res] conjI) simp_all
qed

text \<open>
  C4. Every call of \<open>JoinSubContext\<close> can return: from every reachable state of the box, also one
  whose subscription is just being stopped or closed, the steps of the box's workers and of the
  caller itself lead to its return, with its own subscriber or with an error. No other caller
  has to leave, and no message has to arrive; the workers' calls of \<open>Subscribe\<close> and, once
  cancelled, \<open>Next\<close> come back.
\<close>

theorem join_returns:
  assumes "reach box_init (box_step U ext) b" and "calls b r = CSend \<or> calls b r = CWait"
  shows "\<exists>c res. steps (join_progress U ext r) b c \<and> calls c r = CReturned res \<and>
    (res_err res = None \<longrightarrow> res_subscriber res = Some r)"
proof (cases "calls b r = CSend")
  case True
  show ?thesis
  proof (cases "dispatcher b = DLoop")
    case loop: True
    have c: "calls (join_send r b) r = CWait" by (simp add: join_send_def set_call_def)
    have go: "join_progress U ext r b (join_send r b)"
      using call_step.send [OF True loop] True c by (simp add: join_progress_def)
    have "reach box_init (box_step U ext) (join_send r b)"
      by (rule reach.reach_step [OF assms(1) join_progress_step [OF go]])
    then obtain d res where d: "steps (join_progress U ext r) (join_send r b) d" "calls d r = CReturned res"
      "res_err res = None \<longrightarrow> res_subscriber res = Some r"
      using waiting_returns c by meson
    with join_steps(2) [OF go d(1)] show ?thesis by (intro exI [of _ d] exI [of _ res] conjI)
  next
    case False
    then have "state b = subscriptionClosing" using reach_link [OF assms(1)] by (simp add: link_def)
    then have "boxCtxDone b" using reach_core [OF assms(1)] by (simp add: core_def)
    then have "call_step ext b (join_closed r b)" using True call_step.send_closed by blast
    moreover have res: "calls (join_closed r b) r = CReturned \<lparr>res_subscriber = None, res_err = Some ErrBoxClosed\<rparr>"
      by (simp add: join_closed_def set_call_def join_error_def)
    ultimately have "join_progress U ext r b (join_closed r b)" using True by (simp add: join_progress_def)
    then have "steps (join_progress U ext r) b (join_closed r b)" by (rule join_steps(1))
    then show ?thesis
      by (rule_tac exI [of _ "join_closed r b"], rule_tac exI [of _ "\<lparr>res_subscriber = None, res_err = Some ErrBoxClosed\<rparr>"])
        (simp add: res)
  qed
next
  case False
  then show ?thesis using assms waiting_returns by blast
qed

theorem join_returns_witness:
  "\<exists>c res. steps (join_progress (\<lambda>_. None) 1 0) run2 c \<and> calls c 0 = CReturned res \<and>
     (res_err res = None \<longrightarrow> res_subscriber res = Some 0)"
proof (rule join_returns)
  show "reach box_init (box_step (\<lambda>_. None) 1) run2" by (rule reach_run2)
qed (simp add: run2_facts)

end
