(* ===== verification/Center.thy ===== *)
theory Center
  imports Subscriber "HOL-Library.Multiset"
begin

text \<open>
  \<open>msg/center.go\<close>: the registry of boxes. Every topic has at most one entry in the map; the
  goroutine that finds none creates the entry and the box, all others wait on the entry's
  \<open>ready\<close> channel; leaving and closing run the cleanup of an entry once, and waiters of a
  closing entry wait on its \<open>done\<close> channel. One rule of \<open>center_step\<close> is one critical
  section, one channel operation or one call of a goroutine. Entries and boxes are references;
  what the pubsub library and the box answer is left to the environment.

  Closing a closed channel panics in Go: the two counters of an entry record how often each
  of its channels is closed. The ghost fields for the creating goroutine, the closed box and
  the removed validator are written and never read by the code.
\<close>

section \<open>Creating a box\<close>

text \<open>
  \<open>createBox\<close> with the outcomes of the library calls as arguments, and the trace of the
  calls it makes. \<open>NewBox\<close> always succeeds (or panics, which ends the process).
\<close>

datatype ps_call =
    RegisterTopicValidator string
  | JoinTopic string
  | NewBox string nat
  | CloseTopic nat
  | UnregisterTopicValidator string

record ps_outcome =
  po_register :: "goerr option"
  po_join :: "goerr + nat"
  po_newBox :: "goerr + nat"

definition createBox :: "ps_outcome \<Rightarrow> string \<Rightarrow> (goerr + nat) \<times> ps_call list" where
  "createBox P topicID =
     (case po_register P of
        Some err \<Rightarrow> (Inl err, [RegisterTopicValidator topicID])
      | None \<Rightarrow>
          (case po_join P of
             Inl err \<Rightarrow>
               (Inl err, [RegisterTopicValidator topicID, JoinTopic topicID,
                          UnregisterTopicValidator topicID])
           | Inr topic \<Rightarrow>
               (case po_newBox P of
                  Inl err \<Rightarrow>
                    (Inl err, [RegisterTopicValidator topicID, JoinTopic topicID,
                       NewBox topicID topic, CloseTopic topic, UnregisterTopicValidator topicID])
                | Inr box \<Rightarrow>
                    (Inr box, [RegisterTopicValidator topicID, JoinTopic topicID,
                       NewBox topicID topic]))))"

section \<open>State\<close>

datatype once = OnceNew | OnceRunning nat | OnceDone

record topicEntry =
  en_topic :: string
  en_ready :: bool
  en_done :: bool
  en_box :: "nat option"
  en_err :: "goerr option"
  en_cleanupOnce :: once
  en_cleanupErr :: "goerr option"
  en_closing :: bool
  en_readyCloses :: nat
  en_doneCloses :: nat
  en_creator :: nat
  en_boxClosed :: bool
  en_unregistered :: bool

definition new_entry :: "string \<Rightarrow> nat \<Rightarrow> topicEntry" where
  "new_entry topicID t =
     \<lparr>en_topic = topicID, en_ready = False, en_done = False, en_box = None, en_err = None,
      en_cleanupOnce = OnceNew, en_cleanupErr = None, en_closing = False,
      en_readyCloses = 0, en_doneCloses = 0, en_creator = t, en_boxClosed = False,
      en_unregistered = False\<rparr>"

definition close_ready :: "topicEntry \<Rightarrow> topicEntry" where
  "close_ready x = x\<lparr>en_ready := True, en_readyCloses := Suc (en_readyCloses x)\<rparr>"

definition close_done :: "topicEntry \<Rightarrow> topicEntry" where
  "close_done x = x\<lparr>en_done := True, en_doneCloses := Suc (en_doneCloses x)\<rparr>"

text \<open>
  Where a goroutine stands. \<open>G\<close>: in \<open>GetBox\<close>, before its first critical section, creating,
  recording what it created, waiting for \<open>ready\<close>, for \<open>done\<close>, at the final \<open>select\<close>.
  \<open>L\<close>: in \<open>LeaveBox\<close>. \<open>K\<close>: in \<open>cleanupEntry\<close>, before its critical section, at the once, and
  as the goroutine that runs the once: waiting for \<open>ready\<close>, closing the box, removing the
  validator, deleting the entry, closing \<open>done\<close>; waiting for \<open>done\<close>. \<open>X\<close>: in \<open>Close\<close>.
\<close>

datatype cpc =
    CIdle
  | GLock string
  | GCreate string nat
  | GCreated string nat "goerr + nat"
  | GReady string nat
  | GDone string nat
  | GSelect string nat
  | GReturned "nat option" "goerr option"
  | LLock string
  | KLock string nat
  | KOnce string nat
  | KReady string nat
  | KBoxClose string nat
  | KUnregister string nat "goerr option"
  | KDelete string nat
  | KCloseDone string nat
  | KWait string nat
  | KReturned "goerr option"
  | XOnce
  | XWait "nat list"
  | XReturned "goerr option"

record Center =
  entries :: "(string \<times> nat) list"
  cn_closed :: bool
  cn_closeOnce :: once
  cn_closeErr :: "goerr option"
  heap :: "nat \<Rightarrow> topicEntry"
  nextEntry :: nat
  tasks :: "nat \<Rightarrow> cpc"
  nextTask :: nat

definition NewCenter :: Center where
  "NewCenter =
     \<lparr>entries = [], cn_closed = False, cn_closeOnce = OnceNew, cn_closeErr = None,
      heap = (\<lambda>_. new_entry [] 0), nextEntry = 0, tasks = (\<lambda>_. CIdle), nextTask = 0\<rparr>"

definition go :: "nat \<Rightarrow> cpc \<Rightarrow> Center \<Rightarrow> Center" where
  "go t pc c = c\<lparr>tasks := (tasks c)(t := pc)\<rparr>"

definition set_entry :: "nat \<Rightarrow> topicEntry \<Rightarrow> Center \<Rightarrow> Center" where
  "set_entry e x c = c\<lparr>heap := (heap c)(e := x)\<rparr>"

section \<open>GetBox\<close>

text \<open>The first critical section: refuse, create an entry, or follow the existing one.\<close>

definition get_lookup :: "nat \<Rightarrow> string \<Rightarrow> Center \<Rightarrow> Center" where
  "get_lookup t topicID c =
     (if cn_closed c then go t (GReturned None (Some ErrCenterClosed)) c
      else
        (case map_of (entries c) topicID of
           None \<Rightarrow>
             let e = nextEntry c;
                 c = set_entry e (new_entry topicID t) c;
                 c = c\<lparr>entries := AList.update topicID e (entries c), nextEntry := Suc e\<rparr>
             in go t (GCreate topicID e) c
         | Some e \<Rightarrow> go t (GReady topicID e) c))"

text \<open>The second critical section, of the creating goroutine.\<close>

definition get_record :: "nat \<Rightarrow> string \<Rightarrow> nat \<Rightarrow> goerr + nat \<Rightarrow> Center \<Rightarrow> Center" where
  "get_record t topicID e res c =
     (let box = (case res of Inl _ \<Rightarrow> None | Inr b \<Rightarrow> Some b);
          err = (case res of Inl er \<Rightarrow> Some er | Inr _ \<Rightarrow> None);
          x = close_ready ((heap c e)\<lparr>en_box := box, en_err := err\<rparr>);
          c = set_entry e x c;
          c = (if err \<noteq> None \<and> \<not> en_closing x then
                 set_entry e (close_done (x\<lparr>en_cleanupErr := err\<rparr>))
                   (if map_of (entries c) topicID = Some e
                    then c\<lparr>entries := AList.delete topicID (entries c)\<rparr> else c)
               else c)
      in go t (GReturned box err) c)"

definition get_ready :: "nat \<Rightarrow> string \<Rightarrow> nat \<Rightarrow> Center \<Rightarrow> Center" where
  "get_ready t topicID e c =
     go t (if en_closing (heap c e) then GDone topicID e else GSelect topicID e) c"

definition get_done :: "nat \<Rightarrow> string \<Rightarrow> nat \<Rightarrow> Center \<Rightarrow> Center" where
  "get_done t topicID e c =
     (if en_cleanupErr (heap c e) \<noteq> None
      then go t (GReturned None (en_cleanupErr (heap c e))) c else go t (GLock topicID) c)"

definition get_select :: "nat \<Rightarrow> string \<Rightarrow> nat \<Rightarrow> Center \<Rightarrow> Center" where
  "get_select t topicID e c =
     (if en_done (heap c e)
      then if en_err (heap c e) \<noteq> None then go t (GReturned None (en_err (heap c e))) c
           else go t (GLock topicID) c
      else go t (GReturned (en_box (heap c e)) (en_err (heap c e))) c)"

section \<open>cleanupEntry, LeaveBox\<close>

definition leave_lookup :: "nat \<Rightarrow> string \<Rightarrow> Center \<Rightarrow> Center" where
  "leave_lookup t topicID c =
     (case map_of (entries c) topicID of
        None \<Rightarrow>
          go t (KReturned (Some (Errorf (''failed to find msg box with topic id '' @
            [CHR 0x27] @ ''%s'' @ [CHR 0x27]) [topicID]))) c
      | Some e \<Rightarrow> go t (KLock topicID e) c)"

definition cleanup_lock :: "nat \<Rightarrow> string \<Rightarrow> nat \<Rightarrow> Center \<Rightarrow> Center" where
  "cleanup_lock t topicID e c =
     (if en_done (heap c e) then go t (KReturned (en_cleanupErr (heap c e))) c
      else go t (KOnce topicID e) (set_entry e ((heap c e)\<lparr>en_closing := True\<rparr>) c))"

definition cleanup_once :: "nat \<Rightarrow> string \<Rightarrow> nat \<Rightarrow> Center \<Rightarrow> Center" where
  "cleanup_once t topicID e c =
     (case en_cleanupOnce (heap c e) of
        OnceNew \<Rightarrow>
          go t (KReady topicID e)
            (set_entry e ((heap c e)\<lparr>en_cleanupOnce := OnceRunning t\<rparr>) c)
      | OnceRunning _ \<Rightarrow> c
      | OnceDone \<Rightarrow> go t (KWait topicID e) c)"

definition cleanup_ready :: "nat \<Rightarrow> string \<Rightarrow> nat \<Rightarrow> Center \<Rightarrow> Center" where
  "cleanup_ready t topicID e c =
     (if en_box (heap c e) \<noteq> None then go t (KBoxClose topicID e) c
      else go t (KDelete topicID e)
             (set_entry e ((heap c e)\<lparr>en_cleanupErr := en_err (heap c e)\<rparr>) c))"

text \<open>\<open>errors.Join\<close> of the two results, the first recorded when \<open>box.Close\<close> returns.\<close>

definition cleanup_boxClose :: "nat \<Rightarrow> string \<Rightarrow> nat \<Rightarrow> goerr option \<Rightarrow> Center \<Rightarrow> Center" where
  "cleanup_boxClose t topicID e err1 c =
     go t (KUnregister topicID e err1) (set_entry e ((heap c e)\<lparr>en_boxClosed := True\<rparr>) c)"

definition cleanup_unregister ::
    "nat \<Rightarrow> string \<Rightarrow> nat \<Rightarrow> goerr option \<Rightarrow> goerr option \<Rightarrow> Center \<Rightarrow> Center" where
  "cleanup_unregister t topicID e err1 err2 c =
     go t (KDelete topicID e)
       (set_entry e ((heap c e)\<lparr>en_cleanupErr := errors_Join [err1, err2],
          en_unregistered := (err2 = None)\<rparr>) c)"

definition cleanup_delete :: "nat \<Rightarrow> string \<Rightarrow> nat \<Rightarrow> Center \<Rightarrow> Center" where
  "cleanup_delete t topicID e c =
     go t (KCloseDone topicID e)
       (if map_of (entries c) topicID = Some e \<and> en_cleanupErr (heap c e) = None
        then c\<lparr>entries := AList.delete topicID (entries c)\<rparr> else c)"

text \<open>The last statement of the once, after which it has run.\<close>

definition cleanup_closeDone :: "nat \<Rightarrow> string \<Rightarrow> nat \<Rightarrow> Center \<Rightarrow> Center" where
  "cleanup_closeDone t topicID e c =
     (let x = heap c e;
          x = (if en_done x then x else close_done x)
      in go t (KWait topicID e) (set_entry e (x\<lparr>en_cleanupOnce := OnceDone\<rparr>) c))"

definition cleanup_wait :: "nat \<Rightarrow> string \<Rightarrow> nat \<Rightarrow> Center \<Rightarrow> Center" where
  "cleanup_wait t topicID e c = go t (KReturned (en_cleanupErr (heap c e))) c"

section \<open>Close\<close>

text \<open>
  The first caller marks the centre closed, copies the map and starts one cleaning goroutine
  for each entry; when all have returned, the errors are joined in the order in which they
  were sent, which is any order.
\<close>

definition close_start :: "nat \<Rightarrow> Center \<Rightarrow> Center" where
  "close_start t c =
     (let c = c\<lparr>cn_closeOnce := OnceRunning t, cn_closed := True\<rparr>;
          n = nextTask c;
          ks = [n..<n + length (entries c)];
          c = c\<lparr>tasks := (\<lambda>k. if n \<le> k \<and> k < n + length (entries c)
                  then KLock (fst (entries c ! (k - n))) (snd (entries c ! (k - n)))
                  else tasks c k),
                nextTask := n + length (entries c)\<rparr>
      in go t (XWait ks) c)"

definition collect :: "goerr list \<Rightarrow> goerr option" where
  "collect errs = fold (\<lambda>err acc. errors_Join [acc, Some err]) errs None"

definition returned_errs :: "Center \<Rightarrow> nat list \<Rightarrow> goerr list" where
  "returned_errs c ks =
     List.map_filter (\<lambda>k. case tasks c k of KReturned err \<Rightarrow> err | _ \<Rightarrow> None) ks"

definition close_finish :: "nat \<Rightarrow> goerr list \<Rightarrow> Center \<Rightarrow> Center" where
  "close_finish t errs c =
     go t (XReturned (collect errs)) (c\<lparr>cn_closeErr := collect errs, cn_closeOnce := OnceDone\<rparr>)"

section \<open>The step relation\<close>

inductive center_step :: "Center \<Rightarrow> Center \<Rightarrow> bool" where
  call_get: "center_step c (go (nextTask c) (GLock topicID) (c\<lparr>nextTask := Suc (nextTask c)\<rparr>))"
| call_leave: "center_step c (go (nextTask c) (LLock topicID) (c\<lparr>nextTask := Suc (nextTask c)\<rparr>))"
| call_close: "center_step c (go (nextTask c) XOnce (c\<lparr>nextTask := Suc (nextTask c)\<rparr>))"
| get_lookup: "tasks c t = GLock topicID \<Longrightarrow> center_step c (get_lookup t topicID c)"
| get_create: "tasks c t = GCreate topicID e \<Longrightarrow>
    center_step c (go t (GCreated topicID e (fst (createBox P topicID))) c)"
| get_record: "tasks c t = GCreated topicID e res \<Longrightarrow> center_step c (get_record t topicID e res c)"
| get_ready: "tasks c t = GReady topicID e \<Longrightarrow> en_ready (heap c e) \<Longrightarrow>
    center_step c (get_ready t topicID e c)"
| get_done: "tasks c t = GDone topicID e \<Longrightarrow> en_done (heap c e) \<Longrightarrow>
    center_step c (get_done t topicID e c)"
| get_select: "tasks c t = GSelect topicID e \<Longrightarrow> center_step c (get_select t topicID e c)"
| leave_lookup: "tasks c t = LLock topicID \<Longrightarrow> center_step c (leave_lookup t topicID c)"
| cleanup_lock: "tasks c t = KLock topicID e \<Longrightarrow> center_step c (cleanup_lock t topicID e c)"
| cleanup_once: "tasks c t = KOnce topicID e \<Longrightarrow> center_step c (cleanup_once t topicID e c)"
| cleanup_ready: "tasks c t = KReady topicID e \<Longrightarrow> en_ready (heap c e) \<Longrightarrow>
    center_step c (cleanup_ready t topicID e c)"
| cleanup_boxClose: "tasks c t = KBoxClose topicID e \<Longrightarrow>
    center_step c (cleanup_boxClose t topicID e err1 c)"
| cleanup_unregister: "tasks c t = KUnregister topicID e err1 \<Longrightarrow>
    center_step c (cleanup_unregister t topicID e err1 err2 c)"
| cleanup_delete: "tasks c t = KDelete topicID e \<Longrightarrow> center_step c (cleanup_delete t topicID e c)"
| cleanup_closeDone: "tasks c t = KCloseDone topicID e \<Longrightarrow>
    center_step c (cleanup_closeDone t topicID e c)"
| cleanup_wait: "tasks c t = KWait topicID e \<Longrightarrow> en_done (heap c e) \<Longrightarrow>
    center_step c (cleanup_wait t topicID e c)"
| close_start: "tasks c t = XOnce \<Longrightarrow> cn_closeOnce c = OnceNew \<Longrightarrow> center_step c (close_start t c)"
| close_again: "tasks c t = XOnce \<Longrightarrow> cn_closeOnce c = OnceDone \<Longrightarrow>
    center_step c (go t (XReturned (cn_closeErr c)) c)"
| close_finish: "tasks c t = XWait ks \<Longrightarrow> \<forall>k \<in> set ks. \<exists>err. tasks c k = KReturned err \<Longrightarrow>
    mset errs = mset (returned_errs c ks) \<Longrightarrow> center_step c (close_finish t errs c)"

inductive_cases center_stepE: "center_step c d"

lemmas get_defs = get_lookup_def get_record_def get_ready_def get_done_def get_select_def
lemmas cleanup_defs = leave_lookup_def cleanup_lock_def cleanup_once_def cleanup_ready_def
  cleanup_boxClose_def cleanup_unregister_def cleanup_delete_def cleanup_closeDone_def
  cleanup_wait_def
lemmas center_close_defs = close_start_def close_finish_def
lemmas entry_defs = set_entry_def go_def close_ready_def close_done_def

end
