(* ===== verification/CenterInv.thy ===== *)
theory CenterInv
  imports Center
begin

text \<open>
  The invariant of the registry: for every entry the agreement of its channels, its once and
  its result with the goroutines that work on it; for every goroutine what it may rely on at
  its position; and the state of \<open>Close\<close>.
\<close>

section \<open>Positions\<close>

fun refers :: "cpc \<Rightarrow> (string \<times> nat) option" where
  "refers (GCreate tp e) = Some (tp, e)" | "refers (GCreated tp e _) = Some (tp, e)"
| "refers (GReady tp e) = Some (tp, e)" | "refers (GDone tp e) = Some (tp, e)"
| "refers (GSelect tp e) = Some (tp, e)" | "refers (KLock tp e) = Some (tp, e)"
| "refers (KOnce tp e) = Some (tp, e)" | "refers (KReady tp e) = Some (tp, e)"
| "refers (KBoxClose tp e) = Some (tp, e)" | "refers (KUnregister tp e _) = Some (tp, e)"
| "refers (KDelete tp e) = Some (tp, e)" | "refers (KCloseDone tp e) = Some (tp, e)"
| "refers (KWait tp e) = Some (tp, e)" | "refers _ = None"

fun creates :: "cpc \<Rightarrow> nat option" where
  "creates (GCreate tp e) = Some e" | "creates (GCreated tp e _) = Some e" | "creates _ = None"

text \<open>The goroutine that runs the once of an entry.\<close>

fun runs :: "cpc \<Rightarrow> nat option" where
  "runs (KReady tp e) = Some e" | "runs (KBoxClose tp e) = Some e"
| "runs (KUnregister tp e _) = Some e" | "runs (KDelete tp e) = Some e"
| "runs (KCloseDone tp e) = Some e" | "runs _ = None"

fun at_once :: "cpc \<Rightarrow> nat option" where
  "at_once (KOnce tp e) = Some e" | "at_once _ = None"

text \<open>The entry a cleaning goroutine has not returned from yet.\<close>

fun cleaning :: "cpc \<Rightarrow> nat option" where
  "cleaning (KLock tp e) = Some e" | "cleaning (KOnce tp e) = Some e"
| "cleaning (KWait tp e) = Some e" | "cleaning pc = runs pc"

fun in_cleanup :: "cpc \<Rightarrow> bool" where
  "in_cleanup (KReturned _) = True" | "in_cleanup pc = (cleaning pc \<noteq> None)"

fun waiting :: "cpc \<Rightarrow> nat list option" where
  "waiting (XWait ks) = Some ks" | "waiting _ = None"

lemma refers_kinds:
  "creates pc = Some e \<Longrightarrow> \<exists>tp. refers pc = Some (tp, e)"
  "runs pc = Some e \<Longrightarrow> \<exists>tp. refers pc = Some (tp, e)"
  "at_once pc = Some e \<Longrightarrow> \<exists>tp. refers pc = Some (tp, e)"
  by (cases pc; simp)+

section \<open>The invariant\<close>

definition mapped :: "Center \<Rightarrow> nat \<Rightarrow> bool" where
  "mapped c e \<longleftrightarrow> map_of (entries c) (en_topic (heap c e)) = Some e"

text \<open>Nothing of the entry is left open: creation failed, or box and validator are gone.\<close>

definition disposed :: "topicEntry \<Rightarrow> bool" where
  "disposed x \<longleftrightarrow> en_ready x \<and>
     (if en_box x = None then en_err x \<noteq> None else en_boxClosed x \<and> en_unregistered x)"

definition entry_ok :: "Center \<Rightarrow> nat \<Rightarrow> bool" where
  "entry_ok c e \<longleftrightarrow> (let x = heap c e in
     en_readyCloses x = of_bool (en_ready x) \<and> en_doneCloses x = of_bool (en_done x) \<and>
     (\<not> en_ready x \<longrightarrow> creates (tasks c (en_creator x)) = Some e) \<and>
     (en_ready x \<longrightarrow> (en_box x = None \<longleftrightarrow> en_err x \<noteq> None)) \<and>
     (en_done x \<longrightarrow> en_ready x) \<and>
     (\<forall>t. en_cleanupOnce x = OnceRunning t \<longrightarrow>
        runs (tasks c t) = Some e \<and> en_closing x \<and> \<not> en_done x) \<and>
     (en_cleanupOnce x = OnceDone \<longrightarrow> en_done x \<and> en_closing x \<and>
        (en_box x \<noteq> None \<longrightarrow> en_boxClosed x) \<and> (mapped c e \<longrightarrow> en_cleanupErr x \<noteq> None)) \<and>
     (en_closing x \<and> en_cleanupOnce x = OnceNew \<longrightarrow>
        \<not> en_done x \<and> (\<exists>t. at_once (tasks c t) = Some e)) \<and>
     (en_done x \<and> \<not> en_closing x \<longrightarrow>
        en_err x \<noteq> None \<and> en_cleanupErr x = en_err x \<and> \<not> mapped c e) \<and>
     (en_cleanupOnce x = OnceNew \<and> \<not> en_done x \<longrightarrow> mapped c e) \<and>
     (\<not> mapped c e \<longrightarrow> disposed x))"

text \<open>What a goroutine relies on at its position.\<close>

fun relies :: "cpc \<Rightarrow> bool \<Rightarrow> topicEntry \<Rightarrow> bool" where
  "relies (GDone tp e) m x \<longleftrightarrow> en_closing x \<and> en_ready x"
| "relies (GSelect tp e) m x \<longleftrightarrow> en_ready x"
| "relies (KOnce tp e) m x \<longleftrightarrow> en_closing x"
| "relies (KReady tp e) m x \<longleftrightarrow> m"
| "relies (KBoxClose tp e) m x \<longleftrightarrow> m \<and> en_ready x \<and> en_box x \<noteq> None"
| "relies (KUnregister tp e _) m x \<longleftrightarrow> m \<and> en_ready x \<and> en_box x \<noteq> None \<and> en_boxClosed x"
| "relies (KDelete tp e) m x \<longleftrightarrow> m \<and> en_ready x \<and> (en_box x \<noteq> None \<longrightarrow> en_boxClosed x) \<and>
     (en_cleanupErr x = None \<longrightarrow> disposed x \<and> en_box x \<noteq> None)"
| "relies (KCloseDone tp e) m x \<longleftrightarrow> en_ready x \<and> (en_box x \<noteq> None \<longrightarrow> en_boxClosed x) \<and>
     (m \<longrightarrow> en_cleanupErr x \<noteq> None)"
| "relies (KWait tp e) m x \<longleftrightarrow> en_done x \<and> en_closing x"
| "relies _ m x \<longleftrightarrow> True"

definition task_ok :: "Center \<Rightarrow> nat \<Rightarrow> bool" where
  "task_ok c t \<longleftrightarrow>
     (nextTask c \<le> t \<longrightarrow> tasks c t = CIdle) \<and>
     (\<forall>tp e. refers (tasks c t) = Some (tp, e) \<longrightarrow>
        e < nextEntry c \<and> en_topic (heap c e) = tp \<and>
        relies (tasks c t) (mapped c e) (heap c e)) \<and>
     (\<forall>e. creates (tasks c t) = Some e \<longrightarrow> en_creator (heap c e) = t \<and> \<not> en_ready (heap c e)) \<and>
     (\<forall>e. runs (tasks c t) = Some e \<longrightarrow> en_cleanupOnce (heap c e) = OnceRunning t) \<and>
     (waiting (tasks c t) \<noteq> None \<longrightarrow> cn_closeOnce c = OnceRunning t)"

definition map_ok :: "Center \<Rightarrow> bool" where
  "map_ok c \<longleftrightarrow> distinct (keys (entries c)) \<and>
     (\<forall>(tp, e) \<in> set (entries c). e < nextEntry c \<and> en_topic (heap c e) = tp)"

definition close_ok :: "Center \<Rightarrow> bool" where
  "close_ok c \<longleftrightarrow>
     (cn_closed c \<longleftrightarrow> cn_closeOnce c \<noteq> OnceNew) \<and>
     (\<forall>t. cn_closeOnce c = OnceRunning t \<longrightarrow>
        (\<exists>ks. waiting (tasks c t) = Some ks \<and> (\<forall>k \<in> set ks. in_cleanup (tasks c k)) \<and>
          (\<forall>e \<in> snd ` set (entries c). en_done (heap c e) \<or>
             (\<exists>k \<in> set ks. cleaning (tasks c k) = Some e)))) \<and>
     (cn_closeOnce c = OnceDone \<longrightarrow> (\<forall>e \<in> snd ` set (entries c). en_done (heap c e)))"

definition center_inv :: "Center \<Rightarrow> bool" where
  "center_inv c \<longleftrightarrow> map_ok c \<and> close_ok c \<and> (\<forall>e < nextEntry c. entry_ok c e) \<and> (\<forall>t. task_ok c t)"

section \<open>A step of one goroutine on one entry\<close>

text \<open>How an entry may change, and what only the runner of its once may change.\<close>

definition grows :: "topicEntry \<Rightarrow> topicEntry \<Rightarrow> bool" where
  "grows y x \<longleftrightarrow> en_topic x = en_topic y \<and> en_creator x = en_creator y \<and>
     (en_closing y \<longrightarrow> en_closing x) \<and> (en_done y \<longrightarrow> en_done x) \<and>
     (en_ready y \<longrightarrow> en_ready x \<and> en_box x = en_box y \<and> en_err x = en_err y)"

definition calm :: "topicEntry \<Rightarrow> topicEntry \<Rightarrow> bool" where
  "calm y x \<longleftrightarrow> en_cleanupOnce x = en_cleanupOnce y \<and> en_boxClosed x = en_boxClosed y \<and>
     en_unregistered x = en_unregistered y \<and> en_cleanupErr x = en_cleanupErr y"

lemma grows_refl [simp]: "grows x x" and calm_refl [simp]: "calm x x"
  by (simp_all add: grows_def calm_def)

lemma disposed_grows: "disposed y \<Longrightarrow> grows y x \<Longrightarrow> calm y x \<Longrightarrow> disposed x"
  by (auto simp: disposed_def grows_def calm_def split: if_splits)

lemma relies_grows:
  assumes "relies pc m y" "grows y x" "runs pc \<noteq> None \<Longrightarrow> calm y x \<and> m' = m" "m' \<longrightarrow> m"
  shows "relies pc m' x"
  using assms
  by (cases pc) (auto simp: grows_def calm_def disposed_def split: if_splits)

text \<open>
  Goroutine \<open>t\<close> moves to \<open>pc\<close>, entry \<open>e\<close> becomes \<open>x\<close>, and \<open>e\<close> may leave the map. What is
  left to show concerns the goroutine and the entry only.
\<close>

definition act :: "nat \<Rightarrow> cpc \<Rightarrow> nat \<Rightarrow> topicEntry \<Rightarrow> bool \<Rightarrow> Center \<Rightarrow> Center" where
  "act t pc e x del c =
     go t pc (set_entry e x
       (if del then c\<lparr>entries := AList.delete (en_topic x) (entries c)\<rparr> else c))"

lemma act_simps [simp]:
  "tasks (act t pc e x del c) = (tasks c)(t := pc)" "heap (act t pc e x del c) = (heap c)(e := x)"
  "nextEntry (act t pc e x del c) = nextEntry c" "nextTask (act t pc e x del c) = nextTask c"
  "cn_closed (act t pc e x del c) = cn_closed c" "cn_closeOnce (act t pc e x del c) = cn_closeOnce c"
  "entries (act t pc e x del c) =
     (if del then AList.delete (en_topic x) (entries c) else entries c)"
  by (simp_all add: act_def go_def set_entry_def)

lemma center_invD:
  assumes "center_inv c"
  shows "map_ok c" "close_ok c" "e < nextEntry c \<Longrightarrow> entry_ok c e" "task_ok c t"
  using assms by (simp_all add: center_inv_def)

lemma mapped_act:
  assumes "map_ok c" "e < nextEntry c" "en_topic x = en_topic (heap c e)" "e' \<noteq> e"
    and "del \<Longrightarrow> mapped c e"
  shows "mapped (act t pc e x del c) e' = mapped c e'"
  using assms by (auto simp: mapped_def map_of_delete delete_conv)

lemma mapped_act_self:
  assumes "map_ok c" "en_topic x = en_topic (heap c e)"
  shows "mapped (act t pc e x del c) e \<longleftrightarrow> mapped c e \<and> \<not> del"
  using assms by (auto simp: mapped_def map_of_delete delete_conv)

text \<open>The clauses of an entry one by one, and an entry that does not change.\<close>

lemma entry_okI:
  assumes "heap c e = x"
    and "en_readyCloses x = of_bool (en_ready x)" "en_doneCloses x = of_bool (en_done x)"
    and "\<not> en_ready x \<Longrightarrow> creates (tasks c (en_creator x)) = Some e"
    and "en_ready x \<Longrightarrow> en_box x = None \<longleftrightarrow> en_err x \<noteq> None"
    and "en_done x \<Longrightarrow> en_ready x"
    and "\<And>t. en_cleanupOnce x = OnceRunning t \<Longrightarrow>
      runs (tasks c t) = Some e \<and> en_closing x \<and> \<not> en_done x"
    and "en_cleanupOnce x = OnceDone \<Longrightarrow> en_done x \<and> en_closing x \<and>
      (en_box x \<noteq> None \<longrightarrow> en_boxClosed x) \<and> (mapped c e \<longrightarrow> en_cleanupErr x \<noteq> None)"
    and "en_closing x \<Longrightarrow> en_cleanupOnce x = OnceNew \<Longrightarrow> \<not> en_done x"
    and "en_closing x \<Longrightarrow> en_cleanupOnce x = OnceNew \<Longrightarrow> \<exists>t. at_once (tasks c t) = Some e"
    and "en_done x \<Longrightarrow> \<not> en_closing x \<Longrightarrow>
      en_err x \<noteq> None \<and> en_cleanupErr x = en_err x \<and> \<not> mapped c e"
    and "en_cleanupOnce x = OnceNew \<Longrightarrow> \<not> en_done x \<Longrightarrow> mapped c e"
    and "\<not> mapped c e \<Longrightarrow> disposed x"
  shows "entry_ok c e"
  unfolding entry_ok_def assms(1) Let_def using assms(2-) by (intro conjI impI allI) blast+

lemma entry_okD:
  assumes "entry_ok c e"
  shows "\<not> en_ready (heap c e) \<Longrightarrow> creates (tasks c (en_creator (heap c e))) = Some e"
    and "en_cleanupOnce (heap c e) = OnceRunning t \<Longrightarrow>
      runs (tasks c t) = Some e \<and> en_closing (heap c e) \<and> \<not> en_done (heap c e)"
    and "en_closing (heap c e) \<Longrightarrow> en_cleanupOnce (heap c e) = OnceNew \<Longrightarrow>
      \<exists>t. at_once (tasks c t) = Some e"
    and "\<not> mapped c e \<Longrightarrow> disposed (heap c e)"
    and "en_cleanupOnce (heap c e) = OnceNew \<Longrightarrow> \<not> en_done (heap c e) \<Longrightarrow> mapped c e"
    and "en_cleanupOnce (heap c e) = OnceDone \<Longrightarrow> en_done (heap c e) \<and> en_closing (heap c e) \<and>
      (en_box (heap c e) \<noteq> None \<longrightarrow> en_boxClosed (heap c e)) \<and>
      (mapped c e \<longrightarrow> en_cleanupErr (heap c e) \<noteq> None)"
    and "en_done (heap c e) \<Longrightarrow> \<not> en_closing (heap c e) \<Longrightarrow>
      en_err (heap c e) \<noteq> None \<and> en_cleanupErr (heap c e) = en_err (heap c e) \<and> \<not> mapped c e"
    and "en_readyCloses (heap c e) = of_bool (en_ready (heap c e))"
    and "en_doneCloses (heap c e) = of_bool (en_done (heap c e))"
    and "en_ready (heap c e) \<Longrightarrow> en_box (heap c e) = None \<longleftrightarrow> en_err (heap c e) \<noteq> None"
    and "en_done (heap c e) \<Longrightarrow> en_ready (heap c e)"
    and "en_closing (heap c e) \<Longrightarrow> en_cleanupOnce (heap c e) = OnceNew \<Longrightarrow> \<not> en_done (heap c e)"
  using assms unfolding entry_ok_def Let_def by blast+

lemma entry_ok_frame:
  assumes ok: "entry_ok c e" and same: "heap d e = heap c e" "mapped d e = mapped c e"
    and tasks: "creates (tasks c (en_creator (heap c e))) = Some e \<Longrightarrow>
        creates (tasks d (en_creator (heap c e))) = Some e"
      "\<And>s. runs (tasks c s) = Some e \<Longrightarrow> runs (tasks d s) = Some e"
      "en_cleanupOnce (heap c e) = OnceNew \<Longrightarrow> \<exists>s. at_once (tasks c s) = Some e \<Longrightarrow>
        \<exists>s. at_once (tasks d s) = Some e"
  shows "entry_ok d e"
proof (rule entry_okI [OF same(1)], unfold same)
  show "creates (tasks d (en_creator (heap c e))) = Some e" if "\<not> en_ready (heap c e)"
    using entry_okD(1) [OF ok that] by (rule tasks)
  show "runs (tasks d t) = Some e \<and> en_closing (heap c e) \<and> \<not> en_done (heap c e)"
    if "en_cleanupOnce (heap c e) = OnceRunning t" for t
    using entry_okD(2) [OF ok that] tasks(2) by blast
  show "\<exists>t. at_once (tasks d t) = Some e"
    if "en_closing (heap c e)" "en_cleanupOnce (heap c e) = OnceNew"
    using entry_okD(3) [OF ok that] by (rule tasks(3) [OF that(2)])
qed (use entry_okD [OF ok] in blast)+

lemma entry_ok_other:
  assumes "entry_ok c e'" "e' \<noteq> e" "mapped (act t pc e x del c) e' = mapped c e'"
    and "\<And>e'. creates (tasks c t) = Some e' \<or> runs (tasks c t) = Some e' \<or>
      at_once (tasks c t) = Some e' \<Longrightarrow> e' = e"
  shows "entry_ok (act t pc e x del c) e'"
proof (rule entry_ok_frame [OF assms(1)])
  have t: "creates (tasks c t) \<noteq> Some e'" "runs (tasks c t) \<noteq> Some e'" "at_once (tasks c t) \<noteq> Some e'"
    using assms(2,4) by blast+
  show "\<exists>s. at_once (tasks (act t pc e x del c) s) = Some e'" if "\<exists>s. at_once (tasks c s) = Some e'"
    using that t(3) by (metis act_simps(1) fun_upd_other)
  show "creates (tasks (act t pc e x del c) s) = Some e'" if "creates (tasks c s) = Some e'" for s
    using that t(1) by auto
  show "runs (tasks (act t pc e x del c) s) = Some e'" if "runs (tasks c s) = Some e'" for s
    using that t(2) by auto
qed (use assms in simp_all)

lemma task_ok_other:
  assumes ok: "task_ok c s" "task_ok c t" and "s \<noteq> t" and "map_ok c" and "e < nextEntry c"
    and gr: "grows (heap c e) x" and del: "del \<Longrightarrow> mapped c e"
    and calm: "runs (tasks c s) = Some e \<Longrightarrow> calm (heap c e) x \<and> \<not> del"
    and create: "creates (tasks c s) = Some e \<Longrightarrow> en_ready x = en_ready (heap c e)"
  shows "task_ok (act t pc e x del c) s"
proof -
  let ?d = "act t pc e x del c"
  have same: "en_topic x = en_topic (heap c e)" "en_creator x = en_creator (heap c e)"
    using gr by (simp_all add: grows_def)
  have m: "mapped ?d e' \<longrightarrow> mapped c e'" for e'
    using mapped_act [OF assms(4,5) same(1) _ del, where e' = e' and t = t and pc = pc] mapped_act_self [OF assms(4) same(1)]
    by (cases "e' = e") auto
  have m_eq: "mapped ?d e' = mapped c e'" if "e' = e \<Longrightarrow> \<not> del" for e'
    using mapped_act [OF assms(4,5) same(1) _ del, where e' = e' and t = t and pc = pc]
      mapped_act_self [OF assms(4) same(1)] that
    by (cases "e' = e") auto
  have "relies (tasks c s) (mapped ?d e) x" if "refers (tasks c s) = Some (tp, e)" for tp
  proof (rule relies_grows [OF _ gr _ m])
    show "relies (tasks c s) (mapped c e) (heap c e)" using ok(1) that by (simp add: task_ok_def)
    show "calm (heap c e) x \<and> mapped ?d e = mapped c e" if "runs (tasks c s) \<noteq> None"
    proof -
      from that obtain e' where e': "runs (tasks c s) = Some e'" by blast
      moreover have "e' = e"
        using \<open>refers (tasks c s) = Some (tp, e)\<close> refers_kinds(2) [OF e'] by simp
      ultimately show ?thesis using calm m_eq by simp
    qed
  qed
  moreover have "relies (tasks c s) (mapped ?d e') (heap c e')"
    if "refers (tasks c s) = Some (tp, e')" "e' \<noteq> e" for tp e'
    by (rule relies_grows [OF _ grows_refl _ m])
      (use that ok(1) m_eq [of e'] in \<open>auto simp: task_ok_def\<close>)
  ultimately show ?thesis
    using ok(1) assms(3) same calm create unfolding task_ok_def
    by (auto simp: calm_def)
qed

lemma map_ok_act:
  assumes "map_ok c" "en_topic x = en_topic (heap c e)"
  shows "map_ok (act t pc e x del c)"
  using assms by (auto simp: map_ok_def set_delete)

lemma close_ok_act:
  assumes ok: "close_ok c" and "e < nextEntry c" and gr: "grows (heap c e) x"
    and k: "in_cleanup (tasks c t) \<Longrightarrow> in_cleanup pc"
    and cl: "\<And>e'. cleaning (tasks c t) = Some e' \<Longrightarrow> cleaning pc = Some e' \<or> e' = e \<and> en_done x"
    and w: "waiting (tasks c t) = None" "waiting pc = None"
  shows "close_ok (act t pc e x del c)"
proof -
  let ?d = "act t pc e x del c"
  have sub: "snd ` set (entries ?d) \<subseteq> snd ` set (entries c)"
    by (auto simp: set_delete)
  have dn: "en_done (heap c e') \<Longrightarrow> en_done (heap ?d e')" for e'
    using gr by (auto simp: grows_def)
  have running: "\<exists>ks. waiting (tasks ?d s) = Some ks \<and> (\<forall>k \<in> set ks. in_cleanup (tasks ?d k)) \<and>
      (\<forall>e' \<in> snd ` set (entries ?d). en_done (heap ?d e') \<or>
         (\<exists>k \<in> set ks. cleaning (tasks ?d k) = Some e'))"
    if run: "cn_closeOnce ?d = OnceRunning s" for s
  proof -
    from ok run obtain ks where ks: "waiting (tasks c s) = Some ks"
      "\<forall>k \<in> set ks. in_cleanup (tasks c k)"
      "\<forall>e' \<in> snd ` set (entries c). en_done (heap c e') \<or>
         (\<exists>k \<in> set ks. cleaning (tasks c k) = Some e')"
      by (auto simp: close_ok_def)
    have "s \<noteq> t" using ks(1) w(1) by auto
    have "en_done (heap ?d e') \<or> (\<exists>k \<in> set ks. cleaning (tasks ?d k) = Some e')"
      if e': "e' \<in> snd ` set (entries ?d)" for e'
    proof (cases "en_done (heap c e')")
      case False
      with ks(3) sub e' obtain k where "k \<in> set ks" "cleaning (tasks c k) = Some e'" by blast
      then show ?thesis using cl [of e'] by (cases "k = t") auto
    qed (use dn in blast)
    moreover have "\<forall>k \<in> set ks. in_cleanup (tasks ?d k)" using ks(2) k by simp
    moreover have "waiting (tasks ?d s) = Some ks" using ks(1) \<open>s \<noteq> t\<close> by simp
    ultimately show ?thesis by blast
  qed
  have finished: "\<forall>e' \<in> snd ` set (entries ?d). en_done (heap ?d e')"
    if "cn_closeOnce ?d = OnceDone"
  proof -
    from that have "\<forall>e' \<in> snd ` set (entries c). en_done (heap c e')"
      using ok by (simp add: close_ok_def)
    with sub dn show ?thesis by blast
  qed
  have "cn_closed ?d \<longleftrightarrow> cn_closeOnce ?d \<noteq> OnceNew" using ok by (simp add: close_ok_def)
  then show ?thesis
    unfolding close_ok_def using running finished by (intro conjI allI impI) assumption+
qed

lemma inv_act:
  assumes inv: "center_inv c" and e: "e < nextEntry c" and gr: "grows (heap c e) x"
    and del: "del \<Longrightarrow> mapped c e"
    and calm: "\<And>s. s \<noteq> t \<Longrightarrow> runs (tasks c s) = Some e \<Longrightarrow> calm (heap c e) x \<and> \<not> del"
    and create: "\<And>s. s \<noteq> t \<Longrightarrow> creates (tasks c s) = Some e \<Longrightarrow> en_ready x = en_ready (heap c e)"
    and own: "\<exists>tp. refers (tasks c t) = Some (tp, e)"
    and k: "in_cleanup (tasks c t) \<Longrightarrow> in_cleanup pc"
    and cl: "cleaning (tasks c t) = Some e \<Longrightarrow> cleaning pc = Some e \<or> en_done x"
    and w: "waiting pc = None"
    and entry: "entry_ok (act t pc e x del c) e" and task: "task_ok (act t pc e x del c) t"
  shows "center_inv (act t pc e x del c)"
proof -
  note ok = center_invD [OF inv]
  have same: "en_topic x = en_topic (heap c e)" using gr by (simp add: grows_def)
  obtain tp where own': "refers (tasks c t) = Some (tp, e)" using own by blast
  then have w0: "waiting (tasks c t) = None" by (cases "tasks c t") simp_all
  have only: "e' = e" if "creates (tasks c t) = Some e' \<or> runs (tasks c t) = Some e' \<or>
      at_once (tasks c t) = Some e'" for e'
    using that own' refers_kinds [of "tasks c t" e'] by auto
  have cl': "cleaning pc = Some e' \<or> e' = e \<and> en_done x" if "cleaning (tasks c t) = Some e'" for e'
  proof -
    have "e' = e" using that own' by (cases "tasks c t") auto
    with cl that show ?thesis by blast
  qed
  have "entry_ok (act t pc e x del c) e'" if "e' < nextEntry c" for e'
  proof (cases "e' = e")
    case False
    show ?thesis
      by (rule entry_ok_other [OF ok(3) [OF that] False mapped_act [OF ok(1) e same False del]])
        (use only in blast)+
  qed (use entry in simp)
  moreover have "task_ok (act t pc e x del c) s" for s
  proof (cases "s = t")
    case False
    then show ?thesis
      by (intro task_ok_other ok e gr del) (use calm create in blast)+
  qed (use task in simp)
  moreover have "close_ok (act t pc e x del c)"
    using close_ok_act [OF ok(2) e gr k cl' w0 w] .
  moreover have "map_ok (act t pc e x del c)" by (rule map_ok_act [OF ok(1) same])
  ultimately show ?thesis by (simp add: center_inv_def)
qed

end
