(* ===== verification/CenterSteps.thy ===== *)
theory CenterSteps
  imports CenterInv
begin

text \<open>Every step of \<open>center_step\<close> keeps the invariant.\<close>

section \<open>Steps that touch no entry\<close>

definition hop :: "nat \<Rightarrow> cpc \<Rightarrow> nat \<Rightarrow> Center \<Rightarrow> Center" where
  "hop t pc n c = c\<lparr>tasks := (tasks c)(t := pc), nextTask := n\<rparr>"

lemma hop_simps [simp]:
  "tasks (hop t pc n c) = (tasks c)(t := pc)" "heap (hop t pc n c) = heap c"
  "nextEntry (hop t pc n c) = nextEntry c" "nextTask (hop t pc n c) = n"
  "cn_closed (hop t pc n c) = cn_closed c" "cn_closeOnce (hop t pc n c) = cn_closeOnce c"
  "entries (hop t pc n c) = entries c" "mapped (hop t pc n c) = mapped c"
  by (simp_all add: hop_def mapped_def fun_eq_iff)

lemma go_hop: "go t pc c = hop t pc (nextTask c) c"
  by (simp add: go_def hop_def)

lemma no_refers:
  "refers pc = None \<Longrightarrow> creates pc = None \<and> runs pc = None \<and> at_once pc = None \<and> cleaning pc = None"
  by (cases pc) simp_all

lemma inv_hop:
  assumes inv: "center_inv c" and free: "refers (tasks c t) = None"
    and k: "in_cleanup (tasks c t) \<Longrightarrow> in_cleanup pc"
    and w: "waiting (tasks c t) = None" "waiting pc = None"
    and new: "creates pc = None" "runs pc = None" and n: "t < n" "nextTask c \<le> n"
    and rel: "\<And>tp e. refers pc = Some (tp, e) \<Longrightarrow>
      e < nextEntry c \<and> en_topic (heap c e) = tp \<and> relies pc (mapped c e) (heap c e)"
  shows "center_inv (hop t pc n c)"
proof -
  note ok = center_invD [OF inv]
  note none = no_refers [OF free]
  let ?d = "hop t pc n c"
  have once: "\<exists>s. at_once (tasks ?d s) = Some e" if "\<exists>s. at_once (tasks c s) = Some e" for e
    using that none by (metis hop_simps(1) fun_upd_other option.distinct(1))
  have "entry_ok ?d e" if "e < nextEntry c" for e
    by (rule entry_ok_frame [OF ok(3) [OF that]]) (use none once in auto)
  moreover have "task_ok ?d s" for s
    using ok(4) [of s] rel new w n by (cases "s = t") (auto simp: task_ok_def)
  moreover have "map_ok ?d" using ok(1) by (simp add: map_ok_def)
  moreover have "close_ok ?d"
  proof -
    have "\<exists>ks. waiting (tasks ?d s) = Some ks \<and> (\<forall>k \<in> set ks. in_cleanup (tasks ?d k)) \<and>
        (\<forall>e \<in> snd ` set (entries c). en_done (heap c e) \<or>
           (\<exists>k \<in> set ks. cleaning (tasks ?d k) = Some e))"
      if run: "cn_closeOnce c = OnceRunning s" for s
    proof -
      from ok(2) run obtain ks where ks: "waiting (tasks c s) = Some ks"
        "\<forall>k \<in> set ks. in_cleanup (tasks c k)"
        "\<forall>e \<in> snd ` set (entries c). en_done (heap c e) \<or>
           (\<exists>k \<in> set ks. cleaning (tasks c k) = Some e)"
        by (auto simp: close_ok_def)
      have "s \<noteq> t" using ks(1) w(1) by auto
      then have "waiting (tasks ?d s) = Some ks" using ks(1) by simp
      moreover have "\<forall>k \<in> set ks. in_cleanup (tasks ?d k)" using ks(2) k by simp
      moreover have "cleaning (tasks c j) = Some e \<Longrightarrow> cleaning (tasks ?d j) = Some e" for j e
        using none by auto
      ultimately show ?thesis using ks(3) by meson
    qed
    with ok(2) show ?thesis unfolding close_ok_def by simp
  qed
  ultimately show ?thesis by (simp add: center_inv_def)
qed

section \<open>GetBox\<close>

lemma act_same: "go t pc c = act t pc e (heap c e) False c"
  by (simp add: act_def go_def set_entry_def)

lemma task_entry:
  assumes "center_inv c" "refers (tasks c t) = Some (tp, e)"
  shows "e < nextEntry c" "en_topic (heap c e) = tp"
    "relies (tasks c t) (mapped c e) (heap c e)" "entry_ok c e" "t < nextTask c"
proof -
  have tk: "task_ok c t" using assms(1) by (rule center_invD)
  with assms(2) show e: "e < nextEntry c" and "en_topic (heap c e) = tp"
    and "relies (tasks c t) (mapped c e) (heap c e)" by (simp_all add: task_ok_def)
  from assms(1) e show "entry_ok c e" by (rule center_invD)
  show "t < nextTask c"
  proof (rule ccontr)
    assume "\<not> t < nextTask c"
    then have "tasks c t = CIdle" using tk by (simp add: task_ok_def)
    with assms(2) show False by simp
  qed
qed

text \<open>A goroutine moves on without changing its entry.\<close>

lemma inv_move:
  assumes inv: "center_inv c" and own: "refers (tasks c t) = Some (tp, e)"
    and k: "in_cleanup (tasks c t) \<Longrightarrow> in_cleanup pc"
    and cl: "cleaning (tasks c t) = Some e \<Longrightarrow> cleaning pc = Some e \<or> en_done (heap c e)"
    and w: "waiting pc = None"
    and keep: "creates pc = creates (tasks c t)" "runs pc = runs (tasks c t)"
    and once: "at_once (tasks c t) = Some e \<Longrightarrow> en_cleanupOnce (heap c e) \<noteq> OnceNew"
    and rel: "\<And>tp' e'. refers pc = Some (tp', e') \<Longrightarrow>
      e' = e \<and> tp' = tp \<and> relies pc (mapped c e) (heap c e)"
  shows "center_inv (go t pc c)"
proof -
  note te = task_entry [OF inv own]
  let ?d = "act t pc e (heap c e) False c"
  have tk: "task_ok c t" using inv by (rule center_invD)
  have m: "mapped ?d e = mapped c e"
    using mapped_act_self [OF center_invD(1) [OF inv]] by simp
  have once': "\<exists>s. at_once (tasks ?d s) = Some e"
    if "\<exists>s. at_once (tasks c s) = Some e" "en_cleanupOnce (heap c e) = OnceNew"
    using that once by (metis act_simps(1) fun_upd_other)
  have "entry_ok ?d e"
  proof (rule entry_ok_frame [OF te(4) _ m])
    show "\<exists>s. at_once (tasks ?d s) = Some e" if "en_cleanupOnce (heap c e) = OnceNew"
      "\<exists>s. at_once (tasks c s) = Some e"
      using once' that by blast
  qed (use keep in auto)
  moreover have "task_ok ?d t"
    using tk te rel w keep m unfolding task_ok_def by auto
  ultimately have "center_inv ?d"
    by (intro inv_act inv te(1) k w) (use own cl in auto)
  then show ?thesis by (simp add: act_same [symmetric])
qed

lemma inv_get_ready:
  assumes "center_inv c" "tasks c t = GReady tp e" "en_ready (heap c e)"
  shows "center_inv (get_ready t tp e c)"
  unfolding get_ready_def by (rule inv_move [OF assms(1)]) (use assms in \<open>auto split: if_splits\<close>)

lemma inv_get_done:
  assumes "center_inv c" "tasks c t = GDone tp e"
  shows "center_inv (get_done t tp e c)"
proof -
  have "center_inv (go t pc c)" if "refers pc = None" "waiting pc = None" for pc
    by (rule inv_move [OF assms(1), of t tp e])
      (use assms that no_refers [of pc] in auto)
  then show ?thesis by (simp add: get_done_def)
qed

lemma inv_get_select:
  assumes "center_inv c" "tasks c t = GSelect tp e"
  shows "center_inv (get_select t tp e c)"
proof -
  have "center_inv (go t pc c)" if "refers pc = None" "waiting pc = None" for pc
    by (rule inv_move [OF assms(1), of t tp e])
      (use assms that no_refers [of pc] in auto)
  then show ?thesis by (simp add: get_select_def)
qed

lemma inv_get_create:
  assumes "center_inv c" "tasks c t = GCreate tp e"
  shows "center_inv (go t (GCreated tp e res) c)"
  by (rule inv_move [OF assms(1), of t tp e]) (use assms in auto)

lemma inv_get_lookup:
  assumes inv: "center_inv c" and pc: "tasks c t = GLock tp"
  shows "center_inv (get_lookup t tp c)"
proof -
  note ok = center_invD [OF inv]
  have tn: "t < nextTask c"
    using ok(4) [of t] pc by (auto simp: task_ok_def)
  have hop: "center_inv (go t pc' c)" if "creates pc' = None" "runs pc' = None" "waiting pc' = None"
    "\<And>tp e. refers pc' = Some (tp, e) \<Longrightarrow>
       e < nextEntry c \<and> en_topic (heap c e) = tp \<and> relies pc' (mapped c e) (heap c e)" for pc'
    unfolding go_hop by (rule inv_hop [OF inv]) (use pc tn that in auto)
  show ?thesis
  proof (cases "cn_closed c \<or> map_of (entries c) tp \<noteq> None")
    case True
    have "e < nextEntry c \<and> en_topic (heap c e) = tp" if "map_of (entries c) tp = Some e" for e
      using ok(1) map_of_SomeD [OF that] by (auto simp: map_ok_def)
    with True show ?thesis
      by (auto simp: get_lookup_def intro!: hop split: option.split)
  next
    case False
    let ?e = "nextEntry c"
    let ?d = "c\<lparr>entries := AList.update tp ?e (entries c), heap := (heap c)(?e := new_entry tp t),
      nextEntry := Suc ?e, tasks := (tasks c)(t := GCreate tp ?e)\<rparr>"
    have eq: "get_lookup t tp c = ?d"
      using False by (simp add: get_lookup_def set_entry_def go_def Let_def)
    have es: "entries ?d = entries c @ [(tp, ?e)]"
      using False by (simp add: update_new)
    have old: "refers (tasks c s) = Some (tp', ?e) \<Longrightarrow> False" for s tp'
      using ok(4) [of s] by (auto simp: task_ok_def)
    have m_new: "mapped ?d ?e" by (simp add: mapped_def new_entry_def update_conv')
    have m_old: "mapped ?d e = mapped c e" if "e < ?e" for e
      using False that by (auto simp: mapped_def update_conv')
    have none: "creates (tasks c t) = None" "runs (tasks c t) = None" "at_once (tasks c t) = None"
      using pc by simp_all
    have once: "\<exists>s. at_once (tasks ?d s) = Some e" if "\<exists>s. at_once (tasks c s) = Some e" for e
      using that none by (auto, metis option.distinct(1))
    have "entry_ok ?d e" if "e < Suc ?e" for e
    proof (cases "e = ?e")
      case True
      then show ?thesis using m_new by (simp add: entry_ok_def Let_def) (simp add: new_entry_def)
    next
      case False
      with that have e: "e < ?e" by simp
      show ?thesis
        by (rule entry_ok_frame [OF ok(3) [OF e] _ m_old [OF e]]) (use e none once in auto)
    qed
    moreover have "task_ok ?d s" for s
    proof (cases "s = t")
      case True
      then show ?thesis using tn by (simp add: task_ok_def new_entry_def)
    next
      case False
      have "e < ?e" if "refers (tasks c s) = Some (tp', e)" for tp' e
        using ok(4) [of s] that by (simp add: task_ok_def)
      then have "mapped ?d e = mapped c e \<and> heap ?d e = heap c e"
        if "refers (tasks c s) = Some (tp', e)" for tp' e
        using that m_old by fastforce
      moreover have "heap ?d e = heap c e" if "creates (tasks c s) = Some e \<or> runs (tasks c s) = Some e" for e
        using that refers_kinds [of "tasks c s" e] old [of s] by auto
      ultimately show ?thesis
        using ok(4) [of s] False unfolding task_ok_def by (auto simp: less_SucI)
    qed
    moreover have "map_ok ?d"
      using ok(1) False unfolding map_ok_def es
      by (auto simp: map_of_eq_None_iff new_entry_def)
    moreover have "close_ok ?d" using ok(2) False by (simp add: close_ok_def)
    ultimately show ?thesis unfolding eq center_inv_def by (intro conjI allI impI) simp_all
  qed
qed

text \<open>The creating goroutine records its result; nobody else has recorded one.\<close>

lemma inv_get_record:
  assumes inv: "center_inv c" and pc: "tasks c t = GCreated tp e res"
  shows "center_inv (get_record t tp e res c)"
proof -
  have own: "refers (tasks c t) = Some (tp, e)" using pc by simp
  note te = task_entry [OF inv own]
  have tk: "task_ok c t" using inv by (rule center_invD)
  then have cr: "en_creator (heap c e) = t" "\<not> en_ready (heap c e)"
    using pc by (simp_all add: task_ok_def)
  define box where "box = (case res of Inl _ \<Rightarrow> None | Inr b \<Rightarrow> Some b)"
  define err where "err = (case res of Inl er \<Rightarrow> Some er | Inr _ \<Rightarrow> None)"
  have be: "box = None \<longleftrightarrow> err \<noteq> None" by (simp add: box_def err_def split: sum.split)
  define fails where "fails \<longleftrightarrow> err \<noteq> None \<and> \<not> en_closing (heap c e)"
  define x where "x = (let y = close_ready ((heap c e)\<lparr>en_box := box, en_err := err\<rparr>) in
    if fails then close_done (y\<lparr>en_cleanupErr := err\<rparr>) else y)"
  have x: "en_topic x = tp" "en_creator x = t" "en_ready x" "en_box x = box" "en_err x = err"
    "en_closing x = en_closing (heap c e)" "en_cleanupOnce x = en_cleanupOnce (heap c e)"
    "en_boxClosed x = en_boxClosed (heap c e)" "en_unregistered x = en_unregistered (heap c e)"
    using cr(1) te(2) by (simp_all add: x_def Let_def close_ready_def close_done_def)
  have mp: "mapped c e" "\<not> en_done (heap c e)"
    using te(4) cr(2) by (auto simp: entry_ok_def Let_def disposed_def)
  then have "map_of (entries c) tp = Some e" using te(2) by (simp add: mapped_def)
  then have eq: "get_record t tp e res c = act t (GReturned box err) e x fails c"
    by (simp add: get_record_def box_def [symmetric] err_def [symmetric] Let_def act_def x_def
        fails_def close_ready_def close_done_def set_entry_def go_def te(2))
  have norun: "runs (tasks c s) \<noteq> Some e" if "\<not> en_closing (heap c e)" for s
  proof
    assume "runs (tasks c s) = Some e"
    then have "en_cleanupOnce (heap c e) = OnceRunning s"
      using center_invD(4) [OF inv, of s] by (simp add: task_ok_def)
    with te(4) that show False by (simp add: entry_ok_def Let_def)
  qed
  have m: "mapped (act t (GReturned box err) e x fails c) e \<longleftrightarrow> \<not> fails"
    using mapped_act_self [OF center_invD(1) [OF inv]] x(1) te(2) mp by simp
  have nt: "at_once (tasks c t) = None" "runs (tasks c t) = None" using pc by simp_all
  have once: "\<exists>s. at_once (((tasks c)(t := GReturned box err)) s) = Some e"
    if "\<exists>s. at_once (tasks c s) = Some e"
    using that nt by (metis fun_upd_other option.distinct(1))
  have "center_inv (act t (GReturned box err) e x fails c)"
  proof (rule inv_act [OF inv te(1)])
    show "grows (heap c e) x"
      using x cr mp(2) te(2) by (simp add: grows_def)
    show "calm (heap c e) x \<and> \<not> fails" if "runs (tasks c s) = Some e" for s
    proof -
      have "en_closing (heap c e)" using norun that by blast
      then show ?thesis using x by (simp add: calm_def x_def fails_def Let_def close_ready_def)
    qed
    show "en_ready x = en_ready (heap c e)" if "s \<noteq> t" "creates (tasks c s) = Some e" for s
      using center_invD(4) [OF inv, of s] that cr(1) by (simp add: task_ok_def)
    show "\<exists>tp. refers (tasks c t) = Some (tp, e)" using own by blast
    show "entry_ok (act t (GReturned box err) e x fails c) e"
    proof -
      have counts: "en_readyCloses x = 1" "en_doneCloses x = of_bool (en_done x)"
        "en_done x \<longleftrightarrow> fails" "fails \<Longrightarrow> en_cleanupErr x = err"
        using te(4) cr(2) mp(2)
        by (auto simp: entry_ok_def Let_def x_def close_ready_def close_done_def)
      have old: "\<forall>s. en_cleanupOnce (heap c e) = OnceRunning s \<longrightarrow>
          runs (tasks c s) = Some e \<and> en_closing (heap c e)"
        "en_cleanupOnce (heap c e) \<noteq> OnceDone"
        "en_closing (heap c e) \<and> en_cleanupOnce (heap c e) = OnceNew \<longrightarrow>
          (\<exists>s. at_once (tasks c s) = Some e)"
        using te(4) mp(2) by (auto simp: entry_ok_def Let_def)
      have d: "disposed x" if fails
        using that x be by (simp add: disposed_def fails_def)
      show ?thesis
      proof (rule entry_okI [of _ _ x])
        show "\<exists>s. at_once (tasks (act t (GReturned box err) e x fails c) s) = Some e"
          if "en_closing x" "en_cleanupOnce x = OnceNew"
          using old(3) once that x by simp
        show "runs (tasks (act t (GReturned box err) e x fails c) s) = Some e \<and> en_closing x \<and> \<not> en_done x"
          if "en_cleanupOnce x = OnceRunning s" for s
          using old(1) that x nt counts(3) by (auto simp: fails_def)
        show "en_err x \<noteq> None \<and> en_cleanupErr x = en_err x \<and>
            \<not> mapped (act t (GReturned box err) e x fails c) e" if "en_done x"
          using counts(3,4) that x m by (simp add: fails_def)
      qed (use counts(1-3) old(2) x be d m in \<open>auto simp: fails_def\<close>)
    qed
    show "task_ok (act t (GReturned box err) e x fails c) t"
      using te(5) by (simp add: task_ok_def)
  qed (use pc mp in simp_all)
  then show ?thesis by (simp add: eq)
qed

section \<open>Cleaning up\<close>

lemma inv_leave_lookup:
  assumes inv: "center_inv c" and pc: "tasks c t = LLock tp"
  shows "center_inv (leave_lookup t tp c)"
proof -
  note ok = center_invD [OF inv]
  have tn: "t < nextTask c" using ok(4) [of t] pc by (auto simp: task_ok_def)
  have e: "e < nextEntry c \<and> en_topic (heap c e) = tp" if "map_of (entries c) tp = Some e" for e
    using ok(1) map_of_SomeD [OF that] by (auto simp: map_ok_def)
  have hop: "center_inv (go t pc' c)" if "creates pc' = None" "runs pc' = None" "waiting pc' = None"
    "\<And>tp e. refers pc' = Some (tp, e) \<Longrightarrow>
       e < nextEntry c \<and> en_topic (heap c e) = tp \<and> relies pc' (mapped c e) (heap c e)" for pc'
    unfolding go_hop by (rule inv_hop [OF inv]) (use pc tn that in auto)
  show ?thesis by (auto simp: leave_lookup_def e intro!: hop split: option.split)
qed

lemma act_entry: "go t pc (set_entry e x c) = act t pc e x False c"
  by (simp add: act_def)

lemma once_kept:
  assumes "at_once (tasks c t) = None \<or> at_once pc = at_once (tasks c t)"
    and "\<exists>s. at_once (tasks c s) = Some e"
  shows "\<exists>s. at_once (((tasks c)(t := pc)) s) = Some e"
  using assms by (metis fun_upd_apply option.distinct(1))

lemma mapped_False [simp]: "map_ok c \<Longrightarrow> en_topic x = en_topic (heap c e) \<Longrightarrow>
    mapped (act t pc e x False c) e = mapped c e"
  by (simp add: mapped_act_self)

lemma inv_cleanup_lock:
  assumes inv: "center_inv c" and pc: "tasks c t = KLock tp e"
  shows "center_inv (cleanup_lock t tp e c)"
proof (cases "en_done (heap c e)")
  case True
  have "center_inv (go t (KReturned (en_cleanupErr (heap c e))) c)"
    by (rule inv_move [OF inv, of t tp e]) (use pc True in auto)
  with True show ?thesis by (simp add: cleanup_lock_def)
next
  case False
  have own: "refers (tasks c t) = Some (tp, e)" using pc by simp
  note te = task_entry [OF inv own] and mp = center_invD(1) [OF inv]
  define x where "x = (heap c e)\<lparr>en_closing := True\<rparr>"
  have x: "en_topic x = en_topic (heap c e)" by (simp add: x_def)
  have "center_inv (act t (KOnce tp e) e x False c)"
  proof (rule inv_act [OF inv te(1)])
    show "entry_ok (act t (KOnce tp e) e x False c) e"
    proof (rule entry_okI [of _ _ x])
      show "\<exists>s. at_once (tasks (act t (KOnce tp e) e x False c) s) = Some e"
        by (rule exI [of _ t]) simp
    qed (use te(4) False pc mapped_False [OF mp x] in
        \<open>auto simp: entry_ok_def Let_def x_def disposed_def\<close>)
    show "task_ok (act t (KOnce tp e) e x False c) t"
      using te x by (simp add: task_ok_def x_def)
  qed (use own pc False in \<open>auto simp: x_def grows_def calm_def\<close>)
  then show ?thesis using False by (simp add: cleanup_lock_def act_entry x_def)
qed

lemma inv_cleanup_once:
  assumes inv: "center_inv c" and pc: "tasks c t = KOnce tp e"
  shows "center_inv (cleanup_once t tp e c)"
proof -
  have own: "refers (tasks c t) = Some (tp, e)" using pc by simp
  note te = task_entry [OF inv own] and mp = center_invD(1) [OF inv]
  show ?thesis
  proof (cases "en_cleanupOnce (heap c e)")
    case OnceNew
    define x where "x = (heap c e)\<lparr>en_cleanupOnce := OnceRunning t\<rparr>"
    have x: "en_topic x = en_topic (heap c e)" by (simp add: x_def)
    have cl: "en_closing (heap c e)" using te(3) pc by simp
    have norun: "runs (tasks c s) \<noteq> Some e" for s
      using center_invD(4) [OF inv, of s] OnceNew by (auto simp: task_ok_def)
    have "center_inv (act t (KReady tp e) e x False c)"
    proof (rule inv_act [OF inv te(1)])
      show "entry_ok (act t (KReady tp e) e x False c) e"
        by (rule entry_okI [of _ _ x])
          (use te(4) OnceNew cl pc mapped_False [OF mp x] in
            \<open>auto simp: entry_ok_def Let_def x_def disposed_def\<close>)
      have "mapped c e"
        using entry_okD(5,12) [OF te(4)] OnceNew cl by blast
      then show "task_ok (act t (KReady tp e) e x False c) t"
        using te mapped_False [OF mp x] by (simp add: task_ok_def x_def)
    qed (use own pc norun in \<open>auto simp: x_def grows_def\<close>)
    then show ?thesis using OnceNew by (simp add: cleanup_once_def act_entry x_def)
  next
    case (OnceRunning s)
    with inv show ?thesis by (simp add: cleanup_once_def)
  next
    case OnceDone
    then have "en_done (heap c e)" "en_closing (heap c e)"
      using te(4) by (simp_all add: entry_ok_def Let_def)
    then have "center_inv (go t (KWait tp e) c)"
      using OnceDone by (intro inv_move [OF inv, of t tp e]) (use pc in auto)
    with OnceDone show ?thesis by (simp add: cleanup_once_def)
  qed
qed

text \<open>The steps of the goroutine that runs the once.\<close>

lemma runner:
  assumes "center_inv c" "runs (tasks c t) = Some e" "refers (tasks c t) = Some (tp, e)"
  shows "en_cleanupOnce (heap c e) = OnceRunning t" "en_closing (heap c e)"
    "\<not> en_done (heap c e)" "s \<noteq> t \<Longrightarrow> runs (tasks c s) \<noteq> Some e"
proof -
  have ok: "task_ok c s" for s using assms(1) by (rule center_invD)
  show once: "en_cleanupOnce (heap c e) = OnceRunning t"
    using ok [of t] assms(2) by (simp add: task_ok_def)
  with task_entry(4) [OF assms(1,3)] show "en_closing (heap c e)" "\<not> en_done (heap c e)"
    by (simp_all add: entry_ok_def Let_def)
  show "s \<noteq> t \<Longrightarrow> runs (tasks c s) \<noteq> Some e"
    using ok [of s] once by (auto simp: task_ok_def)
qed

lemma inv_run:
  assumes inv: "center_inv c" and run: "runs (tasks c t) = Some e"
    and own: "refers (tasks c t) = Some (tp, e)" and next_pc: "refers pc = Some (tp, e)" "runs pc = Some e"
    and x: "grows (heap c e) x" "en_cleanupOnce x = OnceRunning t" "en_done x = en_done (heap c e)"
      "en_ready x = en_ready (heap c e)" "en_box x = en_box (heap c e)"
      "en_err x = en_err (heap c e)" "en_readyCloses x = en_readyCloses (heap c e)"
      "en_doneCloses x = en_doneCloses (heap c e)" "en_creator x = en_creator (heap c e)"
    and gone: "del \<or> (\<not> mapped c e \<and> disposed (heap c e)) \<Longrightarrow> disposed x"
    and del: "del \<Longrightarrow> mapped c e"
    and rel: "relies pc (mapped c e \<and> \<not> del) x"
  shows "center_inv (act t pc e x del c)"
proof -
  note te = task_entry [OF inv own] and r = runner [OF inv run own]
  have same: "en_topic x = en_topic (heap c e)" using x(1) by (simp add: grows_def)
  have pcs: "creates pc = None" "at_once pc = None" "waiting pc = None" "cleaning pc = Some e"
    "in_cleanup pc"
    using next_pc by (cases pc; simp; fail)+
  have old: "creates (tasks c t) = None" "at_once (tasks c t) = None"
    using run by (cases "tasks c t"; simp; fail)+
  have m: "mapped (act t pc e x del c) e \<longleftrightarrow> mapped c e \<and> \<not> del"
    by (rule mapped_act_self [OF center_invD(1) [OF inv] same])
  have cl: "en_closing x" using x(1) r(2) by (simp add: grows_def)
  show ?thesis
  proof (rule inv_act [OF inv te(1) x(1) del])
    have d: "\<not> mapped c e \<Longrightarrow> disposed (heap c e)"
      using te(4) by (simp add: entry_ok_def Let_def)
    have cr: "creates (((tasks c)(t := pc)) (en_creator (heap c e))) = Some e"
      if "\<not> en_ready (heap c e)"
    proof -
      have "creates (tasks c (en_creator (heap c e))) = Some e"
        using te(4) that by (simp add: entry_ok_def Let_def)
      then show ?thesis using old(1) by auto
    qed
    show "entry_ok (act t pc e x del c) e"
      by (rule entry_okI [of _ _ x])
        (use te(4) r x cl cr gone d m next_pc in \<open>auto simp: entry_ok_def Let_def\<close>)
    show "task_ok (act t pc e x del c) t"
      using te(1,2,5) next_pc pcs rel x(2) m same by (simp add: task_ok_def)
  qed (use own r(4) x(4) pcs old in auto)
qed

lemma inv_cleanup_ready:
  assumes inv: "center_inv c" and pc: "tasks c t = KReady tp e" and rd: "en_ready (heap c e)"
  shows "center_inv (cleanup_ready t tp e c)"
proof (cases "en_box (heap c e) = None")
  case True
  have own: "runs (tasks c t) = Some e" "refers (tasks c t) = Some (tp, e)" using pc by simp_all
  note te = task_entry [OF inv own(2)] and r = runner [OF inv own]
  have err: "en_err (heap c e) \<noteq> None" using te(4) rd True by (simp add: entry_ok_def Let_def)
  have "center_inv (act t (KDelete tp e) e ((heap c e)\<lparr>en_cleanupErr := en_err (heap c e)\<rparr>) False c)"
    by (rule inv_run [OF inv own]) (use r rd True err te(3) pc in \<open>auto simp: grows_def disposed_def\<close>)
  with True show ?thesis by (simp add: cleanup_ready_def act_entry)
next
  case False
  have "mapped c e" using task_entry(3) [OF inv, of t tp e] pc by simp
  then have "center_inv (go t (KBoxClose tp e) c)"
    by (intro inv_move [OF inv, of t tp e]) (use pc rd False in auto)
  with False show ?thesis by (simp add: cleanup_ready_def)
qed

lemma inv_cleanup_boxClose:
  assumes inv: "center_inv c" and pc: "tasks c t = KBoxClose tp e"
  shows "center_inv (cleanup_boxClose t tp e err1 c)"
proof -
  have own: "runs (tasks c t) = Some e" "refers (tasks c t) = Some (tp, e)" using pc by simp_all
  note te = task_entry [OF inv own(2)] and r = runner [OF inv own]
  show ?thesis
    unfolding cleanup_boxClose_def act_entry
    by (rule inv_run [OF inv own]) (use r te(3) pc in \<open>auto simp: grows_def disposed_def\<close>)
qed

lemma inv_cleanup_unregister:
  assumes inv: "center_inv c" and pc: "tasks c t = KUnregister tp e err1"
  shows "center_inv (cleanup_unregister t tp e err1 err2 c)"
proof -
  have own: "runs (tasks c t) = Some e" "refers (tasks c t) = Some (tp, e)" using pc by simp_all
  note te = task_entry [OF inv own(2)] and r = runner [OF inv own]
  have j: "errors_Join [err1, err2] = None \<Longrightarrow> err2 = None" by (simp add: errors_Join_None_iff)
  show ?thesis
    unfolding cleanup_unregister_def act_entry
    by (rule inv_run [OF inv own]) (use r te(3) pc j in \<open>auto simp: grows_def disposed_def\<close>)
qed

lemma inv_cleanup_delete:
  assumes inv: "center_inv c" and pc: "tasks c t = KDelete tp e"
  shows "center_inv (cleanup_delete t tp e c)"
proof -
  have own: "runs (tasks c t) = Some e" "refers (tasks c t) = Some (tp, e)" using pc by simp_all
  note te = task_entry [OF inv own(2)] and r = runner [OF inv own]
  have mp: "mapped c e" using te(3) pc by simp
  then have m: "map_of (entries c) tp = Some e" using te(2) by (simp add: mapped_def)
  define del where "del \<longleftrightarrow> en_cleanupErr (heap c e) = None"
  have "center_inv (act t (KCloseDone tp e) e (heap c e) del c)"
    by (rule inv_run [OF inv own]) (use r te(3) pc mp in \<open>auto simp: del_def\<close>)
  moreover have "cleanup_delete t tp e c = act t (KCloseDone tp e) e (heap c e) del c"
    using m te(2) by (simp add: cleanup_delete_def act_def set_entry_def go_def del_def)
  ultimately show ?thesis by simp
qed

lemma inv_cleanup_closeDone:
  assumes inv: "center_inv c" and pc: "tasks c t = KCloseDone tp e"
  shows "center_inv (cleanup_closeDone t tp e c)"
proof -
  have own: "runs (tasks c t) = Some e" "refers (tasks c t) = Some (tp, e)" using pc by simp_all
  note te = task_entry [OF inv own(2)] and r = runner [OF inv own] and mp = center_invD(1) [OF inv]
  define x where "x = (close_done (heap c e))\<lparr>en_cleanupOnce := OnceDone\<rparr>"
  have x: "en_topic x = en_topic (heap c e)" by (simp add: x_def close_done_def)
  have rl: "en_ready (heap c e)" "en_box (heap c e) \<noteq> None \<longrightarrow> en_boxClosed (heap c e)"
    "mapped c e \<longrightarrow> en_cleanupErr (heap c e) \<noteq> None"
    using te(3) pc by simp_all
  have "center_inv (act t (KWait tp e) e x False c)"
  proof (rule inv_act [OF inv te(1)])
    show "entry_ok (act t (KWait tp e) e x False c) e"
      by (rule entry_okI [of _ _ x])
        (use entry_okD [OF te(4)] r rl mapped_False [OF mp x] in
          \<open>auto simp: x_def close_done_def disposed_def\<close>)
    show "task_ok (act t (KWait tp e) e x False c) t"
      using te r x by (simp add: task_ok_def x_def close_done_def)
  qed (use own r rl pc in \<open>auto simp: x_def close_done_def grows_def\<close>)
  then show ?thesis
    using r(3) by (simp add: cleanup_closeDone_def act_entry x_def Let_def)
qed

lemma inv_cleanup_wait:
  assumes inv: "center_inv c" and pc: "tasks c t = KWait tp e"
  shows "center_inv (cleanup_wait t tp e c)"
proof -
  have "en_done (heap c e)" using task_entry(3) [OF inv, of t tp e] pc by simp
  then show ?thesis
    unfolding cleanup_wait_def by (intro inv_move [OF inv, of t tp e]) (use pc in auto)
qed

section \<open>Closing\<close>

lemma inv_call:
  assumes "center_inv c" and "creates pc = None" "runs pc = None" "waiting pc = None" "refers pc = None"
  shows "center_inv (go (nextTask c) pc (c\<lparr>nextTask := Suc (nextTask c)\<rparr>))"
proof -
  have "tasks c (nextTask c) = CIdle"
    using center_invD(4) [OF assms(1), of "nextTask c"] by (simp add: task_ok_def)
  then have "center_inv (hop (nextTask c) pc (Suc (nextTask c)) c)"
    by (intro inv_hop assms) (use assms in auto)
  moreover have "go (nextTask c) pc (c\<lparr>nextTask := Suc (nextTask c)\<rparr>) =
      hop (nextTask c) pc (Suc (nextTask c)) c"
    by (simp add: hop_def go_def)
  ultimately show ?thesis by simp
qed

text \<open>Changing only the fields of the closing once, and where the closing goroutine stands.\<close>

lemma inv_close_start:
  assumes inv: "center_inv c" and pc: "tasks c t = XOnce" and new: "cn_closeOnce c = OnceNew"
  shows "center_inv (close_start t c)"
proof -
  note ok = center_invD [OF inv]
  let ?n = "nextTask c" and ?es = "entries c"
  let ?d = "close_start t c"
  have tn: "t < ?n" using ok(4) [of t] pc by (auto simp: task_ok_def)
  have d: "heap ?d = heap c" "entries ?d = ?es" "nextEntry ?d = nextEntry c"
    "nextTask ?d = ?n + length ?es" "cn_closed ?d" "cn_closeOnce ?d = OnceRunning t"
    "tasks ?d t = XWait [?n..<?n + length ?es]"
    by (simp_all add: close_start_def go_def Let_def)
  have new_task: "tasks ?d k = KLock (fst (?es ! (k - ?n))) (snd (?es ! (k - ?n)))"
    if "?n \<le> k" "k < ?n + length ?es" for k
    using that tn by (simp add: close_start_def go_def Let_def)
  have old_task: "tasks ?d k = tasks c k" if "k < ?n" "k \<noteq> t" for k
    using that by (simp add: close_start_def go_def Let_def)
  have idle: "tasks c k = CIdle" if "?n \<le> k" for k using ok(4) [of k] that by (simp add: task_ok_def)
  have out: "tasks ?d k = CIdle" if "?n + length ?es \<le> k" for k
    using that tn idle [of k] by (simp add: close_start_def go_def Let_def)
  have keep: "tasks ?d k = tasks c k" if "tasks c k \<noteq> CIdle" "tasks c k \<noteq> XOnce" for k
    using that old_task [of k] idle [of k] pc by (cases "k < ?n") auto
  have m: "mapped ?d e = mapped c e" for e by (simp add: mapped_def d)
  have "entry_ok ?d e" if e: "e < nextEntry c" for e
  proof (rule entry_ok_frame [OF ok(3) [OF e] _ m])
    show "\<exists>s. at_once (tasks ?d s) = Some e" if "\<exists>s. at_once (tasks c s) = Some e"
    proof -
      from that obtain s where "at_once (tasks c s) = Some e" by blast
      then have "at_once (tasks ?d s) = Some e" using keep [of s] by (cases "tasks c s") auto
      then show ?thesis by blast
    qed
    show "creates (tasks ?d s) = Some e" if "creates (tasks c s) = Some e" for s
      using that keep [of s] by (cases "tasks c s") auto
    show "runs (tasks ?d s) = Some e" if "runs (tasks c s) = Some e" for s
      using that keep [of s] by (cases "tasks c s") auto
  qed (simp add: d)
  moreover have "task_ok ?d k" for k
  proof -
    consider "k = t" | "k < ?n" "k \<noteq> t" | "?n \<le> k" "k < ?n + length ?es" | "?n + length ?es \<le> k"
      by linarith
    then show ?thesis
    proof cases
      case 1
      then show ?thesis using tn by (simp add: task_ok_def d)
    next
      case 2
      have "waiting (tasks c k) = None"
        using ok(4) [of k] new by (auto simp: task_ok_def)
      with 2 show ?thesis using ok(4) [of k] old_task [of k] by (simp add: task_ok_def d m)
    next
      case 3
      then have "?es ! (k - ?n) \<in> set ?es" by simp
      then have "snd (?es ! (k - ?n)) < nextEntry c"
        "en_topic (heap c (snd (?es ! (k - ?n)))) = fst (?es ! (k - ?n))"
        using ok(1) by (auto simp: map_ok_def split_beta)
      with 3 show ?thesis
        by (cases "?es ! (k - ?n)") (simp add: task_ok_def new_task d)
    next
      case 4
      then show ?thesis by (simp add: task_ok_def out)
    qed
  qed
  moreover have "map_ok ?d" using ok(1) by (simp add: map_ok_def d)
  moreover have "close_ok ?d"
  proof -
    have "\<exists>k \<in> set [?n..<?n + length ?es]. cleaning (tasks ?d k) = Some e" if "e \<in> snd ` set ?es" for e
    proof -
      from that obtain i where "i < length ?es" "e = snd (?es ! i)" by (auto simp: in_set_conv_nth)
      then show ?thesis by (intro bexI [of _ "?n + i"]) (simp_all add: new_task)
    qed
    then show ?thesis by (auto simp: close_ok_def d new_task)
  qed
  ultimately show ?thesis by (simp add: center_inv_def d)
qed

lemma inv_close_finish:
  assumes inv: "center_inv c" and pc: "tasks c t = XWait ks"
    and all: "\<forall>k \<in> set ks. \<exists>err. tasks c k = KReturned err"
  shows "center_inv (close_finish t errs c)"
proof -
  note ok = center_invD [OF inv]
  let ?d = "close_finish t errs c"
  have run: "cn_closeOnce c = OnceRunning t" using ok(4) [of t] pc by (auto simp: task_ok_def)
  have d: "heap ?d = heap c" "entries ?d = entries c" "nextEntry ?d = nextEntry c"
    "nextTask ?d = nextTask c" "cn_closed ?d = cn_closed c" "cn_closeOnce ?d = OnceDone"
    "tasks ?d = (tasks c)(t := XReturned (collect errs))"
    by (simp_all add: close_finish_def go_def)
  have m: "mapped ?d e = mapped c e" for e by (simp add: mapped_def d)
  have "entry_ok ?d e" if e: "e < nextEntry c" for e
  proof (rule entry_ok_frame [OF ok(3) [OF e] _ m])
    show "\<exists>s. at_once (tasks ?d s) = Some e" if "\<exists>s. at_once (tasks c s) = Some e"
      unfolding d by (rule once_kept [OF _ that]) (simp add: pc)
    show "creates (tasks ?d s) = Some e" if "creates (tasks c s) = Some e" for s
      using that pc by (cases "s = t") (simp_all add: d)
    show "runs (tasks ?d s) = Some e" if "runs (tasks c s) = Some e" for s
      using that pc by (cases "s = t") (simp_all add: d)
  qed (simp add: d)
  moreover have "task_ok ?d k" for k
  proof (cases "k = t")
    case True
    then show ?thesis using ok(4) [of t] pc by (auto simp: task_ok_def d)
  next
    case False
    have "waiting (tasks c k) = None"
      using ok(4) [of k] run False by (auto simp: task_ok_def)
    with False show ?thesis using ok(4) [of k] by (simp add: task_ok_def d m)
  qed
  moreover have "map_ok ?d" using ok(1) by (simp add: map_ok_def d)
  moreover have "close_ok ?d"
  proof -
    have "cleaning (tasks c k) = None" if "k \<in> set ks" for k using all that by force
    with ok(2) run pc have "\<forall>e \<in> snd ` set (entries c). en_done (heap c e)"
      unfolding close_ok_def by fastforce
    with ok(2) run show ?thesis by (simp add: close_ok_def d)
  qed
  ultimately show ?thesis by (simp add: center_inv_def d)
qed

lemma inv_close_again:
  assumes inv: "center_inv c" and pc: "tasks c t = XOnce"
  shows "center_inv (go t (XReturned (cn_closeErr c)) c)"
proof -
  have tn: "t < nextTask c"
    using center_invD(4) [OF inv, of t] pc by (auto simp: task_ok_def)
  show ?thesis unfolding go_hop by (rule inv_hop [OF inv]) (use pc tn in auto)
qed

section \<open>The machine\<close>

lemma center_inv_step: "center_step c d \<Longrightarrow> center_inv c \<Longrightarrow> center_inv d"
  by (erule center_stepE)
    (auto intro: inv_call inv_get_lookup inv_get_create inv_get_record inv_get_ready inv_get_done
      inv_get_select inv_leave_lookup inv_cleanup_lock inv_cleanup_once inv_cleanup_ready
      inv_cleanup_boxClose inv_cleanup_unregister inv_cleanup_delete inv_cleanup_closeDone
      inv_cleanup_wait inv_close_start inv_close_finish inv_close_again)

lemma center_inv_init: "center_inv NewCenter"
  by (simp add: center_inv_def NewCenter_def map_ok_def close_ok_def task_ok_def)

interpretation center: machine "\<lambda>c. c = NewCenter" center_step center_inv
  by unfold_locales (auto intro: center_inv_init center_inv_step)

end
