(* ===== verification/CenterSpec.thy ===== *)
theory CenterSpec
  imports CenterSafety
begin

text \<open>
  What the registry promises of each topic, as a small state machine, and the refinement: seen
  through the map, every step of every goroutine of the registry moves at most one topic, by one
  of the transitions of the machine.
\<close>

section \<open>The slot of a topic\<close>

text \<open>
  Nothing; a box under creation, which a leave may already wait for; an open box; a box that is
  being closed; a creation that has failed while a leave was waiting; a cleanup that has failed
  and whose error is kept.
\<close>

datatype slot = Vacant | Creating bool | Opened nat | Closing nat | Failed | Stuck "goerr option"

inductive slot_step :: "slot \<Rightarrow> slot \<Rightarrow> bool" where
  create: "slot_step Vacant (Creating False)"
| leave_early: "slot_step (Creating False) (Creating True)"
| created: "slot_step (Creating False) (Opened box)"
| created_late: "slot_step (Creating True) (Closing box)"
| create_fails: "slot_step (Creating False) Vacant"
| create_fails_late: "slot_step (Creating True) Failed"
| close: "slot_step (Opened box) (Closing box)"
| closed: "slot_step (Closing box) Vacant"
| close_fails: "slot_step (Closing box) (Stuck (Some err))"
| give_up: "slot_step Failed (Stuck (Some err))"

inductive_simps slot_step_from:
  "slot_step Vacant s" "slot_step (Creating k) s" "slot_step (Opened box) s" "slot_step (Closing box) s"
  "slot_step Failed s" "slot_step (Stuck err) s"

text \<open>A step of the registry as a whole: one topic takes one transition.\<close>

definition slots_step :: "(string \<Rightarrow> slot) \<Rightarrow> (string \<Rightarrow> slot) \<Rightarrow> bool" where
  "slots_step S T \<longleftrightarrow> (\<exists>topicID s. slot_step (S topicID) s \<and> T = S(topicID := s))"

section \<open>The abstraction\<close>

definition entry_slot :: "topicEntry \<Rightarrow> slot" where
  "entry_slot x =
     (if \<not> en_ready x then Creating (en_closing x)
      else if en_done x then Stuck (en_cleanupErr x)
      else (case en_box x of
              None \<Rightarrow> Failed
            | Some box \<Rightarrow> if en_closing x then Closing box else Opened box))"

definition slots :: "Center \<Rightarrow> string \<Rightarrow> slot" where
  "slots c topicID =
     (case map_of (entries c) topicID of None \<Rightarrow> Vacant | Some e \<Rightarrow> entry_slot (heap c e))"

lemma slots_same: "entries d = entries c \<Longrightarrow> heap d = heap c \<Longrightarrow> slots d = slots c"
  by (rule ext) (simp add: slots_def split: option.split)

lemma slots_go [simp]: "slots (go t pc c) = slots c"
  by (rule slots_same) (simp_all add: go_def)

lemma slots_nextTask [simp]: "slots (c\<lparr>nextTask := n\<rparr>) = slots c"
  by (rule slots_same) simp_all

lemma slots_mapped: "mapped c e \<Longrightarrow> slots c (en_topic (heap c e)) = entry_slot (heap c e)"
  by (simp add: slots_def mapped_def)

text \<open>The effect of changing one entry, which may leave the map.\<close>

lemma slots_update:
  assumes ok: "map_ok c" and heap: "heap d = (heap c)(e := x)" and top: "en_topic (heap c e) = tp"
    and ent: "entries d = (if del then AList.delete tp (entries c) else entries c)"
    and del: "del \<Longrightarrow> mapped c e"
  shows "slots d = (if mapped c e then (slots c)(tp := if del then Vacant else entry_slot x) else slots c)"
proof
  fix tp'
  have own: "e' = e \<Longrightarrow> tp' = tp" if "map_of (entries c) tp' = Some e'" for e'
    using ok top map_of_SomeD [OF that] by (auto simp: map_ok_def)
  show "slots d tp' =
      (if mapped c e then (slots c)(tp := if del then Vacant else entry_slot x) else slots c) tp'"
  proof (cases "tp' = tp")
    case True
    show ?thesis
    proof (cases "mapped c e")
      case True
      with \<open>tp' = tp\<close> show ?thesis
        by (auto simp: slots_def heap ent mapped_def top delete_conv)
    next
      case False
      then have "\<not> del" "map_of (entries c) tp' \<noteq> Some e" using del top \<open>tp' = tp\<close> by (auto simp: mapped_def)
      with False show ?thesis by (auto simp: slots_def heap ent split: option.split)
    qed
  next
    case False
    then have "map_of (entries d) tp' = map_of (entries c) tp'" by (simp add: ent delete_conv)
    with False own show ?thesis by (auto simp: slots_def heap split: option.split)
  qed
qed

section \<open>The refinement\<close>

text \<open>A step that changes one entry refines a transition of its topic.\<close>

lemma refines_update:
  assumes "map_ok c" "heap d = (heap c)(e := x)" "en_topic (heap c e) = tp"
    and "entries d = (if del then AList.delete tp (entries c) else entries c)" "del \<Longrightarrow> mapped c e"
    and step: "mapped c e \<Longrightarrow>
      (if del then Vacant else entry_slot x) = entry_slot (heap c e) \<or>
      slot_step (entry_slot (heap c e)) (if del then Vacant else entry_slot x)"
  shows "slots d = slots c \<or> slots_step (slots c) (slots d)"
proof (cases "mapped c e")
  case True
  have d: "slots d = (slots c)(tp := if del then Vacant else entry_slot x)"
    using slots_update [OF assms(1-5)] True by simp
  have c: "slots c tp = entry_slot (heap c e)" using slots_mapped [OF True] assms(3) by simp
  from step [OF True] show ?thesis
  proof
    assume "(if del then Vacant else entry_slot x) = entry_slot (heap c e)"
    then show ?thesis using c by (simp only: d) (simp add: fun_upd_idem)
  next
    assume "slot_step (entry_slot (heap c e)) (if del then Vacant else entry_slot x)"
    then show ?thesis unfolding slots_step_def d using c by metis
  qed
qed (use slots_update [OF assms(1-5)] in simp)

lemma refines_get_lookup:
  assumes "map_ok c"
  shows "slots (get_lookup t tp c) = slots c \<or> slots_step (slots c) (slots (get_lookup t tp c))"
proof (cases "cn_closed c \<or> map_of (entries c) tp \<noteq> None")
  case True
  then have "slots (get_lookup t tp c) = slots c"
    by (intro slots_same) (auto simp: get_lookup_def entry_defs split: option.split)
  then show ?thesis ..
next
  case False
  then have new: "map_of (entries c) tp = None" by simp
  let ?d = "get_lookup t tp c"
  have "slots ?d = (slots c)(tp := Creating False)"
  proof
    fix tp'
    have "e \<noteq> nextEntry c" if "map_of (entries c) tp' = Some e" for e
      using assms map_of_SomeD [OF that] by (auto simp: map_ok_def)
    then show "slots ?d tp' = ((slots c)(tp := Creating False)) tp'"
      using False new
      by (auto simp: get_lookup_def entry_defs slots_def Let_def update_conv entry_slot_def new_entry_def
          split: option.split)
  qed
  moreover have "slots c tp = Vacant" using new by (simp add: slots_def)
  ultimately show ?thesis unfolding slots_step_def using slot_step.create by metis
qed

lemma refines_get_record:
  assumes inv: "center_inv c" and pc: "tasks c t = GCreated tp e res"
  shows "slots (get_record t tp e res c) = slots c \<or>
    slots_step (slots c) (slots (get_record t tp e res c))"
proof -
  have own: "refers (tasks c t) = Some (tp, e)" using pc by simp
  note te = task_entry [OF inv own]
  have nr: "\<not> en_ready (heap c e)" using center_invD(4) [OF inv, of t] pc by (simp add: task_ok_def)
  have nd: "\<not> en_done (heap c e)" using te(4) nr by (auto simp: entry_ok_def Let_def)
  have m: "mapped c e" using te(4) nr by (auto simp: entry_ok_def Let_def disposed_def)
  have map: "map_of (entries c) tp = Some e" using m te(2) by (simp add: mapped_def)
  have top: "en_topic (heap c e) = tp" by (rule te(2))
  let ?d = "get_record t tp e res c"
  show ?thesis
  proof (cases res)
    case (Inr b)
    show ?thesis
      by (rule refines_update [OF center_invD(1) [OF inv], of ?d e
            "close_ready ((heap c e)\<lparr>en_box := Some b, en_err := None\<rparr>)" tp False])
        (use Inr nr nd top m in \<open>auto simp: get_record_def entry_defs Let_def entry_slot_def slot_step_from\<close>)
  next
    case (Inl err)
    show ?thesis
    proof (cases "en_closing (heap c e)")
      case True
      show ?thesis
        by (rule refines_update [OF center_invD(1) [OF inv], of ?d e
              "close_ready ((heap c e)\<lparr>en_box := None, en_err := Some err\<rparr>)" tp False])
          (use Inl True nr nd top m in
            \<open>auto simp: get_record_def entry_defs Let_def entry_slot_def slot_step_from\<close>)
    next
      case False
      show ?thesis
        by (rule refines_update [OF center_invD(1) [OF inv], of ?d e
              "close_done ((close_ready ((heap c e)\<lparr>en_box := None, en_err := Some err\<rparr>))
                \<lparr>en_cleanupErr := Some err\<rparr>)" tp True])
          (use Inl False nr nd top m map in
            \<open>auto simp: get_record_def entry_defs Let_def entry_slot_def slot_step_from\<close>)
    qed
  qed
qed

lemma refines_cleanup_lock:
  assumes inv: "center_inv c" and pc: "tasks c t = KLock tp e"
  shows "slots (cleanup_lock t tp e c) = slots c \<or>
    slots_step (slots c) (slots (cleanup_lock t tp e c))"
proof (cases "en_done (heap c e)")
  case True
  then have "slots (cleanup_lock t tp e c) = slots c"
    by (intro slots_same) (simp_all add: cleanup_lock_def entry_defs)
  then show ?thesis ..
next
  case False
  have own: "refers (tasks c t) = Some (tp, e)" using pc by simp
  have top: "en_topic (heap c e) = tp" by (rule task_entry(2) [OF inv own])
  show ?thesis
    by (rule refines_update [OF center_invD(1) [OF inv], of "cleanup_lock t tp e c" e
          "(heap c e)\<lparr>en_closing := True\<rparr>" tp False])
      (use False top in \<open>auto simp: cleanup_lock_def entry_defs entry_slot_def slot_step_from
        split: option.split\<close>)
qed

text \<open>The steps of the goroutine that runs the once of an entry.\<close>

lemma refines_run:
  assumes inv: "center_inv c" and run: "runs (tasks c t) = Some e" "refers (tasks c t) = Some (tp, e)"
    and d: "heap d = (heap c)(e := x)" "entries d = (if del then AList.delete tp (entries c) else entries c)"
    and same: "en_ready x = en_ready (heap c e)" "en_box x = en_box (heap c e)"
      "en_closing x = en_closing (heap c e)"
    and fin: "en_done x \<Longrightarrow> mapped c e \<Longrightarrow> en_ready x \<and> en_cleanupErr x \<noteq> None"
    and del: "del \<Longrightarrow> mapped c e \<and> en_ready (heap c e) \<and> en_box (heap c e) \<noteq> None"
  shows "slots d = slots c \<or> slots_step (slots c) (slots d)"
proof -
  note r = runner [OF inv run]
  have top: "en_topic (heap c e) = tp" by (rule task_entry(2) [OF inv run(2)])
  show ?thesis
  proof (rule refines_update [OF center_invD(1) [OF inv] d(1) top d(2)])
    assume m: "mapped c e"
    show "(if del then Vacant else entry_slot x) = entry_slot (heap c e) \<or>
      slot_step (entry_slot (heap c e)) (if del then Vacant else entry_slot x)"
      using same r(2,3) fin m del
      by (cases "en_box (heap c e)"; cases "en_done x"; cases del)
        (auto simp: entry_slot_def slot_step_from)
  qed (use del in blast)
qed

lemma refines_cleanup_once:
  assumes inv: "center_inv c" and pc: "tasks c t = KOnce tp e"
  shows "slots (cleanup_once t tp e c) = slots c \<or> slots_step (slots c) (slots (cleanup_once t tp e c))"
proof (cases "en_cleanupOnce (heap c e)")
  case OnceNew
  have own: "refers (tasks c t) = Some (tp, e)" using pc by simp
  show ?thesis
    by (rule refines_update [OF center_invD(1) [OF inv], of "cleanup_once t tp e c" e
          "(heap c e)\<lparr>en_cleanupOnce := OnceRunning t\<rparr>" tp False])
      (use OnceNew task_entry(2) [OF inv own] in
        \<open>auto simp: cleanup_once_def entry_defs entry_slot_def split: option.split\<close>)
qed (auto simp: cleanup_once_def)

lemma refines_cleanup_ready:
  assumes inv: "center_inv c" and pc: "tasks c t = KReady tp e" "en_ready (heap c e)"
  shows "slots (cleanup_ready t tp e c) = slots c \<or> slots_step (slots c) (slots (cleanup_ready t tp e c))"
proof (cases "en_box (heap c e) = None")
  case True
  have own: "runs (tasks c t) = Some e" "refers (tasks c t) = Some (tp, e)" using pc by simp_all
  show ?thesis
    by (rule refines_run [OF inv own, of "cleanup_ready t tp e c" "(heap c e)\<lparr>en_cleanupErr := en_err (heap c e)\<rparr>" False])
      (use pc True runner(3) [OF inv own] in \<open>auto simp: cleanup_ready_def entry_defs\<close>)
qed (auto simp: cleanup_ready_def)

lemma refines_cleanup_boxClose:
  assumes inv: "center_inv c" and pc: "tasks c t = KBoxClose tp e"
  shows "slots (cleanup_boxClose t tp e err1 c) = slots c \<or> slots_step (slots c) (slots (cleanup_boxClose t tp e err1 c))"
proof -
  have own: "runs (tasks c t) = Some e" "refers (tasks c t) = Some (tp, e)" using pc by simp_all
  show ?thesis
    by (rule refines_run [OF inv own, of _ "(heap c e)\<lparr>en_boxClosed := True\<rparr>" False])
      (use pc runner(3) [OF inv own] in \<open>auto simp: cleanup_boxClose_def entry_defs\<close>)
qed

lemma refines_cleanup_unregister:
  assumes inv: "center_inv c" and pc: "tasks c t = KUnregister tp e err1"
  shows "slots (cleanup_unregister t tp e err1 err2 c) = slots c \<or> slots_step (slots c) (slots (cleanup_unregister t tp e err1 err2 c))"
proof -
  have own: "runs (tasks c t) = Some e" "refers (tasks c t) = Some (tp, e)" using pc by simp_all
  show ?thesis
    by (rule refines_run [OF inv own, of _ "(heap c e)\<lparr>en_cleanupErr := errors_Join [err1, err2],
          en_unregistered := (err2 = None)\<rparr>" False])
      (use pc runner(3) [OF inv own] in \<open>auto simp: cleanup_unregister_def entry_defs\<close>)
qed

lemma refines_cleanup_delete:
  assumes inv: "center_inv c" and pc: "tasks c t = KDelete tp e"
  shows "slots (cleanup_delete t tp e c) = slots c \<or> slots_step (slots c) (slots (cleanup_delete t tp e c))"
proof -
  have own: "runs (tasks c t) = Some e" "refers (tasks c t) = Some (tp, e)" using pc by simp_all
  show ?thesis
    by (rule refines_run [OF inv own, of _ "heap c e"
          "map_of (entries c) tp = Some e \<and> en_cleanupErr (heap c e) = None"])
      (use pc runner(3) [OF inv own] task_entry(2,3) [OF inv own(2)] in
        \<open>auto simp: cleanup_delete_def entry_defs mapped_def\<close>)
qed

lemma refines_cleanup_closeDone:
  assumes inv: "center_inv c" and pc: "tasks c t = KCloseDone tp e"
  shows "slots (cleanup_closeDone t tp e c) = slots c \<or> slots_step (slots c) (slots (cleanup_closeDone t tp e c))"
proof -
  have own: "runs (tasks c t) = Some e" "refers (tasks c t) = Some (tp, e)" using pc by simp_all
  show ?thesis
    by (rule refines_run [OF inv own, of _ "(close_done (heap c e))\<lparr>en_cleanupOnce := OnceDone\<rparr>" False])
      (use pc runner(3) [OF inv own] task_entry(2,3) [OF inv own(2)] in
        \<open>auto simp: cleanup_closeDone_def entry_defs Let_def\<close>)
qed

text \<open>The remaining steps move a goroutine and leave the entries alone.\<close>

lemma slots_close: "slots (close_start t c) = slots c" "slots (close_finish t errs c) = slots c"
  by (rule slots_same; simp add: center_close_defs go_def Let_def)+

lemmas refines_steps = refines_get_record refines_cleanup_lock refines_cleanup_once refines_cleanup_ready
  refines_cleanup_boxClose refines_cleanup_unregister refines_cleanup_delete refines_cleanup_closeDone

text \<open>
  C15. The registry refines the machine of its slots: it starts with every topic vacant, and each
  step of each of its goroutines leaves all topics as they are or takes one topic through one
  transition. A topic is created before it is opened, opened before it is closed, closed
  before it is vacant again, and stuck for ever after a cleanup that failed.
\<close>

theorem registry_refines_slots:
  assumes "reachable c" and "center_step c d"
  shows "slots NewCenter = (\<lambda>_. Vacant) \<and> (slots d = slots c \<or> slots_step (slots c) (slots d))"
proof (rule conjI)
  show "slots NewCenter = (\<lambda>_. Vacant)" by (simp add: slots_def NewCenter_def fun_eq_iff)
  have inv: "center_inv c" by (rule reach_center [OF assms(1)])
  from assms(2) show "slots d = slots c \<or> slots_step (slots c) (slots d)"
  proof cases
    case (get_lookup t tp)
    then show ?thesis using refines_get_lookup [OF center_invD(1) [OF inv]] by simp
  qed (auto dest: refines_steps [OF inv] simp: slots_close get_ready_def get_done_def get_select_def
      leave_lookup_def cleanup_wait_def split: option.split)
qed

theorem registry_refines_slots_witness:
  "slots w4 ''t'' = Opened 7 \<and> slots w7 ''t'' = Closing 7 \<and> slots (w13 None) ''t'' = Vacant \<and>
   slots_step (slots w6) (slots w7)"
proof -
  have s: "slots w4 ''t'' = Opened 7" "slots w6 ''t'' = Opened 7" "slots w7 ''t'' = Closing 7"
    "slots (w13 None) ''t'' = Vacant"
    by (simp_all add: w_defs slots_def entry_slot_def)
  moreover have "slots w7 = slots w6 \<or> slots_step (slots w6) (slots w7)"
    using registry_refines_slots [OF reach_w6 center_step.cleanup_lock [OF w_facts(7)]]
    by (simp add: w7_def)
  ultimately show ?thesis by fastforce
qed

end
