(* ===== verification/Client.thy ===== *)
theory Client
  imports Complex_Main Lake
begin

text \<open>
  \<open>client/client.go\<close>. The signer, the JSON encoder, the dialled connection and the gRPC calls
  are parameters; \<open>'h\<close> is the state a message handler acts on. \<open>Subscribe\<close> is a function of
  what its environment does, attempt by attempt, and answers \<open>None\<close> while it is still running
  when the given behaviour ends. Durations are in nanoseconds.
\<close>

section \<open>The client\<close>

record Client =
  verifyReceivedMessages :: bool
  cl_closed :: bool
  cl_closeOnce :: bool
  cl_connCloses :: nat
  ackTimeout :: int

definition millisecond :: int where "millisecond = 1000000"
definition second :: int where "second = 1000 * millisecond"

definition WithReceivedMessageVerification :: "bool \<Rightarrow> Client \<Rightarrow> Client" where
  "WithReceivedMessageVerification enabled client = client\<lparr>verifyReceivedMessages := enabled\<rparr>"

text \<open>\<open>dial\<close> is the outcome of \<open>grpc.Dial\<close> for an address, with or without TLS.\<close>

definition NewClient ::
    "(string \<Rightarrow> bool \<Rightarrow> goerr option) \<Rightarrow> string \<Rightarrow> bool \<Rightarrow> (Client \<Rightarrow> Client) option list \<Rightarrow>
     goerr + Client" where
  "NewClient dial hostAddr tlsEnabled opts =
     (case dial hostAddr tlsEnabled of
        Some err \<Rightarrow> Inl err
      | None \<Rightarrow>
          let client = \<lparr>verifyReceivedMessages = False, cl_closed = False, cl_closeOnce = False,
                cl_connCloses = 0, ackTimeout = 5 * second\<rparr>
          in Inr (fold (\<lambda>opt c. case opt of None \<Rightarrow> c | Some f \<Rightarrow> f c) opts client))"

definition Client_Close :: "Client \<Rightarrow> Client" where
  "Client_Close c =
     (if cl_closeOnce c then c
      else c\<lparr>cl_closeOnce := True, cl_closed := True, cl_connCloses := Suc (cl_connCloses c)\<rparr>)"

interpretation client_close: stoppable "\<lambda>_::unit. Client_Close" cl_closeOnce "\<lambda>_. ()"
  by unfold_locales (auto simp: Client_Close_def)

section \<open>Publish\<close>

definition Client_Publish ::
    "'k crypto \<Rightarrow> (string \<Rightarrow> goerr + bytes) \<Rightarrow> (bytes \<Rightarrow> goerr + bytes) \<Rightarrow> bytes \<Rightarrow>
     (PublishReq option \<Rightarrow> 'w \<Rightarrow> (PublishRes option \<times> goerr option) \<times> 'w) \<Rightarrow>
     string \<Rightarrow> string \<Rightarrow> 'w \<Rightarrow> goerr option \<times> 'w" where
  "Client_Publish C json_Marshal sign pubKey rpc topicID message w =
     (case json_Marshal message of
        Inl err \<Rightarrow> (Some err, w)
      | Inr data \<Rightarrow>
          let msgCapsule = \<lparr>mc_TopicId = topicID, mc_Data = data, mc_IsEncrypted = False,
                mc_unknownFields = []\<rparr>
          in case MsgCapsuleSigningBytes C (Some msgCapsule) of
               Inl err \<Rightarrow> (Some err, w)
             | Inr signingBytes \<Rightarrow>
                 (case sign signingBytes of
                    Inl err \<Rightarrow> (Some err, w)
                  | Inr sigDataBytes \<Rightarrow>
                      (case rpc (Some \<lparr>pq_SignedMsgCapsule = Some
                              \<lparr>sm_MsgCapsule = Some msgCapsule,
                               sm_Signature = Some \<lparr>sg_PubKey = pubKey, sg_Data = sigDataBytes,
                                 sg_unknownFields = []\<rparr>,
                               sm_unknownFields = []\<rparr>\<rparr>) w of
                         ((pubRes, Some err), w) \<Rightarrow> (Some err, w)
                       | ((pubRes, None), w) \<Rightarrow>
                           if \<not> PublishRes_GetOk pubRes
                           then (Some (ErrMsg ''failed to publish msg''), w) else (None, w))))"

definition VerifyReceivedMessage ::
    "'k crypto \<Rightarrow> TimestampedSignedMsgCapsule option \<Rightarrow> string \<Rightarrow> goerr option" where
  "VerifyReceivedMessage C message expectedTopicID =
     VerifyTimestampedSignedMsgCapsule C message expectedTopicID"

section \<open>One attempt of a subscription\<close>

text \<open>
  The environment of an attempt: what the \<open>Subscribe\<close> call and the first \<open>Recv\<close> answer,
  whether the ACK timer had expired when it was stopped, the time of the ACK, and then one
  event per round of the loop: the context is done, or \<open>Recv\<close> fails, or it answers.
\<close>

datatype attempt_event =
    CtxDone goerr
  | RecvErr goerr
  | RecvRes "SubscribeRes option"

record attempt =
  at_open :: "goerr option"
  at_ack :: "goerr + SubscribeRes option"
  at_expired :: bool
  at_now :: int
  at_events :: "attempt_event list"

definition classifyACKError :: "goerr \<Rightarrow> bool \<Rightarrow> goerr" where
  "classifyACKError err expired = (if expired then ErrACKTimeout else err)"

fun receive_loop ::
    "'k crypto \<Rightarrow> bool \<Rightarrow> string \<Rightarrow> (TimestampedSignedMsgCapsule \<Rightarrow> 'h \<Rightarrow> goerr option \<times> 'h) \<Rightarrow>
     attempt_event list \<Rightarrow> 'h \<Rightarrow> goerr option \<times> 'h" where
  "receive_loop C vrf topicID handler [] h = (None, h)"
| "receive_loop C vrf topicID handler (CtxDone err # es) h = (Some err, h)"
| "receive_loop C vrf topicID handler (RecvErr err # es) h = (Some err, h)"
| "receive_loop C vrf topicID handler (RecvRes res # es) h =
     (if SubscribeRes_GetType res \<noteq> SUBSCRIBE_RES_TYPE_RELAY
      then receive_loop C vrf topicID handler es h
      else
        (case SubscribeRes_GetCapsule res of
           None \<Rightarrow> receive_loop C vrf topicID handler es h
         | Some timestamped \<Rightarrow>
             (case (if vrf then VerifyTimestampedSignedMsgCapsule C (Some timestamped) topicID
                    else None) of
                Some err \<Rightarrow> (Some (Wrapped ''verify received msg capsule'' err), h)
              | None \<Rightarrow>
                  receive_loop C vrf topicID handler es (snd (handler timestamped h)))))"

text \<open>The zero time is \<open>None\<close>.\<close>

definition subscribeAttempt ::
    "'k crypto \<Rightarrow> bool \<Rightarrow> string \<Rightarrow> (TimestampedSignedMsgCapsule \<Rightarrow> 'h \<Rightarrow> goerr option \<times> 'h) \<Rightarrow>
     attempt \<Rightarrow> 'h \<Rightarrow> (int option \<times> goerr) option \<times> 'h" where
  "subscribeAttempt C vrf topicID handler a h =
     (case at_open a of
        Some err \<Rightarrow> (Some (None, classifyACKError err (at_expired a)), h)
      | None \<Rightarrow>
          (case at_ack a of
             Inl err \<Rightarrow> (Some (None, classifyACKError err (at_expired a)), h)
           | Inr subRes \<Rightarrow>
               if at_expired a then (Some (None, ErrACKTimeout), h)
               else if SubscribeRes_GetType subRes \<noteq> SUBSCRIBE_RES_TYPE_ACK
               then (Some (None, ErrMsg ''failed to receive subscribe ack from agent''), h)
               else if \<not> SubscribeRes_GetOk subRes
               then (Some (None, ErrMsg ''failed to begin subscribing msgs''), h)
               else
                 (case receive_loop C vrf topicID handler (at_events a) h of
                    (None, h) \<Rightarrow> (None, h)
                  | (Some err, h) \<Rightarrow> (Some (Some (at_now a), err), h))))"

section \<open>Retrying\<close>

text \<open>The errors of the caller's context and of the client's own.\<close>

type_synonym contexts = "goerr option \<times> goerr option"

definition subscriptionStopped :: "contexts \<Rightarrow> (goerr option) option" where
  "subscriptionStopped cs =
     (case cs of
        (Some err, _) \<Rightarrow> if errors_is err CtxCanceled then Some None else Some (Some err)
      | (None, Some _) \<Rightarrow> Some None
      | (None, None) \<Rightarrow> None)"

definition codes_DeadlineExceeded :: nat where "codes_DeadlineExceeded = 4"

text \<open>\<open>status_Code\<close> is \<open>status.Code\<close> of the gRPC library.\<close>

definition retrySubscription :: "(goerr \<Rightarrow> nat) \<Rightarrow> goerr \<Rightarrow> bool" where
  "retrySubscription status_Code err \<longleftrightarrow>
     errors_is err ErrACKTimeout \<or> errors_is err IoEOF \<or> status_Code err = codes_Unavailable \<or>
     status_Code err = codes_DeadlineExceeded"

definition initialBackoff :: int where "initialBackoff = 100 * millisecond"
definition maxBackoff :: int where "maxBackoff = 5 * second"

definition resetBackoff :: "int option \<Rightarrow> int \<Rightarrow> int \<Rightarrow> int" where
  "resetBackoff ackedAt now backoff =
     (case ackedAt of
        None \<Rightarrow> backoff
      | Some t \<Rightarrow> if 30 * second \<le> now - t then initialBackoff else backoff)"

text \<open>
  The wait with its jitter; \<open>u\<close> is \<open>rand.Float64()\<close>. The product is taken exactly, without the
  rounding of \<open>float64\<close>, and truncated towards zero as the conversion does.
\<close>

definition go_trunc :: "rat \<Rightarrow> int" where
  "go_trunc x = (if 0 \<le> x then \<lfloor>x\<rfloor> else \<lceil>x\<rceil>)"

definition retryWait :: "int \<Rightarrow> rat \<Rightarrow> int" where
  "retryWait backoff u =
     (let wait = backoff + go_trunc (of_int backoff * (u * (4/10) - 2/10))
      in if maxBackoff < wait then maxBackoff else wait)"

definition nextBackoff :: "int \<Rightarrow> int" where
  "nextBackoff backoff =
     (if backoff < maxBackoff
      then let backoff = backoff * 2 in if maxBackoff < backoff then maxBackoff else backoff
      else backoff)"

text \<open>
  A round of the loop: the contexts at the first check, the attempt, the contexts at the
  second check, the time and the random number, and, if the subscription's context ended
  during the wait, the contexts after it. The waits are collected.
\<close>

record round =
  rd_start :: contexts
  rd_attempt :: attempt
  rd_end :: contexts
  rd_now :: int
  rd_rand :: rat
  rd_wake :: "contexts option"

fun subscribe_loop ::
    "'k crypto \<Rightarrow> (goerr \<Rightarrow> nat) \<Rightarrow> bool \<Rightarrow> string \<Rightarrow>
     (TimestampedSignedMsgCapsule \<Rightarrow> 'h \<Rightarrow> goerr option \<times> 'h) \<Rightarrow> int \<Rightarrow> round list \<Rightarrow> 'h \<Rightarrow>
     (goerr option) option \<times> int list \<times> 'h" where
  "subscribe_loop C status_Code vrf topicID handler backoff [] h = (None, [], h)"
| "subscribe_loop C status_Code vrf topicID handler backoff (r # rs) h =
     (case subscriptionStopped (rd_start r) of
        Some err \<Rightarrow> (Some err, [], h)
      | None \<Rightarrow>
          (case subscribeAttempt C vrf topicID handler (rd_attempt r) h of
             (None, h) \<Rightarrow> (None, [], h)
           | (Some (ackedAt, err), h) \<Rightarrow>
               (case subscriptionStopped (rd_end r) of
                  Some contextErr \<Rightarrow> (Some contextErr, [], h)
                | None \<Rightarrow>
                    if \<not> retrySubscription status_Code err then (Some (Some err), [], h)
                    else
                      let backoff = resetBackoff ackedAt (rd_now r) backoff;
                          wait = retryWait backoff (rd_rand r)
                      in case rd_wake r of
                           Some cs \<Rightarrow>
                             (Some (case subscriptionStopped cs of Some err \<Rightarrow> err | None \<Rightarrow> None),
                              [wait], h)
                         | None \<Rightarrow>
                             let (res, waits, h) = subscribe_loop C status_Code vrf topicID handler
                                   (nextBackoff backoff) rs h
                             in (res, wait # waits, h))))"

definition subscribe_request :: "bytes \<Rightarrow> string \<Rightarrow> bytes \<Rightarrow> SubscribeReq" where
  "subscribe_request pubKey topicID sigDataBytes =
     \<lparr>sq_TopicId = topicID,
      sq_Signature = Some \<lparr>sg_PubKey = pubKey, sg_Data = sigDataBytes, sg_unknownFields = []\<rparr>\<rparr>"

text \<open>The rounds may depend on the request that every attempt sends.\<close>

definition Client_Subscribe ::
    "'k crypto \<Rightarrow> (goerr \<Rightarrow> nat) \<Rightarrow> (bytes \<Rightarrow> goerr + bytes) \<Rightarrow> bytes \<Rightarrow> Client \<Rightarrow> string \<Rightarrow>
     (TimestampedSignedMsgCapsule \<Rightarrow> 'h \<Rightarrow> goerr option \<times> 'h) \<Rightarrow> (SubscribeReq \<Rightarrow> round list) \<Rightarrow>
     'h \<Rightarrow> (goerr option) option \<times> int list \<times> 'h" where
  "Client_Subscribe C status_Code sign pubKey c topicID handler rounds h =
     (case sign (SubscribeSigningBytes topicID) of
        Inl err \<Rightarrow> (Some (Some err), [], h)
      | Inr sigDataBytes \<Rightarrow>
          subscribe_loop C status_Code (verifyReceivedMessages c) topicID handler initialBackoff
            (rounds (subscribe_request pubKey topicID sigDataBytes)) h)"

end
