(* ===== verification/ClientSafety.thy ===== *)
theory ClientSafety
  imports Client LakeSafety
begin

text \<open>
  The properties of the client, alone and against the service of \<open>Lake\<close>: what it publishes the
  service accepts, what a stream sends its handler gets, and how it retries.
\<close>

section \<open>Handing over capsules\<close>

text \<open>
  The reference definition: the capsules that the relay responses before the first end of the
  stream carry.
\<close>

fun is_response :: "attempt_event \<Rightarrow> bool" where
  "is_response (RecvRes res) = True" | "is_response _ = False"

fun event_capsule :: "attempt_event \<Rightarrow> TimestampedSignedMsgCapsule option" where
  "event_capsule (RecvRes res) =
     (if SubscribeRes_GetType res = SUBSCRIBE_RES_TYPE_RELAY then SubscribeRes_GetCapsule res
      else None)"
| "event_capsule _ = None"

definition relayed :: "attempt_event list \<Rightarrow> TimestampedSignedMsgCapsule list" where
  "relayed es = List.map_filter event_capsule (takeWhile is_response es)"

definition verifies ::
    "'k crypto \<Rightarrow> bool \<Rightarrow> string \<Rightarrow> TimestampedSignedMsgCapsule \<Rightarrow> bool" where
  "verifies C vrf topicID t \<longleftrightarrow>
     vrf \<longrightarrow> VerifyTimestampedSignedMsgCapsule C (Some t) topicID = None"

definition handle_all ::
    "(TimestampedSignedMsgCapsule \<Rightarrow> 'h \<Rightarrow> goerr option \<times> 'h) \<Rightarrow>
     TimestampedSignedMsgCapsule list \<Rightarrow> 'h \<Rightarrow> 'h" where
  "handle_all handler ts h = fold (\<lambda>t h. snd (handler t h)) ts h"

lemma relayed_simps [simp]:
  "relayed [] = []" "relayed (CtxDone err # es) = []" "relayed (RecvErr err # es) = []"
  "relayed (RecvRes res # es) =
     (case event_capsule (RecvRes res) of None \<Rightarrow> relayed es | Some t \<Rightarrow> t # relayed es)"
  by (simp_all add: relayed_def map_filter_simps del: event_capsule.simps split: option.split)

lemma handle_all_simps [simp]:
  "handle_all handler [] h = h"
  "handle_all handler (t # ts) h = handle_all handler ts (snd (handler t h))"
  by (simp_all add: handle_all_def)

lemma receive_loop_handles:
  "snd (receive_loop C vrf topicID handler es h) =
     handle_all handler (takeWhile (verifies C vrf topicID) (relayed es)) h"
  by (induction C vrf topicID handler es h rule: receive_loop.induct)
    (auto simp: verifies_def split: option.split)

text \<open>
  The receive loop is its specification: the handler gets, once each and in order, exactly
  the capsules of the relay responses up to the end of the stream, or up to the first capsule
  that does not verify when verification is on. Handler errors and other responses do not
  interrupt it; an attempt that is not acknowledged hands over nothing.
\<close>

theorem attempt_hands_over_exactly:
  "snd (subscribeAttempt C vrf topicID handler a h) =
     (if at_open a = None \<and> \<not> at_expired a \<and>
         (\<exists>res. at_ack a = Inr res \<and> SubscribeRes_GetType res = SUBSCRIBE_RES_TYPE_ACK \<and>
            SubscribeRes_GetOk res)
      then handle_all handler (takeWhile (verifies C vrf topicID) (relayed (at_events a))) h
      else h)"
  by (auto simp: subscribeAttempt_def receive_loop_handles [symmetric]
      split: option.split sum.split prod.split)

section \<open>The whole subscription\<close>

lemma attempt_hands_over:
  "\<exists>ts. snd (subscribeAttempt C vrf topicID handler a h) = handle_all handler ts h \<and>
     list_all (verifies C vrf topicID) ts"
proof -
  have none: "\<exists>ts. g = handle_all handler ts g \<and> list_all (verifies C vrf topicID) ts" for g
    by (rule exI [of _ "[]"]) simp
  have some: "\<exists>ts. snd (receive_loop C vrf topicID handler es h) = handle_all handler ts h \<and>
      list_all (verifies C vrf topicID) ts" for es
    by (rule exI [of _ "takeWhile (verifies C vrf topicID) (relayed es)"])
      (auto simp: receive_loop_handles list_all_iff dest: set_takeWhileD)
  show ?thesis
    using none [of h] some [of "at_events a"]
    by (auto simp: subscribeAttempt_def split: option.split sum.split prod.split)
qed

lemma handle_all_append: "handle_all handler (ts @ us) h = handle_all handler us (handle_all handler ts h)"
  by (simp add: handle_all_def)

lemma loop_hands_over:
  "\<exists>ts. snd (snd (subscribe_loop C status_Code vrf topicID handler backoff rs h)) =
     handle_all handler ts h \<and> list_all (verifies C vrf topicID) ts"
proof (induction rs arbitrary: backoff h)
  case Nil
  show ?case by (rule exI [of _ "[]"]) simp
next
  case (Cons r rs)
  have none: "\<exists>ts. h = handle_all handler ts h \<and> list_all (verifies C vrf topicID) ts"
    by (rule exI [of _ "[]"]) simp
  obtain res h' where at: "subscribeAttempt C vrf topicID handler (rd_attempt r) h = (res, h')"
    by force
  obtain ts where ts: "h' = handle_all handler ts h" "list_all (verifies C vrf topicID) ts"
    using attempt_hands_over [of C vrf topicID handler "rd_attempt r" h] at by auto
  have more: "\<exists>us. snd (snd (subscribe_loop C status_Code vrf topicID handler b rs h')) =
      handle_all handler us h \<and> list_all (verifies C vrf topicID) us" for b
  proof -
    obtain us where "snd (snd (subscribe_loop C status_Code vrf topicID handler b rs h')) =
        handle_all handler us h'" "list_all (verifies C vrf topicID) us"
      using Cons.IH by blast
    with ts show ?thesis by (intro exI [of _ "ts @ us"]) (simp add: handle_all_append)
  qed
  have one: "\<exists>us. h' = handle_all handler us h \<and> list_all (verifies C vrf topicID) us"
    using ts by blast
  show ?case
  proof (cases "subscriptionStopped (rd_start r)")
    case (Some e)
    with none show ?thesis by simp
  next
    case go: None
    show ?thesis
    proof (cases res)
      case None
      with go one at show ?thesis by simp
    next
      case (Some x)
      with go one at more show ?thesis
        by (cases x) (simp add: Let_def split_beta split: option.split)
    qed
  qed
qed

text \<open>
  C29. With verification on, whatever the connection delivers over all attempts, the handler is
  called only with capsules of the subscribed topic that carry a valid signature of their
  deterministic encoding.
\<close>

theorem only_verified_handled:
  assumes "verifyReceivedMessages c"
    and "Client_Subscribe C status_Code sign pubKey c topicID handler rounds h = (res, waits, h')"
  shows "\<exists>ts. h' = handle_all handler ts h \<and>
    (\<forall>t \<in> set ts. \<exists>s m sg data. ts_SignedMsgCapsule t = Some s \<and> sm_MsgCapsule s = Some m \<and>
       sm_Signature s = Some sg \<and> mc_TopicId m = topicID \<and>
       deterministicMarshal C m = Inr data \<and> valid_sig C sg data)"
proof (cases "sign (SubscribeSigningBytes topicID)")
  case (Inl err)
  with assms show ?thesis by (intro exI [of _ "[]"]) (auto simp: Client_Subscribe_def)
next
  case (Inr sg)
  let ?rs = "rounds (subscribe_request pubKey topicID sg)"
  obtain ts where "h' = handle_all handler ts h" "list_all (verifies C True topicID) ts"
    using loop_hands_over [of C status_Code True topicID handler initialBackoff ?rs h] assms Inr
    by (auto simp: Client_Subscribe_def)
  moreover from this(2) have "\<forall>t \<in> set ts. VerifyTimestampedSignedMsgCapsule C (Some t) topicID = None"
    by (simp add: list_all_iff verifies_def)
  ultimately show ?thesis unfolding timestamped_accept by blast
qed

text \<open>
  Why a subscription ends, in terms of what its environment does. A context that is done: the
  caller's has been cancelled, or has ended with another error, or the client was closed.
\<close>

definition ended_by :: "contexts \<Rightarrow> goerr option \<Rightarrow> bool" where
  "ended_by cs res \<longleftrightarrow>
     (case res of
        None \<Rightarrow> (\<exists>err. fst cs = Some err \<and> errors_is err CtxCanceled) \<or> fst cs = None \<and> snd cs \<noteq> None
      | Some err \<Rightarrow> fst cs = Some err \<and> \<not> errors_is err CtxCanceled)"

text \<open>The errors after which it is worth trying again; 14 and 4 are the codes of gRPC.\<close>

definition transient :: "(goerr \<Rightarrow> nat) \<Rightarrow> goerr \<Rightarrow> bool" where
  "transient status_Code err \<longleftrightarrow>
     errors_is err ErrACKTimeout \<or> errors_is err IoEOF \<or> status_Code err = 14 \<or> status_Code err = 4"

text \<open>A round that makes its attempt, and the error that the attempt ends with.\<close>

definition attempted ::
    "'k crypto \<Rightarrow> bool \<Rightarrow> string \<Rightarrow> (TimestampedSignedMsgCapsule \<Rightarrow> 'h \<Rightarrow> goerr option \<times> 'h) \<Rightarrow>
     round \<Rightarrow> goerr \<Rightarrow> bool" where
  "attempted C vrf topicID handler r err \<longleftrightarrow>
     rd_start r = (None, None) \<and>
     (\<exists>h acked h'. subscribeAttempt C vrf topicID handler (rd_attempt r) h = (Some (acked, err), h'))"

text \<open>A round after which another one follows, and the round in which the subscription ends.\<close>

definition tried_again ::
    "'k crypto \<Rightarrow> (goerr \<Rightarrow> nat) \<Rightarrow> bool \<Rightarrow> string \<Rightarrow>
     (TimestampedSignedMsgCapsule \<Rightarrow> 'h \<Rightarrow> goerr option \<times> 'h) \<Rightarrow> round \<Rightarrow> bool" where
  "tried_again C status_Code vrf topicID handler r \<longleftrightarrow>
     (\<exists>err. attempted C vrf topicID handler r err \<and> transient status_Code err) \<and>
     rd_end r = (None, None) \<and> rd_wake r = None"

definition ends_in ::
    "'k crypto \<Rightarrow> (goerr \<Rightarrow> nat) \<Rightarrow> bool \<Rightarrow> string \<Rightarrow>
     (TimestampedSignedMsgCapsule \<Rightarrow> 'h \<Rightarrow> goerr option \<times> 'h) \<Rightarrow> round \<Rightarrow> goerr option \<Rightarrow> bool" where
  "ends_in C status_Code vrf topicID handler r res \<longleftrightarrow>
     ended_by (rd_start r) res \<or>
     (\<exists>err. attempted C vrf topicID handler r err \<and>
        (ended_by (rd_end r) res \<or>
         rd_end r = (None, None) \<and> \<not> transient status_Code err \<and> res = Some err \<or>
         rd_end r = (None, None) \<and> transient status_Code err \<and>
           (\<exists>cs. rd_wake r = Some cs \<and> ended_by cs res)))"

lemma stopped_None: "subscriptionStopped cs = None \<longleftrightarrow> cs = (None, None)"
  by (auto simp: subscriptionStopped_def split: prod.splits option.splits if_splits)

lemma stopped_Some: "subscriptionStopped cs = Some res \<Longrightarrow> ended_by cs res"
  by (auto simp: subscriptionStopped_def ended_by_def split: prod.splits option.splits if_splits)

lemma retry_transient: "retrySubscription status_Code err = transient status_Code err"
  by (simp add: retrySubscription_def transient_def codes_Unavailable_def codes_DeadlineExceeded_def)

lemma loop_ends:
  assumes "\<forall>r \<in> set rs. rd_wake r \<noteq> Some (None, None)"
    and "fst (subscribe_loop C status_Code vrf topicID handler backoff rs h) = Some res"
  shows "\<exists>pre r post. rs = pre @ r # post \<and>
    list_all (tried_again C status_Code vrf topicID handler) pre \<and>
    ends_in C status_Code vrf topicID handler r res"
  using assms
proof (induction rs arbitrary: backoff h)
  case (Cons r rs)
  have here: ?case if "ends_in C status_Code vrf topicID handler r res"
    using that by (intro exI [of _ "[]"]) simp
  show ?case
  proof (cases "subscriptionStopped (rd_start r)")
    case (Some e)
    then show ?thesis using Cons.prems(2) stopped_Some [OF Some] by (intro here) (simp add: ends_in_def)
  next
    case go: None
    obtain x h' where at: "subscribeAttempt C vrf topicID handler (rd_attempt r) h = (x, h')"
      by force
    with go Cons.prems obtain ackedAt err where x: "x = Some (ackedAt, err)"
      by (cases x) auto
    have made: "attempted C vrf topicID handler r err"
      using at go x by (auto simp: attempted_def stopped_None)
    show ?thesis
    proof (cases "subscriptionStopped (rd_end r)")
      case (Some e)
      then show ?thesis
        using Cons.prems(2) go at x made stopped_Some [OF Some] by (intro here) (auto simp: ends_in_def)
    next
      case going: None
      then have alive: "rd_end r = (None, None)" by (simp add: stopped_None)
      show ?thesis
      proof (cases "transient status_Code err")
        case False
        then show ?thesis
          using Cons.prems(2) go at x going made alive
          by (intro here) (auto simp: ends_in_def retry_transient)
      next
        case True
        show ?thesis
        proof (cases "rd_wake r")
          case None
          then have "fst (subscribe_loop C status_Code vrf topicID handler
              (nextBackoff (resetBackoff ackedAt (rd_now r) backoff)) rs h') = Some res"
            using Cons.prems(2) go at x going True by (simp add: Let_def split_beta retry_transient)
          then obtain pre q post where "rs = pre @ q # post"
            "list_all (tried_again C status_Code vrf topicID handler) pre"
            "ends_in C status_Code vrf topicID handler q res"
            using Cons.IH Cons.prems(1) by (metis list.set_intros(2))
          moreover have "tried_again C status_Code vrf topicID handler r"
            using made True alive None by (auto simp: tried_again_def)
          ultimately show ?thesis
            by (intro exI [of _ "r # pre"] exI [of _ q] exI [of _ post]) simp
        next
          case (Some cs)
          with Cons.prems(1) obtain e where e: "subscriptionStopped cs = Some e"
            by (metis list.set_intros(1) option.exhaust stopped_None)
          then show ?thesis
            using Some Cons.prems(2) go at x going True made alive stopped_Some [OF e]
            by (intro here) (auto simp: ends_in_def retry_transient Let_def)
        qed
      qed
    qed
  qed
qed simp

text \<open>
  C30. When \<open>Subscribe\<close> returns, the request could not be signed, and that error is returned; or
  it has made some rounds, each ended by an ACK timeout, an end of file, \<open>Unavailable\<close> or
  \<open>DeadlineExceeded\<close> with both contexts alive, and then one last round. In that one it returns nil
  only because the caller's context was cancelled or the client closed, an error of a context only
  if it is that of the caller's context and not a cancellation, and otherwise exactly the error
  that the last attempt returned, which is none of the four, with both contexts alive. It never
  gives up on one of the four, and never makes up an error.
\<close>

theorem subscribe_ends_for_a_reason:
  assumes "\<And>req r. r \<in> set (rounds req) \<Longrightarrow> rd_wake r \<noteq> Some (None, None)"
    and "fst (Client_Subscribe C status_Code sign pubKey c topicID handler rounds h) = Some res"
  shows "case sign (SubscribeSigningBytes topicID) of
      Inl err \<Rightarrow> res = Some err
    | Inr sg \<Rightarrow> \<exists>pre r post. rounds (subscribe_request pubKey topicID sg) = pre @ r # post \<and>
        list_all (tried_again C status_Code (verifyReceivedMessages c) topicID handler) pre \<and>
        ends_in C status_Code (verifyReceivedMessages c) topicID handler r res"
proof (cases "sign (SubscribeSigningBytes topicID)")
  case (Inl err)
  with assms(2) show ?thesis by (simp add: Client_Subscribe_def)
next
  case (Inr sg)
  with assms(2) have "fst (subscribe_loop C status_Code (verifyReceivedMessages c) topicID handler
      initialBackoff (rounds (subscribe_request pubKey topicID sg)) h) = Some res"
    by (simp add: Client_Subscribe_def)
  from loop_ends [OF _ this] assms(1) Inr show ?thesis by simp
qed

section \<open>Back-off\<close>

lemma go_trunc_bounds: "\<bar>x\<bar> \<le> of_int n \<Longrightarrow> \<bar>go_trunc x\<bar> \<le> n"
  by (simp add: go_trunc_def) linarith

lemma retryWait_bounds:
  assumes "0 \<le> u" "u < 1" "0 \<le> b" "b \<le> maxBackoff" "b mod 5 = 0"
  shows "b - b div 5 \<le> retryWait b u" "retryWait b u \<le> b + b div 5" "retryWait b u \<le> maxBackoff"
proof -
  define k where "k = b div 5"
  have k: "b = 5 * k" using assms(5) unfolding k_def by (metis dvd_mult_div_cancel mod_0_imp_dvd)
  have k0: "0 \<le> k" using assms(3) by (simp add: k_def pos_imp_zdiv_nonneg_iff)
  have "of_int b * (u * (4/10) - 2/10) = of_int k * (2 * u - 1)"
    using k by (simp add: algebra_simps)
  then have "\<bar>of_int b * (u * (4/10) - 2/10)\<bar> = of_int k * \<bar>2 * u - 1\<bar>"
    using k0 by (simp add: abs_mult)
  also have "\<dots> \<le> of_int k * 1"
    using assms(1,2) k0 by (intro mult_left_mono) auto
  finally have "\<bar>go_trunc (of_int b * (u * (4/10) - 2/10))\<bar> \<le> k"
    by (intro go_trunc_bounds) simp
  with k k0 assms(4) show "b - b div 5 \<le> retryWait b u" "retryWait b u \<le> b + b div 5"
    "retryWait b u \<le> maxBackoff"
    by (auto simp: retryWait_def Let_def)
qed

lemmas durations = initialBackoff_def maxBackoff_def second_def millisecond_def

definition backoff_ok :: "int \<Rightarrow> bool" where
  "backoff_ok b \<longleftrightarrow> initialBackoff \<le> b \<and> b \<le> maxBackoff \<and> b mod 5 = 0"

lemma backoff_ok_initial [simp]: "backoff_ok initialBackoff"
  by (simp add: backoff_ok_def durations)

lemma backoff_ok_next: "backoff_ok b \<Longrightarrow> backoff_ok (nextBackoff b)"
  by (auto simp: backoff_ok_def nextBackoff_def durations Let_def)

lemma backoff_ok_reset: "backoff_ok b \<Longrightarrow> backoff_ok (resetBackoff t now b)"
  by (simp add: resetBackoff_def split: option.split)

lemma wait_ok:
  assumes "backoff_ok b" and "0 \<le> u" "u < 1"
  shows "80 * millisecond \<le> retryWait b u \<and> retryWait b u \<le> 5 * second"
proof -
  have b: "initialBackoff \<le> b" "b \<le> maxBackoff" "b mod 5 = 0"
    using assms(1) by (simp_all add: backoff_ok_def)
  then have "80 * millisecond \<le> b - b div 5" "0 \<le> b" by (simp_all add: durations)
  with retryWait_bounds [of u b] assms(2,3) b show ?thesis
    by (simp add: maxBackoff_def)
qed

lemma loop_waits:
  assumes "\<forall>r \<in> set rs. 0 \<le> rd_rand r \<and> rd_rand r < 1" and "backoff_ok backoff"
  shows "\<forall>w \<in> set (fst (snd (subscribe_loop C status_Code vrf topicID handler backoff rs h))).
    80 * millisecond \<le> w \<and> w \<le> 5 * second"
  using assms
proof (induction rs arbitrary: backoff h)
  case (Cons r rs)
  obtain x h' where at: "subscribeAttempt C vrf topicID handler (rd_attempt r) h = (x, h')"
    by force
  let ?b = "\<lambda>t. resetBackoff t (rd_now r) backoff"
  have wait: "80 * millisecond \<le> retryWait (?b t) (rd_rand r) \<and>
      retryWait (?b t) (rd_rand r) \<le> 5 * second" for t
    using Cons.prems by (intro wait_ok backoff_ok_reset) simp_all
  have rest: "\<forall>w \<in> set (fst (snd (subscribe_loop C status_Code vrf topicID handler
      (nextBackoff (?b t)) rs h'))). 80 * millisecond \<le> w \<and> w \<le> 5 * second" for t
    by (rule Cons.IH) (use Cons.prems in \<open>simp_all add: backoff_ok_next backoff_ok_reset\<close>)
  show ?case
    using wait rest by (auto simp: at Let_def split_beta split: option.split)
qed simp

text \<open>
  C32. Every wait between two attempts is between 80 milliseconds and 5 seconds, whatever the
  attempts do and whatever the random numbers are.
\<close>

theorem waits_bounded:
  assumes "\<And>req r. r \<in> set (rounds req) \<Longrightarrow> 0 \<le> rd_rand r \<and> rd_rand r < 1"
    and "w \<in> set (fst (snd (Client_Subscribe C status_Code sign pubKey c topicID handler rounds h)))"
  shows "80 * millisecond \<le> w \<and> w \<le> 5 * second"
proof (cases "sign (SubscribeSigningBytes topicID)")
  case (Inl err)
  with assms(2) show ?thesis by (simp add: Client_Subscribe_def)
next
  case (Inr sg)
  with assms show ?thesis
    using loop_waits [of "rounds (subscribe_request pubKey topicID sg)" initialBackoff C status_Code
        "verifyReceivedMessages c" topicID handler h]
    by (auto simp: Client_Subscribe_def)
qed

text \<open>The back-off after \<open>k\<close> failures in a row.\<close>

lemma next_backoff_pow: "(nextBackoff ^^ k) initialBackoff = min (initialBackoff * 2 ^ k) maxBackoff"
proof (induction k)
  case 0
  show ?case by (simp add: durations)
next
  case (Suc k)
  then show ?case by (auto simp: nextBackoff_def Let_def durations min_def)
qed

definition unreachable_round :: "(goerr \<Rightarrow> nat) \<Rightarrow> round \<Rightarrow> bool" where
  "unreachable_round status_Code r \<longleftrightarrow>
     rd_start r = (None, None) \<and> rd_end r = (None, None) \<and> rd_wake r = None \<and>
     (case at_open (rd_attempt r) of None \<Rightarrow> False | Some err \<Rightarrow>
        retrySubscription status_Code (classifyACKError err (at_expired (rd_attempt r))))"

lemma unreachable_loop:
  assumes "list_all (unreachable_round status_Code) rs"
  shows "subscribe_loop C status_Code vrf topicID handler ((nextBackoff ^^ k) initialBackoff) rs h =
    (None, List.map (\<lambda>i. retryWait (min (initialBackoff * 2 ^ (k + i)) maxBackoff) (rd_rand (rs ! i)))
       [0..<length rs], h)"
  using assms
proof (induction rs arbitrary: k)
  case (Cons r rs)
  let ?w = "\<lambda>rs k i. retryWait (min (initialBackoff * 2 ^ (k + i)) maxBackoff) (rd_rand (rs ! i))"
  obtain err where err: "at_open (rd_attempt r) = Some err"
    "retrySubscription status_Code (classifyACKError err (at_expired (rd_attempt r)))"
    using Cons.prems by (auto simp: unreachable_round_def split: option.splits)
  have run: "subscribe_loop C status_Code vrf topicID handler
      (nextBackoff ((nextBackoff ^^ k) initialBackoff)) rs h =
      (None, List.map (?w rs (Suc k)) [0..<length rs], h)"
    using Cons.IH [of "Suc k"] Cons.prems by simp
  have "List.map (?w (r # rs) k) [0..<length (r # rs)] =
      ?w (r # rs) k 0 # List.map (?w rs (Suc k)) [0..<length rs]"
    by (simp add: map_upt_Suc del: upt_Suc)
  moreover have "retryWait ((nextBackoff ^^ k) initialBackoff) (rd_rand r) = ?w (r # rs) k 0"
    by (simp add: next_backoff_pow)
  ultimately show ?case
    using Cons.prems err run
    by (simp add: unreachable_round_def subscribeAttempt_def subscriptionStopped_def
        resetBackoff_def Let_def del: upt_Suc)
qed simp

text \<open>
  C31. Exponential back-off: while the service cannot be reached, the client keeps trying, and
  its waits are the jittered values of 100 milliseconds, 200, 400 and so on, capped at 5
  seconds.
\<close>

theorem backoff_doubles:
  assumes "sign (SubscribeSigningBytes topicID) = Inr sg"
    and "rs = rounds (subscribe_request pubKey topicID sg)" "list_all (unreachable_round status_Code) rs"
  shows "Client_Subscribe C status_Code sign pubKey c topicID handler rounds h =
    (None, List.map (\<lambda>i. retryWait (min (100 * millisecond * 2 ^ i) (5 * second)) (rd_rand (rs ! i)))
       [0..<length rs], h)"
  using unreachable_loop [OF assms(3), of C "verifyReceivedMessages c" topicID handler 0 h] assms(1,2)
  by (simp add: Client_Subscribe_def initialBackoff_def maxBackoff_def)

section \<open>Against the service\<close>

definition publish_ok ::
    "'k crypto \<Rightarrow> (string \<Rightarrow> 'w \<Rightarrow> (goerr + 'b) \<times> 'w) \<Rightarrow>
     ('b \<Rightarrow> SignedMsgCapsule option \<Rightarrow> 'w \<Rightarrow> goerr option \<times> 'w) \<Rightarrow> SignedMsgCapsule \<Rightarrow> 'w \<Rightarrow> bool" where
  "publish_ok C getBox publish sc w \<longleftrightarrow>
     (\<exists>b u. getBox (MsgCapsule_GetTopicId (sm_MsgCapsule sc)) w = (Inr b, u) \<and>
        fst (publish b (Some sc) u) = None)"

text \<open>
  C28. Publishing end to end: with a key whose signatures verify, the client's \<open>Publish\<close>
  against the service's \<open>Publish\<close> succeeds exactly when the service is not shutting down, the
  topic has 1 to 64 bytes and the box accepts the very capsule the client has signed, which
  holds the topic and the encoded message.
\<close>

theorem client_service_publish:
  assumes key: "GenPubKeyFromBytes C pubKey = Inr k" "pubKey \<noteq> []"
      "\<And>data sg. sign data = Inr sg \<Longrightarrow> PubKeyVerify C k data sg"
    and calls: "json_Marshal message = Inr data"
      "m = \<lparr>mc_TopicId = topicID, mc_Data = data, mc_IsEncrypted = False, mc_unknownFields = []\<rparr>"
      "deterministicMarshal C m = Inr bs" "sign bs = Inr sg"
  shows "fst (Client_Publish C json_Marshal sign pubKey (Service_Publish C getBox publish sh)
      topicID message w) = None \<longleftrightarrow>
    \<not> sh \<and> 1 \<le> length topicID \<and> length topicID \<le> 64 \<and>
    publish_ok C getBox publish \<lparr>sm_MsgCapsule = Some m,
      sm_Signature = Some \<lparr>sg_PubKey = pubKey, sg_Data = sg, sg_unknownFields = []\<rparr>,
      sm_unknownFields = []\<rparr> w"
proof -
  have "valid_sig C \<lparr>sg_PubKey = pubKey, sg_Data = sg, sg_unknownFields = []\<rparr> bs"
    using key calls(4) by (simp add: valid_sig_def)
  then have "VerifySignedMsgCapsule C (Some \<lparr>sm_MsgCapsule = Some m,
      sm_Signature = Some \<lparr>sg_PubKey = pubKey, sg_Data = sg, sg_unknownFields = []\<rparr>,
      sm_unknownFields = []\<rparr>) = None"
    using calls(3) by (simp add: signed_accept)
  moreover have "MsgCapsuleSigningBytes C (Some m) = Inr bs"
    using calls(3) by (simp add: MsgCapsuleSigningBytes_def)
  ultimately show ?thesis
    using key(1) calls(1,4) unfolding calls(2)
    by (auto simp: Client_Publish_def Service_Publish_def Publish_admitted_def publish_ok_def
        Let_def capsule_getters PublishReq_GetSignedMsgCapsule_def PublishRes_GetOk_def
        CheckStrLen_def MinTopicIDLen_def MaxTopicIDLen_def status_unavailable_def
        split: sum.split prod.split option.split)
qed

lemma relayed_relays:
  "\<forall>x \<in> set rs. \<exists>c. x = relay_res c \<Longrightarrow>
   relayed (List.map (\<lambda>r. RecvRes (Some r)) rs) = capsules rs"
  by (induction rs) (auto simp: relay_res_def response_getters capsules_def map_filter_simps)

lemma first_responses:
  "SubscribeRes_GetType (Some (fail_res req)) = SUBSCRIBE_RES_TYPE_ACK"
  "\<not> SubscribeRes_GetOk (Some (fail_res req))"
  "SubscribeRes_GetType (Some (ack_res req i)) = SUBSCRIBE_RES_TYPE_ACK"
  "SubscribeRes_GetOk (Some (ack_res req i))"
  by (simp_all add: fail_res_def ack_res_def response_getters)

text \<open>
  C27. Relaying end to end: a client that receives what a stream of the service has sent learns
  that it was refused exactly when the stream has not joined; otherwise its handler gets, in
  order, the capsules that the box has put into the subscriber's queue, a prefix of them (up to
  the first that does not verify, when verification is on).
\<close>

theorem stream_reaches_handler:
  assumes "lake_reachable C v" and "st = streams v i" and "st_sent st = r # rs"
    and "at_open a = None" "\<not> at_expired a" "at_ack a = Inr (Some r)"
      "at_events a = List.map (\<lambda>r. RecvRes (Some r)) rs"
  shows "if st_sub st = None
    then subscribeAttempt C' vrf topicID handler a h =
      (Some (None, ErrMsg ''failed to begin subscribing msgs''), h)
    else \<exists>ts. snd (subscribeAttempt C' vrf topicID handler a h) =
        handle_all handler (takeWhile (verifies C' vrf topicID) ts) h \<and>
      ts = capsules (st_sent st) \<and> prefix ts (st_pushed st)"
proof -
  have out: "out_ok (shuttingDown v) st"
    using stream_ok [OF assms(1), of i] assms(2) by (simp add: st_ok_def)
  then have r: "r = first_res st" "\<forall>x \<in> set rs. \<exists>c. x = relay_res c"
    using assms(3) by (simp_all add: out_ok_def)
  have "prefix (capsules (st_sent st)) (st_pushed st)"
    using out by (auto simp: out_ok_def prefix_def)
  moreover have "capsules (st_sent st) = capsules rs" using assms(3) r(1) by simp
  ultimately show ?thesis
    using assms(4-7) r(1) relayed_relays [OF r(2)]
      receive_loop_handles [of C' vrf topicID handler "at_events a" h]
    by (auto simp: subscribeAttempt_def first_res_def first_responses
        split: option.split prod.split if_splits)
qed

section \<open>Instances\<close>

definition toy_record :: "TimestampedSignedMsgCapsule \<Rightarrow> TimestampedSignedMsgCapsule list \<Rightarrow>
    goerr option \<times> TimestampedSignedMsgCapsule list" where
  "toy_record t h = (None, h @ [t])"

definition toy_attempt :: attempt where
  "toy_attempt = \<lparr>at_open = None, at_ack = Inr (Some (ack_res toy_req toy_id)), at_expired = False,
     at_now = 0, at_events = [RecvRes (Some (relay_res toy_capsule))]\<rparr>"

theorem stream_reaches_handler_witness:
  "snd (subscribeAttempt toy_crypto False ''t'' toy_record toy_attempt []) = [toy_capsule]"
proof -
  have sent: "st_sent s12 = [ack_res toy_req toy_id, relay_res toy_capsule]" "st_sub s12 \<noteq> None"
    by (simp_all add: s_defs)
  moreover have "at_open toy_attempt = None" "\<not> at_expired toy_attempt"
    "at_ack toy_attempt = Inr (Some (ack_res toy_req toy_id))"
    "at_events toy_attempt = List.map (\<lambda>r. RecvRes (Some r)) [relay_res toy_capsule]"
    by (simp_all add: toy_attempt_def)
  moreover have "verifies toy_crypto False ''t'' toy_capsule" by (simp add: verifies_def)
  ultimately show ?thesis
    using stream_reaches_handler [OF lake_run(4), of s12 0 "ack_res toy_req toy_id"
        "[relay_res toy_capsule]" toy_attempt toy_crypto False "''t''" toy_record "[]"]
    by (auto simp: toy_record_def)
qed

definition toy_client :: Client where
  "toy_client = \<lparr>verifyReceivedMessages = True, cl_closed = False, cl_closeOnce = False,
     cl_connCloses = 0, ackTimeout = 5 * second\<rparr>"

definition toy_down :: round where
  "toy_down = \<lparr>rd_start = (None, None),
     rd_attempt = \<lparr>at_open = Some (Status 14 []), at_ack = Inl IoEOF, at_expired = False, at_now = 0,
       at_events = []\<rparr>,
     rd_end = (None, None), rd_now = 0, rd_rand = 1/2, rd_wake = None\<rparr>"

definition toy_code :: "goerr \<Rightarrow> nat" where
  "toy_code err = (case err of Status n m \<Rightarrow> n | _ \<Rightarrow> 2)"

lemma toy_down: "unreachable_round toy_code toy_down"
  by (simp add: unreachable_round_def toy_down_def retrySubscription_def classifyACKError_def
      toy_code_def codes_Unavailable_def)

theorem backoff_doubles_witness:
  "fst (snd (Client_Subscribe toy_crypto toy_code (\<lambda>d. Inr d) [1] toy_client ''t'' toy_record
     (\<lambda>_. [toy_down, toy_down, toy_down]) [])) =
   [100 * millisecond, 200 * millisecond, 400 * millisecond]"
proof -
  have "[0..<length [toy_down, toy_down, toy_down]] = [0, 1, 2]" by (simp add: upt_rec)
  moreover have "list_all (unreachable_round toy_code) [toy_down, toy_down, toy_down]"
    by (simp add: toy_down)
  moreover have "rd_rand toy_down = 1 / 2" by (simp add: toy_down_def)
  ultimately show ?thesis
    using backoff_doubles [of "\<lambda>d. Inr d" "''t''" "bytes_of_string ''t''" "[toy_down, toy_down, toy_down]"
        "\<lambda>_. [toy_down, toy_down, toy_down]" "[1]" toy_code toy_crypto toy_client toy_record "[]"]
    by (simp add: SubscribeSigningBytes_def retryWait_def go_trunc_def Let_def durations
        del: upt_Suc list.size)
qed

theorem waits_bounded_witness:
  "80 * millisecond \<le> hd (fst (snd (Client_Subscribe toy_crypto toy_code (\<lambda>d. Inr d) [1] toy_client
     ''t'' toy_record (\<lambda>_. [toy_down]) [])))"
proof -
  let ?loop = "Client_Subscribe toy_crypto toy_code (\<lambda>d. Inr d) [1] toy_client ''t'' toy_record
     (\<lambda>_. [toy_down]) []"
  have "fst (snd ?loop) \<noteq> []"
    using unreachable_loop [of toy_code "[toy_down]" toy_crypto True "''t''" toy_record 0 "[]"] toy_down
    by (simp add: Client_Subscribe_def toy_client_def SubscribeSigningBytes_def)
  then have "hd (fst (snd ?loop)) \<in> set (fst (snd ?loop))" by (rule hd_in_set)
  moreover have "0 \<le> rd_rand r \<and> rd_rand r < 1" if "r \<in> set [toy_down]" for r
    using that by (simp add: toy_down_def)
  ultimately show ?thesis
    using waits_bounded [of "\<lambda>_. [toy_down]" "hd (fst (snd ?loop))" toy_crypto toy_code "\<lambda>d. Inr d"
        "[1]" toy_client "''t''" toy_record "[]"] by blast
qed

text \<open>A round in which the caller's deadline passes while the client waits.\<close>

definition toy_expired :: round where
  "toy_expired = toy_down\<lparr>rd_wake := Some (Some (External 4), None)\<rparr>"

theorem subscribe_ends_for_a_reason_witness:
  "\<exists>pre r post. [toy_down, toy_expired] = pre @ r # post \<and>
     list_all (tried_again toy_crypto toy_code True ''t'' toy_record) pre \<and>
     ends_in toy_crypto toy_code True ''t'' toy_record r (Some (External 4))"
proof -
  have "fst (Client_Subscribe toy_crypto toy_code (\<lambda>d. Inr d) [1] toy_client ''t'' toy_record
      (\<lambda>_. [toy_down, toy_expired]) []) = Some (Some (External 4))"
    by (simp add: Client_Subscribe_def toy_client_def toy_expired_def toy_down_def
        subscribeAttempt_def subscriptionStopped_def retrySubscription_def classifyACKError_def
        toy_code_def codes_Unavailable_def Let_def)
  moreover have "rd_wake r \<noteq> Some (None, None)" if "r \<in> set [toy_down, toy_expired]" for r
    using that by (auto simp: toy_expired_def toy_down_def)
  moreover have "verifyReceivedMessages toy_client" by (simp add: toy_client_def)
  ultimately show ?thesis
    using subscribe_ends_for_a_reason [of "\<lambda>_. [toy_down, toy_expired]" toy_crypto toy_code "\<lambda>d. Inr d"
        "[1]" toy_client "''t''" toy_record "[]" "Some (External 4)"] by simp
qed

text \<open>A stream that sends a well-signed capsule of the topic and then one of another topic.\<close>

definition toy_relayed :: "string \<Rightarrow> TimestampedSignedMsgCapsule" where
  "toy_relayed topicID = \<lparr>ts_Timestamp = 0,
     ts_SignedMsgCapsule = Some
       \<lparr>sm_MsgCapsule = Some \<lparr>mc_TopicId = topicID, mc_Data = [], mc_IsEncrypted = False,
          mc_unknownFields = []\<rparr>,
        sm_Signature = Some \<lparr>sg_PubKey = [1], sg_Data = [], sg_unknownFields = []\<rparr>,
        sm_unknownFields = []\<rparr>,
     ts_unknownFields = []\<rparr>"

definition toy_mixed :: round where
  "toy_mixed = toy_down\<lparr>rd_attempt := toy_attempt\<lparr>at_events :=
     [RecvRes (Some (relay_res (toy_relayed ''t''))), RecvRes (Some (relay_res (toy_relayed ''u'')))]\<rparr>\<rparr>"

theorem only_verified_handled_witness:
  "\<exists>ts. [toy_relayed ''t''] = handle_all toy_record ts [] \<and>
     list_all (\<lambda>t. MsgCapsule_GetTopicId (capsule_of (Some t)) = ''t'') ts"
proof -
  have "verifyReceivedMessages toy_client" by (simp add: toy_client_def)
  moreover obtain res waits h' where run: "Client_Subscribe toy_crypto toy_code (\<lambda>d. Inr d) [1]
      toy_client ''t'' toy_record (\<lambda>_. [toy_mixed]) [] = (res, waits, h')"
    by (cases "Client_Subscribe toy_crypto toy_code (\<lambda>d. Inr d) [1] toy_client ''t'' toy_record
      (\<lambda>_. [toy_mixed]) []")
  moreover have "h' = [toy_relayed ''t'']"
    using run first_responses
    by (simp add: Client_Subscribe_def toy_client_def toy_mixed_def toy_down_def toy_attempt_def
        subscribeAttempt_def subscriptionStopped_def retrySubscription_def
        toy_code_def codes_Unavailable_def codes_DeadlineExceeded_def Let_def relay_res_def
        response_getters toy_record_def
        VerifyTimestampedSignedMsgCapsule_def VerifySignedMsgCapsule_def verify_def
        MsgCapsuleSigningBytes_def capsule_getters toy_relayed_def toy_crypto_def ack_res_def
        res_types)
  ultimately show ?thesis
    using only_verified_handled [of toy_client toy_crypto toy_code "\<lambda>d. Inr d" "[1]" "''t''"
        toy_record "\<lambda>_. [toy_mixed]" "[]" res waits h']
    by (fastforce simp: list_all_iff capsule_of_def capsule_getters)
qed

theorem client_service_publish_witness:
  "fst (Client_Publish toy_crypto (\<lambda>s. Inr (bytes_of_string s)) (\<lambda>d. Inr d) [1]
     (Service_Publish toy_crypto (\<lambda>_ w. (Inr (), w)) (\<lambda>_ _ w. (None, Suc w)) False)
     ''t'' ''hello'' 0) = None"
  using client_service_publish [of toy_crypto "[1]" "()" "\<lambda>d. Inr d" "\<lambda>s. Inr (bytes_of_string s)"
      "''hello''" "bytes_of_string ''hello''" _ "''t''" "[]" "[]"
      "\<lambda>_ w. (Inr (), w)" "\<lambda>_ _ w. (None, Suc w)" False "0::nat"]
  by (simp add: toy_crypto_def publish_ok_def)

end
