(* ===== verification/BoxLake.thy ===== *)
theory BoxLake
  imports BoxRun LakeInv
begin

text \<open>
  The box against the stream of the service that reads from it: whatever the goroutines of a
  box do, a subscriber that a caller has been given only moves as \<open>feed_step\<close> of \<open>Lake\<close> lets
  the environment of a stream move it.
\<close>

section \<open>The control events stop subscribers and do nothing else to them\<close>

definition only_stops :: "Box \<Rightarrow> Box \<Rightarrow> bool" where
  "only_stops b c \<longleftrightarrow> (\<forall>r. subs c r = subs b r \<or> (\<exists>e. subs c r = stop e (subs b r)))"

lemma only_stops_same: "subs c = subs b \<Longrightarrow> only_stops b c"
  by (simp add: only_stops_def)

lemma only_stops_trans: "only_stops b c \<Longrightarrow> only_stops c d \<Longrightarrow> only_stops b d"
  unfolding only_stops_def by (metis stop_simps(4))

lemma only_stops_sub_stop: "only_stops b (sub_stop r e b)"
  by (auto simp: only_stops_def sub_stop_def)

lemma subs_blocks [simp]:
  "subs (send_reply r x b) = subs b" "subs (send_ack r b) = subs b"
  "subs (send_activation w a b) = subs b" "subs (cancel_worker w b) = subs b"
  "subs (beginStopping b) = subs b" "subs (startGeneration b) = subs b"
  "subs (restartOrIdle b) = subs b" "subs (set_pc w pc b) = subs b" "subs (set_call r cp b) = subs b"
  by (simp_all add: store_defs beginStopping_def startGeneration_def startWorker_def
      restartOrIdle_def set_pc_def set_call_def Let_def split: option.split)

lemma only_stops_fail: "only_stops b (fail_request e p b)"
  by (auto simp: only_stops_def fail_request_eq)

lemma only_stops_stop_subscriber: "only_stops b (stop_subscriber e p b)"
  by (auto simp: only_stops_def stop_subscriber_eq)

lemma only_stops_fold:
  "(\<And>p b. only_stops b (f p b)) \<Longrightarrow> only_stops b (fold f ps b)"
  by (induction ps arbitrary: b) (auto intro: only_stops_trans only_stops_same)

lemma only_stops_loops:
  "only_stops b (failPending e b)" "only_stops b (stopActive e b)" "only_stops b (dropExpired b)"
proof -
  have "only_stops b (drop_expired p b)" for p b
    by (simp add: drop_expired_def only_stops_fail only_stops_same)
  then show "only_stops b (failPending e b)" "only_stops b (stopActive e b)"
      "only_stops b (dropExpired b)"
    unfolding failPending_def stopActive_def dropExpired_def
    by (auto intro: only_stops_fold only_stops_fail only_stops_stop_subscriber)
qed

lemma only_stops_after: "only_stops b c \<Longrightarrow> subs d = subs c \<Longrightarrow> only_stops b d"
  by (simp add: only_stops_def)

lemma only_stops_before: "only_stops b c \<Longrightarrow> subs a = subs b \<Longrightarrow> only_stops a c"
  by (simp add: only_stops_def)

lemma only_stops_handleJoin: "only_stops b (handleJoin q b)"
  by (auto simp: handleJoin_def rejectDuplicate_def Let_def only_stops_def sub_stop_def
      split: subscriptionState.split)

lemma only_stops_cancelPending: "only_stops b (cancelPending i s b)"
  by (auto simp: cancelPending_def Let_def only_stops_def fail_request_eq split: option.split)

lemma only_stops_cancelActive: "only_stops b (cancelActive i s b)"
  by (auto simp: cancelActive_def Let_def only_stops_def stop_subscriber_eq split: option.split)

lemma only_stops_handleLeave: "only_stops b (handleLeave i a b)"
  by (auto simp: handleLeave_def Let_def only_stops_def stop_subscriber_eq split: option.split)

lemma only_stops_handleStop: "only_stops b (handleStop a b)"
  by (rule only_stops_after [OF only_stops_loops(2) [of b None]]) (simp add: handleStop_def Let_def)

lemma only_stops_handleClose: "only_stops b (handleClose b)"
proof -
  let ?b = "b\<lparr>state := subscriptionClosing, boxCtxDone := True\<rparr>"
  have "only_stops ?b (stopActive (Some ErrBoxClosed) (failPending (Some ErrBoxClosed) ?b))"
    by (rule only_stops_trans [OF only_stops_loops(1) only_stops_loops(2)])
  then have "only_stops b (stopActive (Some ErrBoxClosed) (failPending (Some ErrBoxClosed) ?b))"
    by (rule only_stops_before) simp
  then show ?thesis
    by (cases "state b = subscriptionClosing")
      (auto simp: handleClose_def Let_def only_stops_same split: option.split
        intro: only_stops_after)
qed

lemma subs_admitPending [simp]: "subs (admitPending b) = subs b"
  by (simp add: admitPending_eq)

lemma only_stops_handleStartResult: "only_stops b (handleStartResult g a e b)"
proof -
  have 1: "only_stops b (failPending e (b\<lparr>workerCancel := None\<rparr>))"
    by (rule only_stops_before [OF only_stops_loops(1)]) simp
  have 2: "only_stops b (dropExpired b)" by (rule only_stops_loops(3))
  show ?thesis
    using 1 2
    by (auto simp: handleStartResult_def Let_def only_stops_same split: subscriptionState.split
        intro: only_stops_after)
qed

lemma only_stops_handleWorkerStopped: "only_stops b (handleWorkerStopped g e b)"
proof -
  have 1: "only_stops b (stopActive e (b\<lparr>workerCancel := None\<rparr>))"
    by (rule only_stops_before [OF only_stops_loops(2)]) simp
  then show ?thesis
    by (auto simp: handleWorkerStopped_def Let_def only_stops_same split: subscriptionState.split
        intro: only_stops_after)
qed

lemma only_stops_handleControl: "only_stops b (handleControl ev b)"
proof -
  have "only_stops b (dispatch ev b)"
    by (cases ev) (auto simp: handleCancelJoin_def only_stops_handleJoin only_stops_handleLeave
        only_stops_handleStop only_stops_handleClose only_stops_handleStartResult
        only_stops_handleWorkerStopped
        intro: only_stops_trans [OF only_stops_cancelPending only_stops_cancelActive])
  then show ?thesis by (rule only_stops_after) (simp add: handleControl_def Let_def)
qed

lemma only_stops_control: "subs a = subs b \<Longrightarrow> only_stops b (handleControl ev a)"
  using only_stops_before [OF only_stops_handleControl] by metis

section \<open>The steps of the box\<close>

text \<open>A subscriber that a caller holds: it is stopped, or offered to while it is open, or read.\<close>

definition sub_moves :: "Subscriber \<Rightarrow> Subscriber \<Rightarrow> bool" where
  "sub_moves s t \<longleftrightarrow>
     t = s \<or> (\<exists>e. t = stop e s) \<or> (\<exists>m. \<not> Done s \<and> offer m s = (True, t)) \<or>
     (\<exists>m. receive s = Some (m, t))"

lemma only_stops_moves: "only_stops b c \<Longrightarrow> sub_moves (subs b r) (subs c r)"
  by (auto simp: only_stops_def sub_moves_def)

lemma call_moves:
  assumes "call_step ext b c" and "r < nextRef b"
  shows "sub_moves (subs b r) (subs c r)"
  using assms(1)
proof cases
  case (enter i ctx)
  with assms(2) show ?thesis
    by (auto simp: join_enter_def sub_moves_def set_call_def Let_def split: option.split)
next
  case (wait_reply r')
  then show ?thesis
    by (auto simp: join_result_def sub_moves_def set_call_def spawn_cancel_def Let_def
        split: list.split option.split)
qed (auto simp: join_send_def join_closed_def join_ctx_def spawn_cancel_def deliver_cancel_def Let_def
    only_stops_control only_stops_sub_stop
    intro!: only_stops_moves intro: only_stops_after [OF only_stops_sub_stop]
      only_stops_after [OF only_stops_handleControl] only_stops_same)

lemma message_moves:
  assumes inv: "box_inv b" and subs: "subs a = subs b" and act: "active a = active b"
    and res: "calls b r = CReturned res" "res_err res = None"
  shows "sub_moves (subs b r) (subs (handleMessage m a) r)"
proof (cases "state a = subscriptionRunning \<and> smsg_generation m = generation a")
  case False
  then show ?thesis using subs by (auto simp: handleMessage_def sub_moves_def)
next
  case True
  have m: "maps_ok b" and call: "call_ok b r" using inv by (auto simp: box_inv_def refs_ok_def)
  have alive: "joined b r \<Longrightarrow> \<not> Done (subs b r)"
    using call res by (auto simp: call_ok_def Done_def)
  have eq: "subs (handleMessage m a) r =
      (if joined b r then fanned (smsg_capsule m) (subs b r) else subs b r)"
    using handleMessage_eq [of a m] distinct_active_vals [OF m] maps_ok_keys [OF m] True subs act
    by (simp add: Let_def joined_def)
  show ?thesis
    unfolding eq sub_moves_def fanned_def using alive by (auto simp: prod_eq_iff)
qed

lemma worker_moves:
  assumes "worker_step U w b c" and inv: "box_inv b"
    and res: "calls b r = CReturned res" "res_err res = None"
  shows "sub_moves (subs b r) (subs c r)"
  using assms(1)
proof cases
  case (queue_unbuffered m)
  then show ?thesis
    using message_moves [OF inv _ _ res, of "set_pc w WLoopCheck b"] by (simp add: set_pc_def)
qed (auto simp: worker_start_def worker_stopped_def worker_activate_def enqueue_message_def
    only_stops_control intro!: only_stops_moves intro: only_stops_same split: list.split)

lemma dispatcher_moves:
  assumes "dispatcher_step b c" and inv: "box_inv b"
    and res: "calls b r = CReturned res" "res_err res = None"
  shows "sub_moves (subs b r) (subs c r)"
  using assms(1)
proof cases
  case (message m ms)
  then show ?thesis using message_moves [OF inv _ _ res, of "b\<lparr>messageCh := ms\<rparr>"] by simp
next
  case finish
  then show ?thesis by (simp add: finishClose_def sub_moves_def)
qed

lemma env_moves: "env_step b c \<Longrightarrow> sub_moves (subs b r) (subs c r)"
  by (cases rule: env_step.cases, assumption) (auto simp: sub_moves_def)

lemma box_moves:
  assumes "box_inv b" and "box_step U ext b c" and res: "calls b r = CReturned res" "res_err res = None"
  shows "sub_moves (subs b r) (subs c r)"
  using assms(2)
proof cases
  case box_call
  have "r < nextRef b"
  proof (rule ccontr)
    assume "\<not> r < nextRef b"
    then have "calls b r = CNone" using assms(1) by (auto simp: box_inv_def refs_ok_def call_ok_def)
    with res(1) show False by simp
  qed
  with box_call show ?thesis by (rule call_moves)
next
  case (box_worker w)
  with assms show ?thesis using worker_moves by blast
next
  case box_dispatcher
  with assms show ?thesis using dispatcher_moves by blast
next
  case box_env
  then show ?thesis by (rule env_moves)
qed

section \<open>What a caller has been given\<close>

declare calls_handleControl [simp]

lemma calls_handleMessage [simp]: "calls (handleMessage m b) = calls b"
  using frameD(5) [OF frame_handleMessage [of m b]] .

lemma calls_blocks [simp]:
  "calls (sub_stop r e b) = calls b" "calls (set_pc w pc b) = calls b"
  "calls (set_call r cp b) = (calls b)(r := cp)"
  by (simp_all add: sub_stop_def set_pc_def set_call_def)

text \<open>A call that has returned stays returned.\<close>

lemma returned_stays:
  assumes "box_inv b" and "box_step U ext b c" and res: "calls b r = CReturned res"
  shows "calls c r = CReturned res"
  using assms(2)
proof cases
  case box_call
  have r: "r < nextRef b"
  proof (rule ccontr)
    assume "\<not> r < nextRef b"
    then have "calls b r = CNone" using assms(1) by (auto simp: box_inv_def refs_ok_def call_ok_def)
    with res show False by simp
  qed
  from box_call show ?thesis
    by cases
      (use r res in \<open>auto simp: join_enter_def join_send_def join_closed_def join_ctx_def spawn_cancel_def
        join_result_def deliver_cancel_def Let_def split: option.split list.split\<close>)
next
  case (box_worker w)
  from box_worker(2) show ?thesis
    by cases (use res in \<open>auto simp: worker_start_def worker_stopped_def worker_activate_def
      enqueue_message_def split: list.split\<close>)
next
  case box_dispatcher
  then show ?thesis by cases (use res in \<open>auto simp: finishClose_def\<close>)
next
  case box_env
  then show ?thesis by cases (use res in auto)
qed

lemma sub_moves_done:
  assumes "sub_moves s t" "Done s" "sub_wf s"
  shows "Done t \<and> Err t = Err s \<and> suffix (Messages t) (Messages s)"
  using assms
  by (auto simp: sub_moves_def Done_def Err_def Messages_def stop_def receive_def suffix_def sub_wf_def
      split: list.splits)

text \<open>
  C26. The reason for which a subscriber has been stopped is final: once the subscriber that a
  caller was given is done, it stays done with the error it has, over any number of steps of any
  goroutine, whatever else stops it later, and nothing is added to its queue any more.
\<close>

theorem stop_reason_final:
  assumes "reach box_init (box_step U ext) b" and "steps (box_step U ext) b c"
    and "calls b r = CReturned res" "res_err res = None" and "Done (subs b r)"
  shows "Done (subs c r) \<and> Err (subs c r) = Err (subs b r) \<and>
    suffix (Messages (subs c r)) (Messages (subs b r))"
  using assms(2,1,3,5)
proof (induction rule: steps.induct)
  case (steps_refl b)
  then show ?case by simp
next
  case (steps_step b d c)
  have inv: "box_inv b" by (rule box.reach_inv [OF steps_step.prems(1)])
  have "Done (subs d r) \<and> Err (subs d r) = Err (subs b r) \<and>
      suffix (Messages (subs d r)) (Messages (subs b r))"
    by (rule sub_moves_done [OF box_moves [OF inv steps_step.hyps(1) steps_step.prems(2) assms(4)]
      steps_step.prems(3)]) (use inv in \<open>simp add: box_inv_def refs_ok_def call_ok_def\<close>)
  moreover have "reach box_init (box_step U ext) d"
    by (rule reach.reach_step [OF steps_step.prems(1) steps_step.hyps(1)])
  moreover have "calls d r = CReturned res"
    by (rule returned_stays [OF inv steps_step.hyps(1) steps_step.prems(2)])
  ultimately show ?case using steps_step.IH by (metis suffix_order.trans)
qed

theorem stop_reason_final_witness:
  "Done (subs (handleControl (StopReq 0) run14) 0) \<and>
   Err (subs (handleControl (StopReq 0) run14) 0) = Some ErrBoxClosed"
proof -
  have "Done (subs run14 0)" "Err (subs run14 0) = Some ErrBoxClosed"
    "calls run14 0 = CReturned \<lparr>res_subscriber = Some 0, res_err = None\<rparr>"
    by (simp_all add: run_defs Done_def Err_def)
  moreover have "steps (box_step (\<lambda>_. None) 1) run14 (handleControl (StopReq 0) run14)"
    by (intro steps_one box_call call_step.stop_sub run14_facts)
  ultimately show ?thesis using stop_reason_final [OF reach_run14] by fastforce
qed

text \<open>
  C25. The box implements what a stream of the service assumes of it: in every reachable state of
  a box, whatever any of its goroutines does next, a subscriber that has been handed to a caller
  either stays as it is, or moves by a step that the stream reading from it allows its
  environment (an offer to an open subscriber with room, or a stop), or is read from.
\<close>

theorem box_feeds_stream:
  assumes "reach box_init (box_step U ext) b" and "box_step U ext b c"
    and "calls b r = CReturned res" "res_err res = None" and "st_sub st = Some (subs b r)"
  shows "subs c r = subs b r \<or>
    (\<exists>st'. feed_step st st' \<and> st_sub st' = Some (subs c r)) \<or>
    (\<exists>m. receive (subs b r) = Some (m, subs c r))"
proof -
  have "sub_moves (subs b r) (subs c r)"
    by (rule box_moves [OF box.reach_inv [OF assms(1)] assms(2-4)])
  then consider "subs c r = subs b r" | e where "subs c r = stop e (subs b r)"
    | m where "\<not> Done (subs b r)" "offer m (subs b r) = (True, subs c r)"
    | m where "receive (subs b r) = Some (m, subs c r)"
    by (auto simp: sub_moves_def)
  then show ?thesis
  proof cases
    case (2 e)
    then have "\<exists>st'. feed_step st st' \<and> st_sub st' = Some (subs c r)"
      using feed_step.feed_stop [OF assms(5), of e]
      by (intro exI [of _ "st\<lparr>st_sub := Some (stop e (subs b r))\<rparr>"]) simp
    then show ?thesis by blast
  next
    case (3 m)
    then have "\<exists>st'. feed_step st st' \<and> st_sub st' = Some (subs c r)"
      using feed_step.feed [OF assms(5) 3]
      by (intro exI [of _ "st\<lparr>st_sub := Some (subs c r), st_pushed := st_pushed st @ [m]\<rparr>"]) simp
    then show ?thesis by blast
  qed auto
qed

theorem box_feeds_stream_witness:
  "\<exists>st'. feed_step ((new_stream None)\<lparr>st_sub := Some (subs run10 0)\<rparr>) st' \<and>
     st_sub st' = Some (stop None (subs run10 0))"
proof -
  have empty: "subs run10 0 = newSubscriber 1" by (simp add: run10_facts)
  have stopped: "subs again1 0 = stop None (subs run10 0)"
    by (simp add: again1_def handleControl_def handleLeave_def run10_facts stop_subscriber_eq Let_def)
  have calls: "calls run10 0 = CReturned \<lparr>res_subscriber = Some 0, res_err = None\<rparr>"
    by (simp add: run10_facts)
  have step: "box_step (\<lambda>_. None) 1 run10 again1"
    unfolding again1_def by (rule box_call [OF call_step.leave [OF run10_facts(12)]])
  have "subs again1 0 \<noteq> subs run10 0" "receive (subs run10 0) = None"
    by (simp_all add: stopped empty newSubscriber_def stop_def receive_def)
  then show ?thesis
    using box_feeds_stream [OF reach_run10 step calls, of "(new_stream None)\<lparr>st_sub := Some (subs run10 0)\<rparr>"]
    by (simp add: stopped)
qed

end
