(* ===== verification/LakeSpec.thy ===== *)
theory LakeSpec
  imports LakeSteps
begin

text \<open>
  What the service promises about its shutdown, as an abstract machine: a count of activities
  and a phase. The detailed steps of \<open>Lake\<close> implement it.
\<close>

datatype phase = Open | Draining | Stopped

text \<open>
  While open, activities start and finish freely; while draining they finish, and only an
  activity that still runs starts another one; the relayer is closed when none is left, and
  then nothing moves any more.
\<close>

inductive drain_step :: "phase \<times> nat \<Rightarrow> phase \<times> nat \<Rightarrow> bool" where
  start: "drain_step (Open, n) (Open, Suc n)"
| shut: "drain_step (Open, n) (Draining, n)"
| finish: "p \<noteq> Stopped \<Longrightarrow> drain_step (p, Suc n) (p, n)"
| fork: "p \<noteq> Stopped \<Longrightarrow> 0 < n \<Longrightarrow> drain_step (p, n) (p, Suc n)"
| stop: "drain_step (Draining, 0) (Stopped, 0)"

inductive_simps drain_step_simps:
  "drain_step (Open, n) t" "drain_step (Draining, n) t" "drain_step (Stopped, n) t"

definition phase_of :: "Service \<Rightarrow> phase" where
  "phase_of v =
     (if closer v \<in> {XRelayer, XDone} then Stopped else if shuttingDown v then Draining else Open)"

definition activities :: "Service \<Rightarrow> nat" where
  "activities v = publishes v + subscribeHandlers v + senders v"

definition drain_abs :: "Service \<Rightarrow> phase \<times> nat" where
  "drain_abs v = (phase_of v, activities v)"

lemmas drain_defs = drain_abs_def phase_of_def activities_def

lemma drain_finish:
  assumes "phase_of u = phase_of v" "activities v = Suc (activities u)" "phase_of v \<noteq> Stopped"
  shows "drain_step (drain_abs v) (drain_abs u)"
  using assms drain_step.finish [of "phase_of v" "activities u"] by (simp add: drain_abs_def)

lemma drain_fork:
  assumes "phase_of u = phase_of v" "activities u = Suc (activities v)" "phase_of v \<noteq> Stopped"
    and "0 < activities v"
  shows "drain_step (drain_abs v) (drain_abs u)"
  using assms drain_step.fork [of "phase_of v" "activities v"] by (simp add: drain_abs_def)

lemma stopped_idle: "lake_inv v \<Longrightarrow> phase_of v = Stopped \<Longrightarrow> activities v = 0"
  by (auto simp: lake_inv_def closer_ok_def phase_of_def activities_def split: if_splits)

lemma runs_counted:
  assumes "lake_inv v"
  shows "pubs v p = PRunning \<Longrightarrow> 0 < publishes v"
    and "i < nextStream v \<Longrightarrow> in_handler (streams v i) \<Longrightarrow> 0 < subscribeHandlers v"
    and "i < nextStream v \<Longrightarrow> sender_runs (streams v i) \<Longrightarrow> 0 < senders v"
proof -
  have c: "counts_ok v" using assms by (simp add: lake_inv_def)
  have p: "p < nextPub v" if "pubs v p = PRunning" for p
    using c that by (metis counts_ok_def not_le_imp_less ppc.distinct(1))
  show "pubs v p = PRunning \<Longrightarrow> 0 < publishes v"
    using c p how_many_none [of is_running "pubs v" "nextPub v" p]
    by (auto simp: counts_ok_def is_running_def)
  show "i < nextStream v \<Longrightarrow> in_handler (streams v i) \<Longrightarrow> 0 < subscribeHandlers v"
    using c how_many_none [of in_handler "streams v" "nextStream v" i] by (auto simp: counts_ok_def)
  show "i < nextStream v \<Longrightarrow> sender_runs (streams v i) \<Longrightarrow> 0 < senders v"
    using c how_many_none [of sender_runs "streams v" "nextStream v" i] by (auto simp: counts_ok_def)
qed

lemma set_stream_abs [simp]: "drain_abs (set_stream i st v) = drain_abs v"
  by (simp add: drain_defs set_stream_def)

lemma shutdown_abs:
  "drain_abs (BeginShutdown v) = drain_abs v \<or> drain_step (drain_abs v) (drain_abs (BeginShutdown v))"
  by (cases "shuttingDown v") (auto simp: drain_defs BeginShutdown_def intro: drain_step.shut)

lemma service_step_drain:
  assumes inv: "lake_inv v" and step: "service_step C v u"
  shows "drain_abs u = drain_abs v \<or> drain_step (drain_abs v) (drain_abs u)"
proof -
  have busy: "phase_of v \<noteq> Stopped" if "0 < activities v"
    using stopped_idle [OF inv] that by auto
  have closing: "closer v \<noteq> XNone \<Longrightarrow> shuttingDown v"
    using inv by (simp add: lake_inv_def closer_ok_def)
  note runs = runs_counted [OF inv]
  show ?thesis
    using step
  proof cases
    case begin_shutdown
    then show ?thesis using shutdown_abs by simp
  next
    case publish_call
    then show ?thesis
      using closing
      by (auto simp: publish_call_def admitPublish_def drain_defs Let_def intro: drain_step.start)
  next
    case (publish_return p)
    have "0 < publishes v" using publish_return(2) runs(1) by blast
    then show ?thesis unfolding publish_return(1)
      using busy by (intro disjI2 drain_finish) (auto simp: publish_return_def drain_defs)
  next
    case open_stream
    then show ?thesis by (simp add: drain_defs set_stream_def)
  next
    case (subscribe_admit i)
    then show ?thesis
      using closing
      by (auto simp: subscribe_admit_def admitSubscribe_def drain_defs set_stream_def Let_def
          intro: drain_step.start)
  next
    case (handler i st)
    have "0 < subscribeHandlers v"
      using runs(2) handler handler_step_runs by blast
    moreover have "activities v \<ge> subscribeHandlers v" by (simp add: activities_def)
    ultimately have "0 < activities v" by simp
    then show ?thesis unfolding handler(1) handler_move_def
      using busy
      by (cases "st_sender (streams v i) = SNone \<and> st_sender st \<noteq> SNone")
        (auto simp: activities_def phase_of_def intro!: disjI2 drain_fork)
  next
    case (subscribe_return i r)
    have "0 < subscribeHandlers v"
      using runs(2) [of i] subscribe_return by (simp add: in_handler_def)
    then show ?thesis unfolding subscribe_return(1)
      using busy by (intro disjI2 drain_finish) (auto simp: subscribe_return_def set_stream_def drain_defs)
  next
    case (sender i st)
    then show ?thesis by simp
  next
    case (joiner i st)
    then show ?thesis by simp
  next
    case (sender_return i)
    have "0 < senders v"
      using runs(3) [of i] sender_return by (simp add: sender_runs_def)
    then show ?thesis unfolding sender_return(1)
      using busy by (intro disjI2 drain_finish) (auto simp: sender_return_def set_stream_def drain_defs)
  next
    case (feed_stream i st)
    then show ?thesis by simp
  next
    case close_begin
    have "drain_abs ((BeginShutdown v)\<lparr>closer := XPublishes\<rparr>) = drain_abs (BeginShutdown v)"
      using close_begin(2) by (auto simp: drain_defs BeginShutdown_def)
    then show ?thesis unfolding close_begin(1) using shutdown_abs by simp
  next
    case close_publishes
    then show ?thesis by (simp add: drain_defs)
  next
    case close_handlers
    then show ?thesis by (simp add: drain_defs)
  next
    case close_senders
    have "publishes v = 0" "subscribeHandlers v = 0" "shuttingDown v"
      using inv close_senders(2) by (auto simp: lake_inv_def closer_ok_def)
    with close_senders show ?thesis
      by (auto simp: drain_defs intro: drain_step.stop)
  next
    case close_relayer
    then show ?thesis by (simp add: drain_defs)
  qed
qed

text \<open>
  The activities as they are, not as the service counts them: the publishes, handlers and senders
  that run. The abstraction of the refinement is made of these.
\<close>

definition running :: "Service \<Rightarrow> nat" where
  "running v = how_many is_running (pubs v) (nextPub v) + how_many in_handler (streams v) (nextStream v) +
     how_many sender_runs (streams v) (nextStream v)"

definition drain_now :: "Service \<Rightarrow> phase \<times> nat" where
  "drain_now v = (phase_of v, running v)"

lemma drain_now_abs: "lake_inv v \<Longrightarrow> drain_now v = drain_abs v"
  by (simp add: lake_inv_def counts_ok_def drain_now_def drain_abs_def activities_def running_def)

text \<open>
  C34. Refinement: the service starts as the abstract machine does, and every step of it, of any
  handler, sender, publish or wait, is a step of the abstract machine on the phase and the number
  of activities that really run, or changes neither. So whatever runs is waited for, counted or
  not: the three separate waits of \<open>Close\<close>, one after the other, amount to one wait for
  everything, as the machine stops only with nothing left to run, although senders are started
  while \<open>Close\<close> already waits; while draining nothing starts by itself, and once the machine has
  stopped nothing starts at all.
\<close>

theorem service_refines_drain:
  assumes "reach (\<lambda>v. v = NewService) (service_step C) v"
  shows "drain_now NewService = (Open, 0) \<and> reach (\<lambda>s. s = (Open, 0)) drain_step (drain_now v) \<and>
    (\<forall>u. service_step C v u \<longrightarrow> drain_now u = drain_now v \<or> drain_step (drain_now v) (drain_now u))"
proof -
  have step: "lake_inv b \<and> (drain_now b = drain_now a \<or> drain_step (drain_now a) (drain_now b))"
    if "reach (\<lambda>v. v = NewService) (service_step C) a" "service_step C a b" for a b
    using lake.reach_stepD [OF that] service_step_drain [OF _ that(2)] by (simp add: drain_now_abs)
  have new: "drain_now NewService = (Open, 0)"
    by (simp add: drain_now_def phase_of_def running_def NewService_def)
  have "reach (\<lambda>s. s = (Open, 0)) drain_step (drain_now v)"
    using assms
  proof (induction rule: reach.induct)
    case (reach_init v)
    then show ?case using new by (auto intro: reach.reach_init)
  next
    case (reach_step v u)
    then show ?case using step [OF reach_step.hyps] by (auto intro: reach.reach_step)
  qed
  with new step [OF assms] show ?thesis by blast
qed

theorem service_refines_drain_witness:
  "drain_step (drain_now NewService) (drain_now (publish_call NewService))"
proof -
  have "reach (\<lambda>v. v = NewService) (service_step (undefined :: unit crypto)) NewService"
    by (rule reach.reach_init) simp
  moreover have "service_step (undefined :: unit crypto) NewService (publish_call NewService)"
    by (rule service_step.publish_call)
  moreover have "drain_now (publish_call NewService) \<noteq> drain_now NewService"
    by (simp add: drain_now_def running_def how_many_def is_running_def publish_call_def
        admitPublish_def NewService_def Let_def)
  ultimately show ?thesis using service_refines_drain by blast
qed

end
