(* ===== verification/LakeJoin.thy ===== *)
theory LakeJoin
  imports LakeSteps
begin

text \<open>
  The goroutine that \<open>Service.subscribe\<close> runs beside \<open>JoinSubContext\<close>: it is there while the handler
  joins, the join context has ended once it or the stream's context has, and after the join it
  can always end. The invariant is on its own, beside the one of \<open>LakeInv\<close>.
\<close>

fun before_join :: "hpc \<Rightarrow> bool" where
  "before_join HAdmit = True" | "before_join HCheck = True" | "before_join HBox = True"
| "before_join h = False"

definition join_ok :: "stream \<Rightarrow> bool" where
  "join_ok st \<longleftrightarrow>
     (before_join (st_handler st) \<longrightarrow> st_joiner st = JNone) \<and>
     (st_handler st = HJoin \<longrightarrow> st_joiner st \<noteq> JNone \<and> \<not> st_joinDone st \<and>
        (st_ctx st \<noteq> None \<or> st_joiner st = JDone \<longrightarrow> st_joinCtx st \<noteq> None)) \<and>
     (st_joiner st \<noteq> JNone \<and> st_handler st \<noteq> HJoin \<longrightarrow> st_joinDone st)"

lemma join_ok_new: "join_ok (new_stream req)"
  by (simp add: join_ok_def new_stream_def)

lemma join_ok_handler: "handler_step C sh st d \<Longrightarrow> join_ok st \<Longrightarrow> join_ok d"
  by (cases rule: handler_step.cases, assumption)
    (auto simp: join_ok_def startSender_def leave_with_def join_begin_def join_end_def cancelJoin_def)

lemma join_ok_sender: "sender_step sh st d \<Longrightarrow> join_ok st \<Longrightarrow> join_ok d"
  by (cases rule: sender_step.cases, assumption) (auto simp: join_ok_def after_send_def)

lemma join_ok_joiner: "joiner_step sh st d \<Longrightarrow> join_ok st \<Longrightarrow> join_ok d"
  by (cases rule: joiner_step.cases, assumption) (auto simp: join_ok_def cancelJoin_def)

lemma join_ok_feed: "feed_step st d \<Longrightarrow> join_ok st \<Longrightarrow> join_ok d"
  by (cases rule: feed_step.cases, assumption) (auto simp: join_ok_def cancelJoin_def)

text \<open>The steps of the service itself only move a handler in or out.\<close>

lemma join_ok_ends:
  "join_ok st \<Longrightarrow> st_handler st = HAdmit \<Longrightarrow> join_ok (st\<lparr>st_handler := HCheck\<rparr>)"
  "join_ok st \<Longrightarrow> st_handler st = HAdmit \<Longrightarrow> join_ok (st\<lparr>st_handler := HReturned r\<rparr>)"
  "join_ok st \<Longrightarrow> st_handler st = HExit r \<Longrightarrow> join_ok (st\<lparr>st_handler := HReturned r\<rparr>)"
  "join_ok st \<Longrightarrow> join_ok (st\<lparr>st_resultCloses := n, st_sender := SDone\<rparr>)"
  by (simp_all add: join_ok_def)

definition joins_ok :: "Service \<Rightarrow> bool" where
  "joins_ok v \<longleftrightarrow> (\<forall>i. join_ok (streams v i))"

lemma joins_ok_step:
  assumes "joins_ok v" and "service_step C v u"
  shows "joins_ok u"
  using assms(2,1)
  by cases (auto simp: joins_ok_def set_stream_def BeginShutdown_def publish_call_def admitPublish_def
      publish_return_def subscribe_admit_def admitSubscribe_def handler_move_def subscribe_return_def
      sender_return_def Let_def join_ok_ends join_ok_new
      dest: join_ok_handler join_ok_sender join_ok_joiner join_ok_feed)

interpretation join: machine "\<lambda>v. v = NewService" "service_step C" joins_ok
  proof unfold_locales
  show "joins_ok v" if "v = NewService" for v using that by (simp add: joins_ok_def NewService_def join_ok_new)
qed (rule joins_ok_step)

text \<open>A join is cancelled by the shutdown, and after the join the goroutine can end.\<close>

lemma join_cancelled:
  assumes "join_ok st" and "st_handler st = HJoin" and "sh \<or> st_ctx st \<noteq> None"
  shows "st_joinCtx st \<noteq> None \<or> (\<exists>d. joiner_step sh st d)"
proof (cases "st_joiner st")
  case JSelect
  with assms show ?thesis using joiner_step.joiner_shutdown [of st sh] by (auto simp: join_ok_def)
next
  case JCancel
  then show ?thesis using joiner_step.joiner_cancel by blast
qed (use assms in \<open>auto simp: join_ok_def\<close>)

lemma joiner_ends:
  assumes "join_ok st" and "st_handler st \<noteq> HJoin"
  shows "st_joiner st \<in> {JNone, JDone} \<or> (\<exists>d. joiner_step sh st d)"
proof (cases "st_joiner st")
  case JSelect
  with assms show ?thesis using joiner_step.joiner_done [of st sh] by (auto simp: join_ok_def)
next
  case JCancel
  then show ?thesis using joiner_step.joiner_cancel by blast
qed simp_all

end
