(* ===== verification/LakeClose.thy ===== *)
theory LakeClose
  imports LakeSpec LakeSafety LakeJoin
begin

text \<open>
  Closing the service comes to an end: a measure on what runs in it that every step of a handler,
  a sender, a publish or of \<open>Close\<close> itself decreases once the shutdown has begun, and a step
  that is always possible until \<open>Close\<close> has returned. That the calls to the registry, the box
  and the stream come back is assumed, in that the steps after them are always possible; a join need
  not come back by itself, the goroutine beside it cancels it (\<open>LakeJoin\<close>).
\<close>

section \<open>The measure\<close>

fun handler_left :: "hpc \<Rightarrow> nat" where
  "handler_left HAdmit = 0" | "handler_left HCheck = 12" | "handler_left HBox = 11"
| "handler_left HJoin = 8" | "handler_left (HJoinErr e) = 4" | "handler_left HWait = 3"
| "handler_left (HLeave r) = 2" | "handler_left (HExit r) = 1" | "handler_left (HReturned r) = 0"

fun sender_left :: "spc \<Rightarrow> nat" where
  "sender_left SNone = 0" | "sender_left (SSend r) = 4" | "sender_left (SSending r) = 4"
| "sender_left SLoop = 3" | "sender_left SSelect = 4" | "sender_left (SGot c) = 3"
| "sender_left (SResult e) = 2" | "sender_left SFinish = 1" | "sender_left SDone = 0"

fun joiner_left :: "jpc \<Rightarrow> nat" where
  "joiner_left JSelect = 2" | "joiner_left JCancel = 1" | "joiner_left JNone = 0" | "joiner_left JDone = 0"

fun closer_left :: "xpc \<Rightarrow> nat" where
  "closer_left XNone = 5" | "closer_left XPublishes = 4" | "closer_left XHandlers = 3"
| "closer_left XSenders = 2" | "closer_left XRelayer = 1" | "closer_left XDone = 0"

definition stream_left :: "stream \<Rightarrow> nat" where
  "stream_left st =
     handler_left (st_handler st) + sender_left (st_sender st) + joiner_left (st_joiner st)"

definition streams_left :: "Service \<Rightarrow> nat" where
  "streams_left v = (\<Sum>i<nextStream v. stream_left (streams v i))"

definition service_left :: "Service \<Rightarrow> nat" where
  "service_left v = publishes v + streams_left v + closer_left (closer v)"

lemma streams_left_set:
  assumes "i < nextStream v"
  shows "streams_left (set_stream i st v) + stream_left (streams v i) = streams_left v + stream_left st"
proof -
  have "(\<Sum>j<nextStream v. stream_left (streams v j)) =
      stream_left (streams v i) + (\<Sum>j \<in> {..<nextStream v} - {i}. stream_left (streams v j))"
    using assms by (subst sum.remove [of _ i]) auto
  moreover have "(\<Sum>j<nextStream v. stream_left (((streams v)(i := st)) j)) =
      stream_left st + (\<Sum>j \<in> {..<nextStream v} - {i}. stream_left (streams v j))"
    using assms by (subst sum.remove [of _ i]) auto
  ultimately show ?thesis by (simp add: streams_left_def set_stream_def)
qed

lemma streams_left_new:
  "streams_left ((set_stream (nextStream v) st v)\<lparr>nextStream := Suc (nextStream v)\<rparr>) =
     streams_left v + stream_left st"
proof -
  have "(\<Sum>j<nextStream v. stream_left (((streams v)(nextStream v := st)) j)) =
      (\<Sum>j<nextStream v. stream_left (streams v j))"
    by (rule sum.cong) auto
  then show ?thesis by (simp add: streams_left_def set_stream_def)
qed

lemma streams_left_cong [simp]:
  "streams_left (v\<lparr>senders := n\<rparr>) = streams_left v" "streams_left (v\<lparr>subscribeHandlers := n\<rparr>) = streams_left v"
  "streams_left (v\<lparr>closer := x\<rparr>) = streams_left v" "streams_left (v\<lparr>publishes := n\<rparr>) = streams_left v"
  by (simp_all add: streams_left_def)

lemma handler_step_left: "handler_step C True st d \<Longrightarrow> stream_left d < stream_left st"
  by (cases rule: handler_step.cases, assumption)
    (cases "st_joiner st"; auto simp: stream_left_def startSender_def leave_with_def join_begin_def)+

lemma sender_step_left: "sender_step True st d \<Longrightarrow> stream_left d < stream_left st"
  by (cases rule: sender_step.cases, assumption) (auto simp: stream_left_def after_send_def)

lemma joiner_step_left: "joiner_step sh st d \<Longrightarrow> stream_left d < stream_left st"
  by (cases rule: joiner_step.cases, assumption) (auto simp: stream_left_def)

lemma feed_step_left: "feed_step st d \<Longrightarrow> stream_left d = stream_left st"
  by (cases rule: feed_step.cases, assumption) (auto simp: stream_left_def)

text \<open>A stream that takes a step with less left.\<close>

lemma service_left_stream:
  assumes "i < nextStream v" "stream_left st < stream_left (streams v i)"
  shows "service_left (set_stream i st v) < service_left v"
  using streams_left_set [OF assms(1), of st] assms(2) by (simp add: service_left_def set_stream_def)

lemma handler_move_left:
  assumes "i < nextStream v" "handler_step C True (streams v i) st"
  shows "service_left (handler_move i st v) < service_left v"
  using streams_left_set [of i "v\<lparr>senders := Suc (senders v)\<rparr>" st] streams_left_set [OF assms(1), of st]
    handler_step_left [OF assms(2)] assms(1)
  by (auto simp: handler_move_def service_left_def set_stream_def)

lemma subscribe_return_left:
  assumes "i < nextStream v" "st_handler (streams v i) = HExit r"
  shows "service_left (subscribe_return i r v) < service_left v"
  using streams_left_set [of i "v\<lparr>subscribeHandlers := subscribeHandlers v - 1\<rparr>"
      "(streams v i)\<lparr>st_handler := HReturned r\<rparr>"] assms
  by (simp add: subscribe_return_def service_left_def stream_left_def set_stream_def)

lemma sender_return_left:
  assumes "i < nextStream v" "st_sender (streams v i) = SFinish"
  shows "service_left (sender_return i v) < service_left v"
  using streams_left_set [of i "v\<lparr>senders := senders v - 1\<rparr>"
      "(streams v i)\<lparr>st_resultCloses := Suc (st_resultCloses (streams v i)), st_sender := SDone\<rparr>"] assms
  by (simp add: sender_return_def service_left_def stream_left_def set_stream_def)

section \<open>Every step\<close>

lemma shut_step:
  assumes inv: "lake_inv v" and sh: "shuttingDown v" and "closer v \<noteq> XNone" and step: "service_step C v u"
  shows "shuttingDown u \<and> service_left u \<le> service_left v"
  using step
proof cases
  case (handler i st)
  then show ?thesis using handler_move_left [of i v C st] sh
    by (auto simp: handler_move_def set_stream_def less_imp_le)
next
  case (subscribe_return i r)
  then show ?thesis using subscribe_return_left [of i v r] sh
    by (auto simp: subscribe_return_def set_stream_def less_imp_le)
next
  case (sender i st)
  then show ?thesis using service_left_stream [of i v st] sender_step_left [of "streams v i" st] sh
    by (auto simp: set_stream_def less_imp_le)
next
  case (joiner i st)
  then show ?thesis using service_left_stream [of i v st] joiner_step_left [of _ "streams v i" st] sh
    by (auto simp: set_stream_def less_imp_le)
next
  case (sender_return i)
  then show ?thesis using sender_return_left [of i v] sh
    by (auto simp: sender_return_def set_stream_def less_imp_le)
next
  case (feed_stream i st)
  then show ?thesis using streams_left_set [of i v st] feed_step_left [of "streams v i" st] sh
    by (simp add: service_left_def set_stream_def)
next
  case (open_stream req)
  then show ?thesis using sh streams_left_new [of v "new_stream req"]
    by (simp add: service_left_def set_stream_def stream_left_def new_stream_def)
next
  case (subscribe_admit i)
  then show ?thesis using streams_left_set [of i v "(streams v i)\<lparr>st_handler := HReturned (Some status_unavailable)\<rparr>"] sh
    by (simp add: service_left_def subscribe_admit_def admitSubscribe_def stream_left_def set_stream_def)
next
  case (publish_call)
  then show ?thesis using sh
    by (simp add: publish_call_def admitPublish_def service_left_def streams_left_def Let_def)
next
  case (publish_return p)
  then show ?thesis using sh by (simp add: publish_return_def service_left_def streams_left_def)
qed (use assms in \<open>auto simp: BeginShutdown_def service_left_def\<close>)

section \<open>Progress\<close>

lemma how_many_some: "0 < how_many P f n \<Longrightarrow> \<exists>i<n. P (f i)"
  by (rule ccontr) (auto simp: how_many_def card_gt_0_iff)

text \<open>A handler, and a sender, that has been admitted can go on once the shutdown has begun.\<close>

lemma handler_can_step:
  assumes "in_handler st" and "\<forall>r. st_handler st \<noteq> HExit r"
  shows "\<exists>d. handler_step C True st d"
proof (cases "st_handler st")
  case HCheck
  then show ?thesis
    by (cases "request_valid C (st_req st)")
      (blast intro: handler_step.check_ok, blast intro: handler_step.check_bad)
next
  case HBox
  then show ?thesis by (intro exI, rule_tac handler_step.box_bad) simp_all
next
  case HJoin
  then show ?thesis by (intro exI, rule_tac handler_step.join_bad) simp_all
next
  case (HJoinErr err)
  then show ?thesis by (intro exI, rule_tac handler_step.join_err_quiet) simp_all
next
  case HWait
  then show ?thesis by (intro exI, rule_tac handler_step.wait_shutdown) simp_all
next
  case (HLeave r)
  then show ?thesis by (intro exI, rule_tac handler_step.leave_sub) simp_all
qed (use assms in \<open>auto simp: in_handler_def\<close>)

lemma sender_can_step:
  assumes "st_ok True st" and "sender_runs st" and "st_sender st \<noteq> SFinish"
  shows "\<exists>d. sender_step True st d"
proof (cases "st_sender st")
  case (SSend r)
  then show ?thesis by (intro exI, rule_tac sender_step.send_skip) simp_all
next
  case (SSending r)
  then show ?thesis by (intro exI, rule_tac sender_step.send_ok) simp_all
next
  case SLoop
  then show ?thesis by (intro exI, rule_tac sender_step.loop_shutdown) simp_all
next
  case SSelect
  then show ?thesis by (intro exI, rule_tac sender_step.select_shutdown) simp_all
next
  case (SGot c)
  then show ?thesis by (intro exI, rule_tac sender_step.got_shutdown) simp_all
next
  case (SResult err)
  with assms(1) have "length (st_result st) < 1" by (auto simp: st_ok_def ctl_ok_def)
  then show ?thesis by (intro exI, rule_tac sender_step.result_send [OF SResult])
qed (use assms in \<open>simp_all add: sender_runs_def\<close>)

text \<open>What a wait group counts is there, and can go on.\<close>

lemma publish_progress:
  assumes "counts_ok v" and "publishes v \<noteq> 0"
  shows "\<exists>u. service_step C v u \<and> service_left u < service_left v"
proof -
  obtain p where "pubs v p = PRunning"
    using assms how_many_some [of is_running "pubs v" "nextPub v"] by (auto simp: counts_ok_def is_running_def)
  moreover have "service_left (publish_return p v) < service_left v"
    using assms(2) by (simp add: publish_return_def service_left_def streams_left_def)
  ultimately show ?thesis using service_step.publish_return by blast
qed

lemma handler_progress:
  assumes "counts_ok v" and "subscribeHandlers v \<noteq> 0" and sh: "shuttingDown v"
  shows "\<exists>u. service_step C v u \<and> service_left u < service_left v"
proof -
  obtain i where i: "i < nextStream v" "in_handler (streams v i)"
    using assms how_many_some [of in_handler "streams v" "nextStream v"] by (auto simp: counts_ok_def)
  show ?thesis
  proof (cases "\<exists>r. st_handler (streams v i) = HExit r")
    case True
    then show ?thesis using service_step.subscribe_return [OF i(1)] subscribe_return_left [OF i(1)] by blast
  next
    case False
    then obtain st where st: "handler_step C True (streams v i) st" using handler_can_step [OF i(2)] by blast
    then have "service_step C v (handler_move i st v)" using service_step.handler [OF i(1)] sh by simp
    with handler_move_left [OF i(1) st] show ?thesis by blast
  qed
qed

lemma sender_progress:
  assumes "counts_ok v" and "senders v \<noteq> 0" and sh: "shuttingDown v"
    and ok: "\<And>i. st_ok True (streams v i)"
  shows "\<exists>u. service_step C v u \<and> service_left u < service_left v"
proof -
  obtain i where i: "i < nextStream v" "sender_runs (streams v i)"
    using assms how_many_some [of sender_runs "streams v" "nextStream v"] by (auto simp: counts_ok_def)
  show ?thesis
  proof (cases "st_sender (streams v i) = SFinish")
    case True
    then show ?thesis using service_step.sender_return [OF i(1)] sender_return_left [OF i(1)] by blast
  next
    case False
    then obtain st where st: "sender_step True (streams v i) st" using sender_can_step [OF ok i(2)] by blast
    then have "service_step C v (set_stream i st v)" using service_step.sender [OF i(1)] sh by simp
    with service_left_stream [OF i(1) sender_step_left [OF st]] show ?thesis by blast
  qed
qed

lemma closer_progress:
  assumes "service_step C v (v\<lparr>closer := x\<rparr>)" and "closer_left x < closer_left (closer v)"
  shows "\<exists>u. service_step C v u \<and> service_left u < service_left v"
proof (intro exI [of _ "v\<lparr>closer := x\<rparr>"] conjI)
  show "service_left (v\<lparr>closer := x\<rparr>) < service_left v" using assms(2) by (simp add: service_left_def)
qed (rule assms(1))

lemma shut_progress:
  assumes inv: "lake_inv v" and sh: "shuttingDown v" and cl: "closer v \<noteq> XNone" "closer v \<noteq> XDone"
  shows "\<exists>u. service_step C v u \<and> service_left u < service_left v"
proof -
  have c: "counts_ok v" and ok: "st_ok True (streams v i)" for i
    using inv sh by (simp_all add: lake_inv_def)
  show ?thesis
  proof (cases "closer v")
    case XPublishes
    then show ?thesis
      using publish_progress [OF c] closer_progress [OF service_step.close_publishes] by (cases "publishes v = 0") simp_all
  next
    case XHandlers
    then show ?thesis
      using handler_progress [OF c _ sh] closer_progress [OF service_step.close_handlers]
      by (cases "subscribeHandlers v = 0") simp_all
  next
    case XSenders
    then show ?thesis
      using sender_progress [OF c _ sh ok] closer_progress [OF service_step.close_senders] by (cases "senders v = 0") simp_all
  next
    case XRelayer
    then show ?thesis using closer_progress [OF service_step.close_relayer] by simp
  qed (use cl in simp_all)
qed

section \<open>Properties\<close>

text \<open>
  C23. \<open>Service.Close\<close> ends: once it has been called, no step of anybody, new calls included,
  increases what is left to do in the service; every step of a handler, of a sender or of the
  goroutine beside a join decreases it; a join that the box does not answer is cancelled; and
  until \<open>Close\<close> has returned there is a step that decreases it.
\<close>

theorem service_close_ends:
  assumes "lake_reachable C v" and "closer v \<noteq> XNone"
  shows "(\<forall>u. service_step C v u \<longrightarrow> closer u \<noteq> XNone \<and> service_left u \<le> service_left v) \<and>
    (\<forall>i < nextStream v. \<forall>st.
      (handler_step C (shuttingDown v) (streams v i) st \<longrightarrow>
        service_left (handler_move i st v) < service_left v) \<and>
      (sender_step (shuttingDown v) (streams v i) st \<longrightarrow>
        service_left (set_stream i st v) < service_left v) \<and>
      (joiner_step (shuttingDown v) (streams v i) st \<longrightarrow>
        service_left (set_stream i st v) < service_left v)) \<and>
    (\<forall>i < nextStream v. st_handler (streams v i) = HJoin \<longrightarrow>
      st_joinCtx (streams v i) \<noteq> None \<or> (\<exists>st. joiner_step (shuttingDown v) (streams v i) st)) \<and>
    (closer v \<noteq> XDone \<longrightarrow> (\<exists>u. service_step C v u \<and> service_left u < service_left v))"
proof -
  have inv: "lake_inv v" by (rule lake.reach_inv [OF assms(1)])
  then have sh: "shuttingDown v" using assms(2) by (simp add: lake_inv_def closer_ok_def)
  have closer: "closer u \<noteq> XNone" if "service_step C v u" for u
    using that assms(2)
    by cases (auto simp: BeginShutdown_def publish_call_def admitPublish_def publish_return_def
      set_stream_def subscribe_admit_def admitSubscribe_def handler_move_def subscribe_return_def
      sender_return_def Let_def)
  have h: "service_left (handler_move i st v) < service_left v"
    if "i < nextStream v" "handler_step C (shuttingDown v) (streams v i) st" for i st
    using handler_move_left that sh by simp
  have s: "service_left (set_stream i st v) < service_left v"
    if "i < nextStream v" "sender_step (shuttingDown v) (streams v i) st" for i st
    using service_left_stream [OF that(1)] sender_step_left that(2) sh by simp
  have j: "service_left (set_stream i st v) < service_left v"
    if "i < nextStream v" "joiner_step (shuttingDown v) (streams v i) st" for i st
    using service_left_stream [OF that(1)] joiner_step_left that(2) by blast
  have "joins_ok v" by (rule join.reach_inv [OF assms(1)])
  then have c: "st_joinCtx (streams v i) \<noteq> None \<or> (\<exists>st. joiner_step (shuttingDown v) (streams v i) st)"
    if "st_handler (streams v i) = HJoin" for i
    using join_cancelled [of "streams v i"] that sh by (simp add: joins_ok_def)
  show ?thesis
    using shut_step [OF inv sh assms(2)] closer h s j c shut_progress [OF inv sh assms(2), of C] by blast
qed


text \<open>A service that is closed while a stream relays a capsule.\<close>

definition closing_service :: Service where
  "closing_service = (BeginShutdown (sv 1 1 s9))\<lparr>closer := XPublishes\<rparr>"

theorem service_close_ends_witness:
  "(\<exists>u. service_step toy_crypto closing_service u \<and> service_left u < service_left closing_service) \<and>
   service_left (set_stream 0 (s9\<lparr>st_sender := SResult None\<rparr>) closing_service) < service_left closing_service"
proof -
  have v: "lake_reachable toy_crypto closing_service"
    unfolding closing_service_def
    by (rule reach.reach_step [OF lake_run(3) service_step.close_begin]) simp
  have at: "closer closing_service = XPublishes" "shuttingDown closing_service"
    "nextStream closing_service = 1" "streams closing_service 0 = s9"
    by (simp_all add: closing_service_def BeginShutdown_def)
  moreover have "sender_step True s9 (s9\<lparr>st_sender := SResult None\<rparr>)"
    using sender_step.got_shutdown [of s9 toy_capsule True] by (simp add: s_defs)
  ultimately show ?thesis using service_close_ends [OF v] by simp
qed

end
