(* ===== verification/Relayer.thy ===== *)
theory Relayer
  imports GoRuntime
begin

text \<open>
  \<open>relayer/relayer.go\<close>: what is acquired when a relayer is built, and what is released when
  building fails or the relayer is closed; the queue of discovered peers. The libp2p calls are
  an environment of outcomes; the calls that acquire or release something are logged.
\<close>

datatype rcall =
    NewHost
  | MdnsStart
  | DhtNew
  | DhtBootstrap
  | GossipNew
  | CenterClose
  | CancelBackend
  | MdnsClose
  | DhtClose
  | HostClose

definition protocolID :: string where "protocolID = ''/msg-lake/v1.0-beta-1''"
definition mdnsServiceName :: string where "mdnsServiceName = ''_p2p_msg-lake._udp''"

text \<open>The options given to \<open>pubsub.NewGossipSub\<close>; the seen-messages TTL is in seconds.\<close>

record gossip_options =
  go_protocols :: "string list"
  go_feature :: "nat \<Rightarrow> string \<Rightarrow> bool"
  go_signing :: bool
  go_seenTTL :: nat
  go_firstSeen :: bool

definition relayer_gossip :: gossip_options where
  "relayer_gossip =
     \<lparr>go_protocols = [protocolID], go_feature = (\<lambda>_ i. i = protocolID), go_signing = False,
      go_seenTTL = 3, go_firstSeen = True\<rparr>"

record ('key, 'addr, 'peer) libp2p =
  lp_GenPrivKey :: "goerr + 'key"
  lp_FromSeed :: "bytes \<Rightarrow> goerr + 'key"
  lp_ToECDSAP2P :: "'key \<Rightarrow> goerr + 'key"
  lp_NewMultiaddr :: "string \<Rightarrow> goerr + 'addr"
  lp_New :: "'addr list \<Rightarrow> 'key \<Rightarrow> goerr option"
  lp_AddrInfo :: "string \<Rightarrow> goerr + 'peer"
  lp_mdnsStart :: "string \<Rightarrow> goerr option"
  lp_dhtNew :: "'peer list \<Rightarrow> goerr option"
  lp_dhtBootstrap :: "goerr option"
  lp_gossip :: "gossip_options \<Rightarrow> goerr option"
  lp_centerClose :: "goerr option"
  lp_mdnsClose :: "goerr option"
  lp_dhtClose :: "goerr option"
  lp_hostClose :: "goerr option"

record Relayer =
  rl_closeOnce :: bool
  rl_closeErr :: "goerr option"
  rl_msgCenter :: bool
  rl_mdnsSvc :: bool
  rl_peerChan :: bool
  rl_kadDHT :: bool
  rl_log :: "rcall list"

definition log_call :: "rcall \<Rightarrow> Relayer \<Rightarrow> Relayer" where
  "log_call c r = r\<lparr>rl_log := rl_log r @ [c]\<rparr>"

section \<open>Close\<close>

text \<open>\<open>closeErr = errors.Join(closeErr, err)\<close> where a call failed.\<close>

definition join_err :: "goerr option \<Rightarrow> Relayer \<Rightarrow> Relayer" where
  "join_err err r =
     (if err \<noteq> None then r\<lparr>rl_closeErr := errors_Join [rl_closeErr r, err]\<rparr> else r)"

text \<open>Closing a part that the relayer has.\<close>

definition close_part :: "bool \<Rightarrow> rcall \<Rightarrow> goerr option \<Rightarrow> Relayer \<Rightarrow> Relayer" where
  "close_part present call err r = (if present then join_err err (log_call call r) else r)"

definition Relayer_close :: "('key, 'addr, 'peer) libp2p \<Rightarrow> Relayer \<Rightarrow> Relayer" where
  "Relayer_close L r =
     (let r = close_part (rl_msgCenter r) CenterClose (lp_centerClose L) r;
          r = log_call CancelBackend r;
          r = close_part (rl_mdnsSvc r) MdnsClose (lp_mdnsClose L) r;
          r = close_part (rl_kadDHT r) DhtClose (lp_dhtClose L) r
      in close_part True HostClose (lp_hostClose L) r)"

definition Relayer_Close :: "('key, 'addr, 'peer) libp2p \<Rightarrow> Relayer \<Rightarrow> goerr option \<times> Relayer" where
  "Relayer_Close L r =
     (let r = (if rl_closeOnce r then r else Relayer_close L (r\<lparr>rl_closeOnce := True\<rparr>))
      in (rl_closeErr r, r))"

text \<open>\<open>CancelBackend\<close> cancels the context, which may happen any number of times.\<close>

definition Relayer_CancelBackend :: "Relayer \<Rightarrow> Relayer" where
  "Relayer_CancelBackend r = log_call CancelBackend r"

section \<open>NewRelayer\<close>

fun generateListenAddrs :: "('key, 'addr, 'peer) libp2p \<Rightarrow> string list \<Rightarrow> goerr + 'addr list" where
  "generateListenAddrs L [] = Inr []"
| "generateListenAddrs L (s # addrs) =
     (case lp_NewMultiaddr L s of
        Inl err \<Rightarrow> Inl err
      | Inr addr \<Rightarrow>
          (case generateListenAddrs L addrs of
             Inl err \<Rightarrow> Inl err | Inr listenAddrs \<Rightarrow> Inr (addr # listenAddrs)))"

definition newHost :: "('key, 'addr, 'peer) libp2p \<Rightarrow> string list \<Rightarrow> 'key \<Rightarrow> goerr option" where
  "newHost L addrs privKey =
     (case generateListenAddrs L addrs of
        Inl err \<Rightarrow> Some err
      | Inr listenAddrs \<Rightarrow>
          (case lp_ToECDSAP2P L privKey of
             Inl err \<Rightarrow> Some err
           | Inr privKeyP2P \<Rightarrow> lp_New L listenAddrs privKeyP2P))"

definition relayer_key :: "('key, 'addr, 'peer) libp2p \<Rightarrow> bytes \<Rightarrow> goerr + 'key" where
  "relayer_key L seed =
     (case lp_GenPrivKey L of
        Inl err \<Rightarrow> Inl err
      | Inr privKey \<Rightarrow> if length seed > 0 then lp_FromSeed L seed else Inr privKey)"

definition bootstrapPeerInfos :: "('key, 'addr, 'peer) libp2p \<Rightarrow> string list \<Rightarrow> 'peer list" where
  "bootstrapPeerInfos L addrs =
     List.map_filter (\<lambda>addr. case lp_AddrInfo L addr of Inl err \<Rightarrow> None | Inr p \<Rightarrow> Some p) addrs"

text \<open>The services of a relayer that has its host: each step answers the error that ends it.\<close>

definition init_mdns ::
    "('key, 'addr, 'peer) libp2p \<Rightarrow> bool \<Rightarrow> Relayer \<Rightarrow> goerr option \<times> Relayer" where
  "init_mdns L mdnsEnabled r =
     (if mdnsEnabled then
        let r = log_call MdnsStart (r\<lparr>rl_mdnsSvc := True\<rparr>)
        in case lp_mdnsStart L mdnsServiceName of
             Some err \<Rightarrow> (Some err, r)
           | None \<Rightarrow> (None, r\<lparr>rl_peerChan := True\<rparr>)
      else (None, r))"

definition init_dht ::
    "('key, 'addr, 'peer) libp2p \<Rightarrow> bool \<Rightarrow> 'peer list \<Rightarrow> Relayer \<Rightarrow> goerr option \<times> Relayer" where
  "init_dht L dhtEnabled peers r =
     (if dhtEnabled then
        (case lp_dhtNew L peers of
           Some err \<Rightarrow> (Some err, r)
         | None \<Rightarrow>
             let r = log_call DhtBootstrap ((log_call DhtNew r)\<lparr>rl_kadDHT := True\<rparr>)
             in (lp_dhtBootstrap L, r))
      else (None, r))"

definition init_gossip :: "('key, 'addr, 'peer) libp2p \<Rightarrow> Relayer \<Rightarrow> goerr option \<times> Relayer" where
  "init_gossip L r =
     (case lp_gossip L relayer_gossip of
        Some err \<Rightarrow> (Some err, r)
      | None \<Rightarrow> (None, (log_call GossipNew r)\<lparr>rl_msgCenter := True\<rparr>))"

text \<open>The deferred \<open>relayer.Close()\<close> of a relayer that was not initialised.\<close>

definition abandon :: "('key, 'addr, 'peer) libp2p \<Rightarrow> goerr \<Rightarrow> Relayer \<Rightarrow> (goerr + Relayer) \<times> rcall list" where
  "abandon L err r = (Inl err, rl_log (snd (Relayer_Close L r)))"

definition NewRelayer ::
    "('key, 'addr, 'peer) libp2p \<Rightarrow> bytes \<Rightarrow> string list \<Rightarrow> bool \<Rightarrow> bool \<Rightarrow> string list \<Rightarrow>
     (goerr + Relayer) \<times> rcall list" where
  "NewRelayer L seed addrs mdnsEnabled dhtEnabled bootstrapPeers =
     (case relayer_key L seed of
        Inl err \<Rightarrow> (Inl err, [CancelBackend])
      | Inr privKey \<Rightarrow>
          (case newHost L addrs privKey of
             Some err \<Rightarrow> (Inl err, [CancelBackend])
           | None \<Rightarrow>
               let peers = bootstrapPeerInfos L bootstrapPeers;
                   r = \<lparr>rl_closeOnce = False, rl_closeErr = None, rl_msgCenter = False,
                        rl_mdnsSvc = False, rl_peerChan = False, rl_kadDHT = False,
                        rl_log = [NewHost]\<rparr>
               in case init_mdns L mdnsEnabled r of
                    (Some err, r) \<Rightarrow> abandon L err r
                  | (None, r) \<Rightarrow>
                      (case init_dht L dhtEnabled peers r of
                         (Some err, r) \<Rightarrow> abandon L err r
                       | (None, r) \<Rightarrow>
                           (case init_gossip L r of
                              (Some err, r) \<Rightarrow> abandon L err r
                            | (None, r) \<Rightarrow> (Inr r, rl_log r)))))"

section \<open>Discovered peers\<close>

record 'peer discoveryNotifee =
  dn_peerChan :: "'peer list"
  dn_cap :: nat

definition newDiscoveryNotifee :: "'peer discoveryNotifee" where
  "newDiscoveryNotifee = \<lparr>dn_peerChan = [], dn_cap = 64\<rparr>"

text \<open>
  The \<open>select\<close> of \<open>HandlePeerFound\<close>: with room in the channel and a finished context Go takes
  either case; \<open>pick\<close> says whether it sends. The answer says whether the peer was queued.
\<close>

definition HandlePeerFound ::
    "bool \<Rightarrow> bool \<Rightarrow> 'peer \<Rightarrow> 'peer discoveryNotifee \<Rightarrow> bool \<times> 'peer discoveryNotifee" where
  "HandlePeerFound ctxDone pick peerInfo n =
     (if length (dn_peerChan n) < dn_cap n \<and> (ctxDone \<longrightarrow> pick)
      then (True, n\<lparr>dn_peerChan := dn_peerChan n @ [peerInfo]\<rparr>) else (False, n))"

definition next_peer :: "'peer discoveryNotifee \<Rightarrow> ('peer \<times> 'peer discoveryNotifee) option" where
  "next_peer n =
     (case dn_peerChan n of [] \<Rightarrow> None | p # ps \<Rightarrow> Some (p, n\<lparr>dn_peerChan := ps\<rparr>))"

interpretation peers: bounded_chan dn_peerChan dn_cap "HandlePeerFound False pick" next_peer
  for pick :: bool
  by unfold_locales (auto simp: HandlePeerFound_def next_peer_def split: list.splits)

text \<open>
  \<open>DiscoverPeers\<close>: its environment either ends the context or lets it receive the next peer and
  decides how connecting to it ends. It answers whether it has returned, the peers it tried,
  and the notifee; a receive from the empty channel waits.
\<close>

datatype discover_event = DiscoverCtxDone | Discover "goerr option"

fun discover_loop ::
    "discover_event list \<Rightarrow> 'peer discoveryNotifee \<Rightarrow> bool \<times> 'peer list \<times> 'peer discoveryNotifee" where
  "discover_loop [] n = (False, [], n)"
| "discover_loop (DiscoverCtxDone # es) n = (True, [], n)"
| "discover_loop (Discover err # es) n =
     (case next_peer n of
        None \<Rightarrow> (False, [], n)
      | Some (p, n) \<Rightarrow> let (done, tried, n) = discover_loop es n in (done, p # tried, n))"

definition DiscoverPeers ::
    "Relayer \<Rightarrow> discover_event list \<Rightarrow> 'peer discoveryNotifee \<Rightarrow>
     bool \<times> 'peer list \<times> 'peer discoveryNotifee" where
  "DiscoverPeers r es n = (if \<not> rl_peerChan r then (True, [], n) else discover_loop es n)"

section \<open>Closing\<close>

lemma log_call_simps [simp]:
  "rl_log (log_call c r) = rl_log r @ [c]" "rl_closeErr (log_call c r) = rl_closeErr r"
  "rl_msgCenter (log_call c r) = rl_msgCenter r" "rl_mdnsSvc (log_call c r) = rl_mdnsSvc r"
  "rl_kadDHT (log_call c r) = rl_kadDHT r" "rl_closeOnce (log_call c r) = rl_closeOnce r"
  "rl_peerChan (log_call c r) = rl_peerChan r"
  by (simp_all add: log_call_def)

lemma join_err_simps [simp]:
  "rl_log (join_err err r) = rl_log r" "rl_msgCenter (join_err err r) = rl_msgCenter r"
  "rl_mdnsSvc (join_err err r) = rl_mdnsSvc r" "rl_kadDHT (join_err err r) = rl_kadDHT r"
  "rl_closeOnce (join_err err r) = rl_closeOnce r"
  by (simp_all add: join_err_def)

lemma close_part_simps [simp]:
  "rl_log (close_part p c err r) = rl_log r @ (if p then [c] else [])"
  "rl_msgCenter (close_part p c err r) = rl_msgCenter r"
  "rl_mdnsSvc (close_part p c err r) = rl_mdnsSvc r"
  "rl_kadDHT (close_part p c err r) = rl_kadDHT r"
  "rl_closeOnce (close_part p c err r) = rl_closeOnce r"
  by (simp_all add: close_part_def)

text \<open>What a close calls, and which of the calls fail.\<close>

definition close_calls :: "Relayer \<Rightarrow> rcall list" where
  "close_calls r =
     (if rl_msgCenter r then [CenterClose] else []) @ [CancelBackend] @
     (if rl_mdnsSvc r then [MdnsClose] else []) @ (if rl_kadDHT r then [DhtClose] else []) @
     [HostClose]"

definition close_failures :: "('key, 'addr, 'peer) libp2p \<Rightarrow> Relayer \<Rightarrow> goerr set" where
  "close_failures L r =
     (if rl_msgCenter r then set_option (lp_centerClose L) else {}) \<union>
     (if rl_mdnsSvc r then set_option (lp_mdnsClose L) else {}) \<union>
     (if rl_kadDHT r then set_option (lp_dhtClose L) else {}) \<union> set_option (lp_hostClose L)"

lemma close_log: "rl_log (Relayer_close L r) = rl_log r @ close_calls r"
  by (simp add: Relayer_close_def Let_def close_calls_def)

lemma close_once [simp]: "rl_closeOnce (Relayer_close L r) = rl_closeOnce r"
  by (simp add: Relayer_close_def Let_def)

text \<open>
  An error stands for a set of failures: it is nil exactly when there is none, and \<open>errors.Is\<close>
  finds in it what it finds in one of them; the joined errors themselves are no target.
\<close>

definition err_has :: "goerr option \<Rightarrow> goerr set \<Rightarrow> bool" where
  "err_has err es \<longleftrightarrow>
     (err = None \<longleftrightarrow> es = {}) \<and>
     (\<forall>t. (\<nexists>ts. t = Joined ts) \<longrightarrow> (errors_Is err t \<longleftrightarrow> (\<exists>e \<in> es. errors_is e t)))"

lemma err_has_part:
  assumes "err_has (rl_closeErr r) es"
  shows "err_has (rl_closeErr (close_part p c err r)) (es \<union> (if p then set_option err else {}))"
proof (cases "p \<and> err \<noteq> None")
  case True
  then obtain e where e: "err = Some e" by auto
  then have "rl_closeErr (close_part p c err r) =
      Some (Joined (case rl_closeErr r of None \<Rightarrow> [e] | Some a \<Rightarrow> [a, e]))"
    using True
    by (auto simp: close_part_def join_err_def errors_Join_def map_filter_simps log_call_def
        split: option.split)
  with assms e True show ?thesis
    by (auto simp: err_has_def split: option.splits)
next
  case False
  with assms show ?thesis
    by (cases p) (auto simp: close_part_def join_err_def)
qed

lemma err_has_log: "err_has (rl_closeErr r) es \<Longrightarrow> err_has (rl_closeErr (log_call c r)) es"
  by simp

lemma close_errors:
  assumes "rl_closeErr r = None"
  shows "err_has (rl_closeErr (Relayer_close L r)) (close_failures L r)"
proof -
  have "err_has (rl_closeErr r) {}" using assms by (simp add: err_has_def)
  note center = err_has_part [OF this, of "rl_msgCenter r" CenterClose "lp_centerClose L"]
  note mdns = err_has_part [OF err_has_log [OF center, of CancelBackend],
      of "rl_mdnsSvc r" MdnsClose "lp_mdnsClose L"]
  note dht = err_has_part [OF mdns, of "rl_kadDHT r" DhtClose "lp_dhtClose L"]
  show ?thesis
    using err_has_part [OF dht, of True HostClose "lp_hostClose L"]
    by (simp only: Relayer_close_def Let_def close_failures_def close_part_simps log_call_simps
        Un_empty_left if_True)
qed

section \<open>Properties\<close>

text \<open>The log of a relayer under construction agrees with what it has.\<close>

definition building :: "Relayer \<Rightarrow> bool" where
  "building r \<longleftrightarrow>
     \<not> rl_closeOnce r \<and> count_list (rl_log r) NewHost = 1 \<and>
     count_list (rl_log r) MdnsStart = of_bool (rl_mdnsSvc r) \<and>
     count_list (rl_log r) DhtNew = of_bool (rl_kadDHT r) \<and>
     count_list (rl_log r) GossipNew = of_bool (rl_msgCenter r) \<and>
     set (rl_log r) \<inter> {CancelBackend, CenterClose, MdnsClose, DhtClose, HostClose} = {}"

definition released :: "rcall list \<Rightarrow> bool" where
  "released log \<longleftrightarrow>
     count_list log CancelBackend = 1 \<and> count_list log NewHost \<le> 1 \<and>
     count_list log HostClose = count_list log NewHost \<and>
     count_list log MdnsClose = count_list log MdnsStart \<and>
     count_list log DhtClose = count_list log DhtNew \<and>
     count_list log CenterClose = count_list log GossipNew \<and>
     last log = (if NewHost \<in> set log then HostClose else CancelBackend)"

lemma building_mdns: "building r \<Longrightarrow> \<not> rl_mdnsSvc r \<Longrightarrow> building (snd (init_mdns L b r))"
  by (auto simp: building_def init_mdns_def Let_def split: option.split)

lemma init_mdns_frame [simp]:
  "rl_kadDHT (snd (init_mdns L b r)) = rl_kadDHT r"
  "rl_msgCenter (snd (init_mdns L b r)) = rl_msgCenter r"
  by (auto simp: init_mdns_def Let_def split: option.split)

lemma building_dht: "building r \<Longrightarrow> \<not> rl_kadDHT r \<Longrightarrow> building (snd (init_dht L b peers r))"
  by (auto simp: building_def init_dht_def Let_def split: option.split)

lemma init_dht_frame [simp]: "rl_msgCenter (snd (init_dht L b peers r)) = rl_msgCenter r"
  by (auto simp: init_dht_def Let_def split: option.split)

lemma building_gossip: "building r \<Longrightarrow> \<not> rl_msgCenter r \<Longrightarrow> building (snd (init_gossip L r))"
  by (auto simp: building_def init_gossip_def split: option.split)

lemma building_released:
  assumes "building r"
  shows "released (rl_log (snd (Relayer_Close L r)))"
proof -
  have eq: "rl_log (snd (Relayer_Close L r)) = rl_log r @ close_calls r"
    using assms by (simp add: building_def Relayer_Close_def Let_def close_log) (simp add: close_calls_def)
  have "NewHost \<in> set (rl_log r)"
    using assms count_notin [of NewHost "rl_log r"] by (auto simp: building_def)
  moreover have "count_list (rl_log r) c = 0"
    if "c \<in> {CancelBackend, CenterClose, MdnsClose, DhtClose, HostClose}" for c
    using assms that by (intro count_notin) (auto simp: building_def)
  ultimately show ?thesis
    using assms by (simp add: released_def eq building_def close_calls_def)
qed

text \<open>
  C33. Nothing leaks: whether building the relayer fails at any of its steps, or succeeds and the
  relayer is closed later, every host, mDNS service, DHT and message centre it has started is
  closed exactly once, and its context is cancelled exactly once; the host is closed last.
\<close>

theorem relayer_releases_all:
  "let log = (case NewRelayer L seed addrs mdnsEnabled dhtEnabled bootstrapPeers of
       (Inl err, log) \<Rightarrow> log | (Inr r, log) \<Rightarrow> rl_log (snd (Relayer_Close L r)))
   in count_list log CancelBackend = 1 \<and> count_list log NewHost \<le> 1 \<and>
      count_list log HostClose = count_list log NewHost \<and>
      count_list log MdnsClose = count_list log MdnsStart \<and>
      count_list log DhtClose = count_list log DhtNew \<and>
      count_list log CenterClose = count_list log GossipNew \<and>
      last log = (if NewHost \<in> set log then HostClose else CancelBackend)"
proof -
  let ?r = "\<lparr>rl_closeOnce = False, rl_closeErr = None, rl_msgCenter = False,
    rl_mdnsSvc = False, rl_peerChan = False, rl_kadDHT = False, rl_log = [NewHost]\<rparr>"
  obtain e1 r1 where m: "init_mdns L mdnsEnabled ?r = (e1, r1)" by force
  obtain e2 r2 where d: "init_dht L dhtEnabled (bootstrapPeerInfos L bootstrapPeers) r1 = (e2, r2)"
    by force
  obtain e3 r3 where g: "init_gossip L r2 = (e3, r3)" by force
  have "building ?r" by (simp add: building_def)
  then have 1: "building r1" "\<not> rl_kadDHT r1" "\<not> rl_msgCenter r1"
    using building_mdns [of ?r L mdnsEnabled] init_mdns_frame [of L mdnsEnabled ?r] m by auto
  then have 2: "building r2" "\<not> rl_msgCenter r2"
    using building_dht [of r1 L dhtEnabled] init_dht_frame [of L dhtEnabled _ r1] d by (metis snd_conv)+
  then have 3: "building r3" using building_gossip [of r2 L] g by (metis snd_conv)
  have "released [CancelBackend]" by (simp add: released_def)
  then show ?thesis
    unfolding released_def [symmetric] Let_def
    using 1(1) 2(1) 3
    by (simp add: NewRelayer_def abandon_def m d g building_released
        split: sum.split option.split)
qed

text \<open>
  The first \<open>Close\<close> closes the message centre before it cancels the context and then the
  mDNS service, the DHT and the host, whatever of these the relayer has and whatever fails; it
  reports every failure, and a second \<open>Close\<close> does nothing and reports the same.
\<close>

theorem relayer_close_complete:
  assumes "\<not> rl_closeOnce r" and "rl_closeErr r = None" and "Relayer_Close L r = (err, r')"
  shows "rl_log r' = rl_log r @ close_calls r \<and> err_has err (close_failures L r) \<and>
    Relayer_Close L r' = (err, r')"
proof -
  have r': "r' = Relayer_close L (r\<lparr>rl_closeOnce := True\<rparr>)" "err = rl_closeErr r'"
    using assms(1,3) by (auto simp: Relayer_Close_def Let_def)
  have "rl_log r' = rl_log r @ close_calls r"
    by (simp add: r'(1) close_log) (simp add: close_calls_def)
  moreover have "err_has err (close_failures L r)"
    using close_errors [of "r\<lparr>rl_closeOnce := True\<rparr>" L] assms(2) r'
    by (simp add: close_failures_def)
  moreover have "Relayer_Close L r' = (err, r')"
    using r' by (simp add: Relayer_Close_def Let_def)
  ultimately show ?thesis by blast
qed

definition toy_libp2p :: "(unit, string, string) libp2p" where
  "toy_libp2p =
     \<lparr>lp_GenPrivKey = Inr (), lp_FromSeed = (\<lambda>_. Inr ()), lp_ToECDSAP2P = (\<lambda>k. Inr k),
      lp_NewMultiaddr = Inr, lp_New = (\<lambda>_ _. None), lp_AddrInfo = Inr,
      lp_mdnsStart = (\<lambda>_. None), lp_dhtNew = (\<lambda>_. None), lp_dhtBootstrap = None,
      lp_gossip = (\<lambda>_. None), lp_centerClose = Some (External 1), lp_mdnsClose = None,
      lp_dhtClose = Some (External 2), lp_hostClose = None\<rparr>"

definition toy_relayer :: Relayer where
  "toy_relayer =
     \<lparr>rl_closeOnce = False, rl_closeErr = None, rl_msgCenter = True, rl_mdnsSvc = False,
      rl_peerChan = False, rl_kadDHT = True, rl_log = []\<rparr>"

theorem relayer_close_complete_witness:
  "rl_log (snd (Relayer_Close toy_libp2p toy_relayer)) = [CenterClose, CancelBackend, DhtClose, HostClose] \<and>
   errors_Is (fst (Relayer_Close toy_libp2p toy_relayer)) (External 2)"
proof -
  obtain err r' where c: "Relayer_Close toy_libp2p toy_relayer = (err, r')" by force
  have "\<not> rl_closeOnce toy_relayer" "rl_closeErr toy_relayer = None" "rl_log toy_relayer = []"
    "close_calls toy_relayer = [CenterClose, CancelBackend, DhtClose, HostClose]"
    "close_failures toy_libp2p toy_relayer = {External 1, External 2}"
    by (auto simp: toy_relayer_def close_calls_def close_failures_def toy_libp2p_def)
  with relayer_close_complete [OF _ _ c] c show ?thesis by (simp add: err_has_def)
qed

lemma found_peers:
  "dn_cap n = 64 \<Longrightarrow> length (dn_peerChan n) \<le> 64 \<Longrightarrow>
   fold (\<lambda>p n. snd (HandlePeerFound False pick p n)) ps n =
     n\<lparr>dn_peerChan := take 64 (dn_peerChan n @ ps)\<rparr>"
proof (induction ps arbitrary: n)
  case (Cons p ps)
  show ?case
  proof (cases "length (dn_peerChan n) < 64")
    case True
    with Cons show ?thesis by (simp add: HandlePeerFound_def take_Cons')
  next
    case False
    with Cons show ?thesis by (simp add: HandlePeerFound_def)
  qed
qed simp

lemma discover_loop_map:
  "discover_loop (List.map Discover errs) n =
     (False, take (length errs) (dn_peerChan n), n\<lparr>dn_peerChan := drop (length errs) (dn_peerChan n)\<rparr>)"
  by (induction errs arbitrary: n) (auto simp: next_peer_def split: list.split)

text \<open>
  Discovery never blocks the mDNS service: of the peers found while nobody connects, the
  first 64 are kept and the rest is dropped, and \<open>DiscoverPeers\<close> tries the kept ones in the
  order in which they were found, failures included; without mDNS it returns at once.
\<close>

theorem discovery_keeps_first_peers:
  "let n = fold (\<lambda>p n. snd (HandlePeerFound False pick p n)) ps newDiscoveryNotifee
   in dn_peerChan n = take 64 ps \<and>
      DiscoverPeers r (List.map Discover errs) n =
        (if rl_peerChan r
         then (False, take (length errs) (take 64 ps),
               n\<lparr>dn_peerChan := drop (length errs) (take 64 ps)\<rparr>)
         else (True, [], n))"
  by (simp add: found_peers newDiscoveryNotifee_def DiscoverPeers_def discover_loop_map Let_def)

end
