(* ===== verification/ServiceRelayer.thy ===== *)
theory ServiceRelayer
  imports Lake Relayer
begin

text \<open>
  The service with its relayer: \<open>NewService\<close>, the last step of \<open>Close\<close> and \<open>CancelBackend\<close> of
  \<open>lake/lake.go\<close>. A service owns the relayer it has built; without one, closing is nothing.
\<close>

text \<open>The service, its relayer, and whether \<open>DiscoverPeers\<close> has been started.\<close>

definition NewService_relayer ::
    "('key, 'addr, 'peer) libp2p \<Rightarrow> bytes \<Rightarrow> string list \<Rightarrow> bool \<Rightarrow> bool \<Rightarrow> string list \<Rightarrow>
     (goerr + (Service \<times> Relayer \<times> bool)) \<times> rcall list" where
  "NewService_relayer L seed relayerAddrs mdnsEnabled dhtEnabled bootstrapPeers =
     (case NewRelayer L seed relayerAddrs mdnsEnabled dhtEnabled bootstrapPeers of
        (Inl err, log) \<Rightarrow> (Inl err, log)
      | (Inr relayer, log) \<Rightarrow> (Inr (NewService, relayer, mdnsEnabled), log))"

definition Service_close_relayer ::
    "('key, 'addr, 'peer) libp2p \<Rightarrow> Relayer option \<Rightarrow> goerr option \<times> Relayer option" where
  "Service_close_relayer L relayer =
     (case relayer of
        None \<Rightarrow> (None, None)
      | Some r \<Rightarrow> let (err, r) = Relayer_Close L r in (err, Some r))"

definition Service_CancelBackend :: "Relayer option \<Rightarrow> Relayer option" where
  "Service_CancelBackend relayer = map_option Relayer_CancelBackend relayer"

lemma discover_only_with_mdns:
  assumes "NewService_relayer L seed addrs mdnsEnabled dhtEnabled peers = (Inr (v, r, started), log)"
  shows "started = rl_peerChan r" and "v = NewService" and "\<not> rl_closeOnce r"
  using assms
  by (auto simp: NewService_relayer_def NewRelayer_def init_mdns_def init_dht_def init_gossip_def
      abandon_def Let_def split: sum.splits option.splits prod.splits if_splits)

end
