(* ===== verification/Command.thy ===== *)
theory Command
  imports Config Client
begin

text \<open>
  What the load generator (\<open>cli/tools/loader/loader.go\<close>) and the interactive client
  (\<open>cli/client/client.go\<close>) share: a context with its cancel function, the channel of signals,
  the client of the service, the wait group, and the goroutine that listens for a signal. The
  commands extend the record by their own goroutines. \<open>pr_signalled\<close> remembers that a signal
  has come at all, \<open>pr_panic\<close> that the process is gone. What the commands print is left out.
\<close>

datatype sig_pc = SigNone | SigWait | SigCancel | SigClose | SigExit | SigGone

text \<open>The main goroutine: starting its goroutines one by one, in \<open>wg.Wait\<close>, returned.\<close>

datatype main_pc = MSpawn nat | MWait | MReturned

record process =
  pr_ctx :: bool
  pr_sigCh :: bool
  pr_signalled :: bool
  pr_client :: Client
  pr_wg :: int
  pr_sig :: sig_pc
  pr_main :: main_pc
  pr_panic :: bool

definition cancel_ctx :: "'a process_scheme \<Rightarrow> 'a process_scheme" where
  "cancel_ctx p = p\<lparr>pr_ctx := True\<rparr>"

definition close_client :: "'a process_scheme \<Rightarrow> 'a process_scheme" where
  "close_client p = p\<lparr>pr_client := Client_Close (pr_client p)\<rparr>"

text \<open>\<open>wg.Add(1)\<close> and the deferred \<open>wg.Done()\<close>, which panics below zero.\<close>

definition wg_add :: "'a process_scheme \<Rightarrow> 'a process_scheme" where
  "wg_add p = p\<lparr>pr_wg := pr_wg p + 1\<rparr>"

definition wg_done :: "'a process_scheme \<Rightarrow> 'a process_scheme" where
  "wg_done p = (if pr_wg p \<le> 0 then p\<lparr>pr_panic := True\<rparr> else p\<lparr>pr_wg := pr_wg p - 1\<rparr>)"

text \<open>\<open>signal.Notify\<close> sends without blocking to a channel of one slot.\<close>

definition notify :: "'a process_scheme \<Rightarrow> 'a process_scheme" where
  "notify p = p\<lparr>pr_sigCh := True, pr_signalled := True\<rparr>"

text \<open>Both commands begin with a key and a client; an error of either is returned.\<close>

definition command_start ::
    "goerr + 'k \<Rightarrow> (string \<Rightarrow> bool \<Rightarrow> goerr option) \<Rightarrow> string \<Rightarrow> bool \<Rightarrow>
     goerr + ('k \<times> Client)" where
  "command_start newKey dial hostAddr tlsEnabled =
     (case newKey of
        Inl err \<Rightarrow> Inl err
      | Inr privKey \<Rightarrow>
          (case NewClient dial hostAddr tlsEnabled [] of
             Inl err \<Rightarrow> Inl err
           | Inr msgLakeClient \<Rightarrow> Inr (privKey, msgLakeClient)))"

definition process_init :: "Client \<Rightarrow> process" where
  "process_init msgLakeClient =
     \<lparr>pr_ctx = False, pr_sigCh = False, pr_signalled = False, pr_client = msgLakeClient,
      pr_wg = 0, pr_sig = SigNone, pr_main = MSpawn 0, pr_panic = False\<rparr>"

text \<open>The goroutine that listens for signals, from its start to its \<open>wg.Done\<close>.\<close>

definition spawn_sig :: "'a process_scheme \<Rightarrow> 'a process_scheme" where
  "spawn_sig p = (wg_add p)\<lparr>pr_sig := SigWait\<rparr>"

inductive sig_step :: "'a process_scheme \<Rightarrow> 'a process_scheme \<Rightarrow> bool" where
  sig_ctx: "pr_sig p = SigWait \<Longrightarrow> pr_ctx p \<Longrightarrow> sig_step p (p\<lparr>pr_sig := SigExit\<rparr>)"
| sig_got: "pr_sig p = SigWait \<Longrightarrow> pr_sigCh p \<Longrightarrow>
    sig_step p (p\<lparr>pr_sigCh := False, pr_sig := SigCancel\<rparr>)"
| sig_cancel: "pr_sig p = SigCancel \<Longrightarrow> sig_step p ((cancel_ctx p)\<lparr>pr_sig := SigClose\<rparr>)"
| sig_close: "pr_sig p = SigClose \<Longrightarrow> sig_step p ((close_client p)\<lparr>pr_sig := SigExit\<rparr>)"
| sig_exit: "pr_sig p = SigExit \<Longrightarrow> sig_step p ((wg_done p)\<lparr>pr_sig := SigGone\<rparr>)"

text \<open>The deferred calls of the main goroutine: closing the client and cancelling.\<close>

definition main_return :: "'a process_scheme \<Rightarrow> 'a process_scheme" where
  "main_return p = (cancel_ctx (close_client p))\<lparr>pr_main := MReturned\<rparr>"

lemmas process_ops = cancel_ctx_def close_client_def wg_add_def wg_done_def notify_def spawn_sig_def
  main_return_def

section \<open>The part of the invariant that the commands share\<close>

definition sig_live :: "'a process_scheme \<Rightarrow> bool" where
  "sig_live p \<longleftrightarrow> pr_sig p \<noteq> SigNone \<and> pr_sig p \<noteq> SigGone"

text \<open>
  The connection is closed at most once, the client is closed only after the context is
  cancelled, and the goroutine acts on signals that have come.
\<close>

definition sig_ok :: "'a process_scheme \<Rightarrow> bool" where
  "sig_ok p \<longleftrightarrow>
     cl_closed (pr_client p) = cl_closeOnce (pr_client p) \<and>
     cl_connCloses (pr_client p) = of_bool (cl_closed (pr_client p)) \<and>
     (cl_closed (pr_client p) \<longrightarrow> pr_ctx p) \<and>
     (pr_sig p \<in> {SigClose, SigExit, SigGone} \<longrightarrow> pr_ctx p) \<and>
     (pr_sigCh p \<or> pr_sig p \<in> {SigCancel, SigClose} \<longrightarrow> pr_signalled p)"

lemma command_start_client:
  "command_start newKey dial hostAddr tlsEnabled = Inr (privKey, c) \<Longrightarrow>
     newKey = Inr privKey \<and> \<not> cl_closed c \<and> \<not> cl_closeOnce c \<and> cl_connCloses c = 0 \<and>
     \<not> verifyReceivedMessages c"
  by (auto simp: command_start_def NewClient_def Let_def split: sum.splits option.splits)

lemma sig_ok_ops [simp]:
  "sig_ok p \<Longrightarrow> sig_ok (cancel_ctx p)"
  "sig_ok p \<Longrightarrow> sig_ok (notify p)"
  "sig_ok p \<Longrightarrow> sig_ok (wg_add p)"
  "sig_ok p \<Longrightarrow> sig_ok (wg_done p)"
  "sig_ok p \<Longrightarrow> sig_ok (spawn_sig p)"
  "sig_ok p \<Longrightarrow> pr_ctx p \<Longrightarrow> sig_ok (close_client p)"
  "sig_ok p \<Longrightarrow> sig_ok (main_return p)"
  by (auto simp: sig_ok_def process_ops Client_Close_def)

lemma sig_ok_main [simp]:
  "sig_ok (p\<lparr>pr_main := m\<rparr>) \<longleftrightarrow> sig_ok p"
  "sig_ok (p\<lparr>pr_panic := x\<rparr>) \<longleftrightarrow> sig_ok p"
  by (simp_all add: sig_ok_def)

lemma sig_step_ok:
  assumes "sig_step p q" and "sig_ok p"
  shows "sig_ok q"
  using assms by (cases rule: sig_step.cases) (auto simp: sig_ok_def process_ops Client_Close_def)

text \<open>What a step of the signal goroutine leaves as it is.\<close>

lemma sig_step_frame:
  assumes "sig_step p q"
  shows "process.more q = process.more p" "pr_main q = pr_main p" "pr_signalled q = pr_signalled p"
    "pr_ctx p \<Longrightarrow> pr_ctx q" "sig_live p" "0 < pr_wg p \<Longrightarrow> pr_panic q = pr_panic p"
    "0 < pr_wg p \<Longrightarrow> pr_wg q = pr_wg p - of_bool (\<not> sig_live q)" "pr_sig q \<noteq> SigNone"
    "cl_closed (pr_client p) \<Longrightarrow> cl_closed (pr_client q)"
  using assms by (cases rule: sig_step.cases; auto simp: process_ops sig_live_def Client_Close_def)+

text \<open>The cancel by the goroutine is due to a signal.\<close>

lemma sig_step_ctx: "sig_step p q \<Longrightarrow> sig_ok p \<Longrightarrow> pr_ctx q \<Longrightarrow> pr_ctx p \<or> pr_signalled p"
  by (cases rule: sig_step.cases) (auto simp: sig_ok_def process_ops)

text \<open>A measure for the goroutine, and where it stops.\<close>

definition sig_left :: "'a process_scheme \<Rightarrow> nat" where
  "sig_left p = (case pr_sig p of SigNone \<Rightarrow> 5 | SigWait \<Rightarrow> 4 | SigCancel \<Rightarrow> 3 | SigClose \<Rightarrow> 2
     | SigExit \<Rightarrow> 1 | SigGone \<Rightarrow> 0)"

lemma sig_step_left: "sig_step p q \<Longrightarrow> sig_left q < sig_left p"
  by (cases rule: sig_step.cases) (auto simp: sig_left_def process_ops)

lemma sig_can_step:
  assumes "sig_live p" and "pr_ctx p"
  shows "\<exists>q. sig_step p q"
  using assms by (cases "pr_sig p") (auto simp: sig_live_def intro: sig_step.intros)

end
