(* ===== verification/Loader.thy ===== *)
theory Loader
  imports Command
begin

text \<open>
  \<open>cli/tools/loader/loader.go\<close>: the load generator, which publishes the numbers from 0 on, one
  for each tick, until it has published the requested count or a signal comes. Its main
  goroutine, the goroutine for signals and the publisher are one step relation; the ticker
  and the signals are its environment.
\<close>

section \<open>Flags\<close>

record loader_flags =
  lf_tlsEnabled :: bool
  lf_hostAddr :: string
  lf_topicID :: string
  lf_nickname :: string
  lf_interval :: int
  lf_loadCount :: "64 word"

text \<open>The defaults; \<open>r\<close> is the random number drawn when the package starts.\<close>

definition loader_init :: "int \<Rightarrow> loader_flags" where
  "loader_init r = \<lparr>lf_tlsEnabled = False, lf_hostAddr = ''localhost:8080'',
     lf_topicID = ''life is beautiful'', lf_nickname = ''alien-'' @ Itoa r,
     lf_interval = 1 * second, lf_loadCount = 0\<rparr>"

section \<open>The goroutines\<close>

datatype pub_pc = PbNone | PbTicker | PbSelect | PbTicked | PbPublish | PbExit | PbGone

text \<open>\<open>ld_tick\<close> is the channel of the ticker, \<open>ld_sent\<close> the calls of \<open>Publish\<close>.\<close>

record loader = process +
  ld_pub :: pub_pc
  ld_tick :: bool
  ld_i :: "64 word"
  ld_sent :: "(string \<times> string) list"

definition loader_start ::
    "goerr + 'k \<Rightarrow> (string \<Rightarrow> bool \<Rightarrow> goerr option) \<Rightarrow> loader_flags \<Rightarrow> goerr + loader" where
  "loader_start newKey dial F =
     (case command_start newKey dial (lf_hostAddr F) (lf_tlsEnabled F) of
        Inl err \<Rightarrow> Inl err
      | Inr (privKey, c) \<Rightarrow>
          Inr (process.extend (process_init c)
            \<lparr>ld_pub = PbNone, ld_tick = False, ld_i = 0, ld_sent = []\<rparr>))"

definition spawn_pub :: "loader \<Rightarrow> loader" where
  "spawn_pub p = (wg_add p)\<lparr>ld_pub := PbTicker\<rparr>"

definition newTicker :: "loader_flags \<Rightarrow> loader \<Rightarrow> loader" where
  "newTicker F p =
     (if lf_interval F \<le> 0 then p\<lparr>pr_panic := True\<rparr> else p\<lparr>ld_pub := PbSelect\<rparr>)"

definition on_tick :: "loader_flags \<Rightarrow> loader \<Rightarrow> loader" where
  "on_tick F p =
     (if 0 <s lf_loadCount F \<and> lf_loadCount F \<le>s ld_i p then (cancel_ctx p)\<lparr>ld_pub := PbExit\<rparr>
      else p\<lparr>ld_pub := PbPublish, ld_sent := ld_sent p @ [(lf_topicID F, Itoa (sint (ld_i p)))]\<rparr>)"

text \<open>The outcome of the publish is printed and otherwise ignored.\<close>

definition publish_returns :: "loader \<Rightarrow> loader" where
  "publish_returns p = p\<lparr>ld_i := ld_i p + 1, ld_pub := PbSelect\<rparr>"

inductive loader_own :: "loader_flags \<Rightarrow> loader \<Rightarrow> loader \<Rightarrow> bool" for F :: loader_flags where
  ld_sig: "\<not> pr_panic p \<Longrightarrow> sig_step p q \<Longrightarrow> loader_own F p q"
| ld_spawn_sig: "\<not> pr_panic p \<Longrightarrow> pr_main p = MSpawn 0 \<Longrightarrow>
    loader_own F p ((spawn_sig p)\<lparr>pr_main := MSpawn 1\<rparr>)"
| ld_spawn_pub: "\<not> pr_panic p \<Longrightarrow> pr_main p = MSpawn 1 \<Longrightarrow>
    loader_own F p ((spawn_pub p)\<lparr>pr_main := MWait\<rparr>)"
| ld_waited: "\<not> pr_panic p \<Longrightarrow> pr_main p = MWait \<Longrightarrow> pr_wg p = 0 \<Longrightarrow>
    loader_own F p (main_return p)"
| ld_newTicker: "\<not> pr_panic p \<Longrightarrow> ld_pub p = PbTicker \<Longrightarrow> loader_own F p (newTicker F p)"
| ld_ctx: "\<not> pr_panic p \<Longrightarrow> ld_pub p = PbSelect \<Longrightarrow> pr_ctx p \<Longrightarrow>
    loader_own F p (p\<lparr>ld_pub := PbExit\<rparr>)"
| ld_ticked: "\<not> pr_panic p \<Longrightarrow> ld_pub p = PbSelect \<Longrightarrow> ld_tick p \<Longrightarrow>
    loader_own F p (p\<lparr>ld_tick := False, ld_pub := PbTicked\<rparr>)"
| ld_on_tick: "\<not> pr_panic p \<Longrightarrow> ld_pub p = PbTicked \<Longrightarrow> loader_own F p (on_tick F p)"
| ld_published: "\<not> pr_panic p \<Longrightarrow> ld_pub p = PbPublish \<Longrightarrow> loader_own F p (publish_returns p)"
| ld_exit: "\<not> pr_panic p \<Longrightarrow> ld_pub p = PbExit \<Longrightarrow>
    loader_own F p ((wg_done p)\<lparr>ld_pub := PbGone\<rparr>)"

text \<open>The ticker drops a tick that nobody has taken yet.\<close>

inductive loader_env :: "loader \<Rightarrow> loader \<Rightarrow> bool" where
  ld_notify: "loader_env p (notify p)"
| ld_tick: "ld_pub p \<notin> {PbNone, PbTicker, PbGone} \<Longrightarrow> loader_env p (p\<lparr>ld_tick := True\<rparr>)"

definition loader_step :: "loader_flags \<Rightarrow> loader \<Rightarrow> loader \<Rightarrow> bool" where
  "loader_step F p q \<longleftrightarrow> loader_own F p q \<or> loader_env p q"

definition loader_begin :: "loader_flags \<Rightarrow> loader \<Rightarrow> bool" where
  "loader_begin F p \<longleftrightarrow> (\<exists>(newKey :: goerr + unit) dial. loader_start newKey dial F = Inr p)"

abbreviation loader_reachable :: "loader_flags \<Rightarrow> loader \<Rightarrow> bool" where
  "loader_reachable F \<equiv> reach (loader_begin F) (loader_step F)"

section \<open>The invariant\<close>

definition pub_live :: "loader \<Rightarrow> bool" where
  "pub_live p \<longleftrightarrow> ld_pub p \<noteq> PbNone \<and> ld_pub p \<noteq> PbGone"

fun phase_ok :: "main_pc \<Rightarrow> sig_pc \<Rightarrow> pub_pc \<Rightarrow> bool" where
  "phase_ok (MSpawn n) s b \<longleftrightarrow> b = PbNone \<and> (n = 0 \<and> s = SigNone \<or> n = 1 \<and> s \<noteq> SigNone)"
| "phase_ok MWait s b \<longleftrightarrow> s \<noteq> SigNone \<and> b \<noteq> PbNone"
| "phase_ok MReturned s b \<longleftrightarrow> s = SigGone \<and> b = PbGone"

text \<open>The numbers published so far; the counter is one behind while a publish is under way.\<close>

definition numbers :: "string \<Rightarrow> nat \<Rightarrow> (string \<times> string) list" where
  "numbers topic n = List.map (\<lambda>j. (topic, Itoa (sint (word_of_nat j :: 64 word)))) [0..<n]"

definition count_ok :: "loader_flags \<Rightarrow> loader \<Rightarrow> bool" where
  "count_ok F p \<longleftrightarrow>
     ld_sent p = numbers (lf_topicID F) (length (ld_sent p)) \<and>
     (if ld_pub p = PbPublish
      then ld_sent p \<noteq> [] \<and> ld_i p = word_of_nat (length (ld_sent p) - 1)
      else ld_i p = word_of_nat (length (ld_sent p))) \<and>
     (0 <s lf_loadCount F \<longrightarrow> int (length (ld_sent p)) \<le> sint (lf_loadCount F))"

text \<open>Why the context is cancelled.\<close>

definition finished :: "loader_flags \<Rightarrow> loader \<Rightarrow> bool" where
  "finished F p \<longleftrightarrow> 0 <s lf_loadCount F \<and> int (length (ld_sent p)) = sint (lf_loadCount F)"

definition loader_inv :: "loader_flags \<Rightarrow> loader \<Rightarrow> bool" where
  "loader_inv F p \<longleftrightarrow>
     sig_ok p \<and> phase_ok (pr_main p) (pr_sig p) (ld_pub p) \<and>
     pr_wg p = of_bool (sig_live p) + of_bool (pub_live p) \<and>
     count_ok F p \<and>
     (pr_ctx p \<longrightarrow> pr_signalled p \<or> finished F p) \<and>
     (ld_pub p \<in> {PbExit, PbGone} \<longrightarrow> pr_ctx p) \<and>
     (pr_main p = MReturned \<longrightarrow> cl_closed (pr_client p)) \<and>
     (pr_panic p \<longrightarrow> lf_interval F \<le> 0 \<and> ld_sent p = []) \<and>
     (ld_pub p \<in> {PbNone, PbTicker} \<longrightarrow> ld_sent p = [])"

lemma sint_word_of_nat:
  assumes "n < 2 ^ 63"
  shows "sint (word_of_nat n :: 64 word) = int n"
proof -
  have "int n < int (2 ^ 63)" using assms by (simp only: of_nat_less_iff)
  then show ?thesis by (simp add: signed_of_nat signed_take_bit_int_eq_self)
qed

lemma numbers_Suc: "numbers topic (Suc n) = numbers topic n @ [(topic, Itoa (sint (word_of_nat n :: 64 word)))]"
  by (simp add: numbers_def)

lemma length_numbers [simp]: "length (numbers topic n) = n"
  by (simp add: numbers_def)

lemma numbers_decimal:
  "n \<le> 2 ^ 63 \<Longrightarrow> numbers topic n = List.map (\<lambda>j. (topic, Itoa (int j))) [0..<n]"
  by (simp add: numbers_def sint_word_of_nat)

lemma loader_fields:
  fixes p q :: loader
  assumes "process.more q = process.more p"
  shows "ld_pub q = ld_pub p" "ld_tick q = ld_tick p" "ld_i q = ld_i p" "ld_sent q = ld_sent p"
  using assms by (cases p; cases q; simp)+

text \<open>What the shared operations leave of the fields of the loader.\<close>

lemma loader_frames [simp]:
  fixes p :: loader
  shows "ld_pub (cancel_ctx p) = ld_pub p" "ld_i (cancel_ctx p) = ld_i p"
    "ld_sent (cancel_ctx p) = ld_sent p"
    "ld_pub (notify p) = ld_pub p" "ld_i (notify p) = ld_i p" "ld_sent (notify p) = ld_sent p"
    "ld_pub (wg_done p) = ld_pub p" "ld_i (wg_done p) = ld_i p" "ld_sent (wg_done p) = ld_sent p"
    "ld_pub (wg_add p) = ld_pub p" "ld_i (wg_add p) = ld_i p" "ld_sent (wg_add p) = ld_sent p"
    "ld_pub (spawn_sig p) = ld_pub p" "ld_i (spawn_sig p) = ld_i p" "ld_sent (spawn_sig p) = ld_sent p"
    "ld_pub (main_return p) = ld_pub p" "ld_i (main_return p) = ld_i p"
    "ld_sent (main_return p) = ld_sent p"
  by (simp_all add: process_ops)

lemma loader_inv_init:
  assumes "loader_begin F p"
  shows "loader_inv F p"
proof -
  obtain newKey :: "goerr + unit" and dial where "loader_start newKey dial F = Inr p"
    using assms by (auto simp: loader_begin_def)
  then obtain k c where "command_start newKey dial (lf_hostAddr F) (lf_tlsEnabled F) = Inr (k, c)"
    and p: "p = process.extend (process_init c) \<lparr>ld_pub = PbNone, ld_tick = False, ld_i = 0, ld_sent = []\<rparr>"
    by (cases "command_start newKey dial (lf_hostAddr F) (lf_tlsEnabled F)")
      (auto simp: loader_start_def)
  then have c: "\<not> cl_closed c" "\<not> cl_closeOnce c" "cl_connCloses c = 0"
    by (auto dest: command_start_client)
  then show ?thesis
    by (simp add: p loader_inv_def sig_ok_def process_init_def process.defs count_ok_def numbers_def
        sig_live_def pub_live_def word_sless_alt)
qed

lemma phase_sig:
  "phase_ok m s b \<Longrightarrow> s \<noteq> SigNone \<Longrightarrow> s \<noteq> SigGone \<Longrightarrow> s' \<noteq> SigNone \<Longrightarrow> phase_ok m s' b"
  by (cases m) auto

lemma loader_inv_sig:
  assumes "sig_step p q" "loader_inv F p"
  shows "loader_inv F q"
proof -
  note f = sig_step_frame [OF assms(1)] loader_fields [OF sig_step_frame(1) [OF assms(1)]]
  have ok: "sig_ok q" using sig_step_ok assms by (auto simp: loader_inv_def)
  have wg: "0 < pr_wg p" using assms(2) f(5) by (simp add: loader_inv_def)
  have "phase_ok (pr_main q) (pr_sig q) (ld_pub q)"
    using assms(2) f(5,8) unfolding f(2,10) loader_inv_def sig_live_def by (blast intro: phase_sig)
  moreover have "pr_ctx q \<longrightarrow> pr_signalled q \<or> finished F q"
    using sig_step_ctx [OF assms(1)] assms(2) unfolding loader_inv_def finished_def f(3,13) by blast
  moreover have same: "count_ok F q = count_ok F p" "pub_live q = pub_live p"
    by (simp_all add: count_ok_def pub_live_def f(11-13) f(10))
  moreover have "pr_wg p = of_bool (sig_live p) + of_bool (pub_live p)"
    using assms(2) by (simp add: loader_inv_def)
  then have "pr_wg q = of_bool (sig_live q) + of_bool (pub_live q)"
    using f(5) f(7) [OF wg] same(2) by simp
  ultimately show ?thesis
    using assms(2) ok unfolding loader_inv_def f(2) f(6) [OF wg] f(10) f(13) by (blast intro: f(4,9))
qed

lemma count_sint:
  assumes "count_ok F p" "0 <s lf_loadCount F"
  shows "sint (word_of_nat (length (ld_sent p)) :: 64 word) = int (length (ld_sent p))"
proof -
  have "int (length (ld_sent p)) < 2 ^ 63"
    using assms sint_lt [of "lf_loadCount F"] by (simp add: count_ok_def)
  then have "int (length (ld_sent p)) < int (2 ^ 63)" by simp
  then have "length (ld_sent p) < 2 ^ 63" by (simp only: of_nat_less_iff)
  then show ?thesis by (rule sint_word_of_nat)
qed

lemma count_tick:
  assumes c: "count_ok F p" and t: "ld_pub p = PbTicked"
  shows "count_ok F (on_tick F p)" and
    "pr_ctx (on_tick F p) \<longrightarrow> pr_ctx p \<or> finished F (on_tick F p)"
proof -
  have i: "ld_i p = word_of_nat (length (ld_sent p))" using assms by (simp add: count_ok_def)
  have le: "lf_loadCount F \<le>s ld_i p \<longleftrightarrow> sint (lf_loadCount F) \<le> int (length (ld_sent p))"
    if "0 <s lf_loadCount F"
    using count_sint [OF c that] by (simp add: i word_sle_eq)
  have n: "ld_sent p @ [(lf_topicID F, Itoa (sint (ld_i p)))] =
      numbers (lf_topicID F) (Suc (length (ld_sent p)))"
    using c unfolding count_ok_def numbers_Suc i by metis
  show "count_ok F (on_tick F p)"
  proof (cases "0 <s lf_loadCount F \<and> lf_loadCount F \<le>s ld_i p")
    case True
    then show ?thesis using c t by (simp add: count_ok_def on_tick_def)
  next
    case False
    then have on: "on_tick F p = p\<lparr>ld_pub := PbPublish,
        ld_sent := numbers (lf_topicID F) (Suc (length (ld_sent p)))\<rparr>"
      by (auto simp: on_tick_def n)
    have "numbers (lf_topicID F) (Suc m) \<noteq> []" for m by (simp add: numbers_Suc)
    moreover have "0 <s lf_loadCount F \<longrightarrow> int (Suc (length (ld_sent p))) \<le> sint (lf_loadCount F)"
      using False le by auto
    ultimately show ?thesis by (simp add: count_ok_def on i)
  qed
  show "pr_ctx (on_tick F p) \<longrightarrow> pr_ctx p \<or> finished F (on_tick F p)"
    using c le by (auto simp: on_tick_def finished_def count_ok_def)
qed


lemma loader_update_frames [simp]:
  fixes p :: loader
  shows "sig_ok (p\<lparr>ld_pub := b\<rparr>) \<longleftrightarrow> sig_ok p" "sig_ok (p\<lparr>ld_tick := t\<rparr>) \<longleftrightarrow> sig_ok p"
    "sig_ok (p\<lparr>ld_i := n\<rparr>) \<longleftrightarrow> sig_ok p" "sig_ok (p\<lparr>ld_sent := es\<rparr>) \<longleftrightarrow> sig_ok p"
    "sig_live (p\<lparr>ld_pub := b\<rparr>) \<longleftrightarrow> sig_live p" "sig_live (p\<lparr>ld_tick := t\<rparr>) \<longleftrightarrow> sig_live p"
    "sig_live (p\<lparr>ld_i := n\<rparr>) \<longleftrightarrow> sig_live p" "sig_live (p\<lparr>ld_sent := es\<rparr>) \<longleftrightarrow> sig_live p"
    "sig_live (p\<lparr>pr_main := m\<rparr>) \<longleftrightarrow> sig_live p" "sig_live (p\<lparr>pr_wg := w\<rparr>) \<longleftrightarrow> sig_live p"
    "sig_live (p\<lparr>pr_ctx := c\<rparr>) \<longleftrightarrow> sig_live p" "sig_live (p\<lparr>pr_panic := x\<rparr>) \<longleftrightarrow> sig_live p"
    "sig_live (p\<lparr>pr_sig := SigWait\<rparr>)"
    "pub_live (p\<lparr>ld_pub := b\<rparr>) \<longleftrightarrow> b \<noteq> PbNone \<and> b \<noteq> PbGone"
    "pub_live (p\<lparr>pr_main := m\<rparr>) \<longleftrightarrow> pub_live p" "pub_live (p\<lparr>pr_wg := w\<rparr>) \<longleftrightarrow> pub_live p"
    "pub_live (p\<lparr>pr_sig := s\<rparr>) \<longleftrightarrow> pub_live p" "pub_live (p\<lparr>ld_i := n\<rparr>) \<longleftrightarrow> pub_live p"
    "pub_live (p\<lparr>pr_panic := x\<rparr>) \<longleftrightarrow> pub_live p" "pub_live (p\<lparr>ld_sent := es\<rparr>) \<longleftrightarrow> pub_live p"
    "pub_live (p\<lparr>ld_tick := t\<rparr>) \<longleftrightarrow> pub_live p"
    "finished F (p\<lparr>ld_pub := b\<rparr>) \<longleftrightarrow> finished F p" "finished F (p\<lparr>ld_tick := t\<rparr>) \<longleftrightarrow> finished F p"
    "finished F (p\<lparr>pr_main := m\<rparr>) \<longleftrightarrow> finished F p" "finished F (p\<lparr>pr_wg := w\<rparr>) \<longleftrightarrow> finished F p"
    "finished F (p\<lparr>pr_sig := s\<rparr>) \<longleftrightarrow> finished F p" "finished F (p\<lparr>pr_panic := x\<rparr>) \<longleftrightarrow> finished F p"
    "finished F (p\<lparr>ld_i := n\<rparr>) \<longleftrightarrow> finished F p" "finished F (p\<lparr>pr_ctx := c\<rparr>) \<longleftrightarrow> finished F p"
    "finished F (p\<lparr>pr_client := x1\<rparr>) \<longleftrightarrow> finished F p"
    "finished F (wg_add p) = finished F p" "finished F (wg_done p) = finished F p"
    "finished F (spawn_sig p) = finished F p" "finished F (main_return p) = finished F p"
    "finished F (cancel_ctx p) = finished F p" "finished F (notify p) = finished F p"
  by (simp_all add: sig_ok_def sig_live_def pub_live_def finished_def)

text \<open>The counter depends on three fields only.\<close>

lemma count_okI:
  assumes "count_ok F p" "ld_i q = ld_i p" "ld_sent q = ld_sent p"
    "ld_pub q = PbPublish \<longleftrightarrow> ld_pub p = PbPublish"
  shows "count_ok F q"
  using assms by (simp add: count_ok_def)

lemma publish_returns_count:
  assumes "count_ok F p" "ld_pub p = PbPublish"
  shows "count_ok F (publish_returns p)"
proof -
  have "word_of_nat (length (ld_sent p) - 1) + 1 = (word_of_nat (length (ld_sent p)) :: 64 word)"
    using assms by (cases "ld_sent p") (simp_all add: count_ok_def add.commute)
  then show ?thesis using assms by (simp add: count_ok_def publish_returns_def)
qed

lemma publisher_running: "phase_ok m s b \<Longrightarrow> b \<noteq> PbNone \<Longrightarrow> b \<noteq> PbGone \<Longrightarrow> m = MWait \<and> s \<noteq> SigNone"
  by (cases m) auto

text \<open>A step of the publisher keeps the invariant if it keeps these parts of it.\<close>

lemma loader_inv_pub:
  assumes inv: "loader_inv F p" and live: "ld_pub p \<noteq> PbNone" "ld_pub p \<noteq> PbGone"
    and same: "pr_sig q = pr_sig p" "pr_main q = pr_main p" "pr_client q = pr_client p"
      "pr_sigCh q = pr_sigCh p" "pr_signalled q = pr_signalled p" "pr_ctx p \<longrightarrow> pr_ctx q"
    and wg: "pr_wg q = pr_wg p - of_bool (\<not> pub_live q)" and pub: "ld_pub q \<noteq> PbNone"
    and count: "count_ok F q" and ctx: "pr_ctx q \<longrightarrow> pr_ctx p \<or> finished F q"
    and fin: "finished F p \<longrightarrow> finished F q" and out: "ld_pub q \<in> {PbExit, PbGone} \<longrightarrow> pr_ctx q"
    and panic: "pr_panic q \<longrightarrow> lf_interval F \<le> 0 \<and> ld_sent q = []"
      "ld_pub q = PbTicker \<longrightarrow> ld_sent q = []"
  shows "loader_inv F q"
proof -
  have m: "pr_main p = MWait" "pr_sig p \<noteq> SigNone" "pub_live p"
    using publisher_running inv live by (auto simp: loader_inv_def pub_live_def)
  have "sig_ok q" using inv same by (auto simp: loader_inv_def sig_ok_def)
  moreover have "sig_live q = sig_live p" using same by (simp add: sig_live_def)
  ultimately show ?thesis
    using inv m same wg pub count ctx fin out panic by (auto simp: loader_inv_def)
qed

lemma loader_inv_own:
  assumes "loader_own F p q" and inv: "loader_inv F p"
  shows "loader_inv F q"
  using assms(1)
proof (cases rule: loader_own.cases)
  case ld_sig
  then show ?thesis using loader_inv_sig inv by blast
next
  case ld_spawn_sig
  then show ?thesis using inv sig_ok_ops(5) [of p] count_okI [of F p q]
    by (auto simp: loader_inv_def process_ops pub_live_def sig_live_def)
next
  case ld_spawn_pub
  then show ?thesis using inv sig_ok_ops(3) [of p] count_okI [of F p q]
    by (auto simp: loader_inv_def process_ops spawn_pub_def pub_live_def)
next
  case ld_waited
  then have "pr_sig p = SigGone" "ld_pub p = PbGone" using inv
    by (auto simp: loader_inv_def sig_live_def pub_live_def of_bool_def split: if_splits)
  with ld_waited inv show ?thesis using sig_ok_ops(7) [of p] count_okI [of F p q]
    by (auto simp: loader_inv_def process_ops pub_live_def sig_live_def Client_Close_def sig_ok_def)
next
  case ld_newTicker
  show ?thesis
    by (rule loader_inv_pub [OF inv])
      (use ld_newTicker inv count_okI [of F p q] in
        \<open>auto simp: newTicker_def loader_inv_def pub_live_def finished_def split: if_splits\<close>)
next
  case ld_ctx
  show ?thesis
    by (rule loader_inv_pub [OF inv])
      (use ld_ctx inv count_okI [of F p q] in \<open>auto simp: loader_inv_def\<close>)
next
  case ld_ticked
  show ?thesis
    by (rule loader_inv_pub [OF inv])
      (use ld_ticked inv count_okI [of F p q] in \<open>auto simp: loader_inv_def\<close>)
next
  case ld_on_tick
  have c: "count_ok F q" "pr_ctx q \<longrightarrow> pr_ctx p \<or> finished F q"
    using count_tick inv ld_on_tick by (auto simp: loader_inv_def)
  have fin: "finished F p \<longrightarrow> finished F q"
    using c(1) ld_on_tick by (auto simp: on_tick_def finished_def count_ok_def)
  show ?thesis
    by (rule loader_inv_pub [OF inv])
      (use ld_on_tick inv c fin in \<open>auto simp: on_tick_def loader_inv_def process_ops\<close>)
next
  case ld_published
  show ?thesis
    by (rule loader_inv_pub [OF inv])
      (use ld_published inv publish_returns_count [of F p] in
        \<open>auto simp: publish_returns_def loader_inv_def finished_def\<close>)
next
  case ld_exit
  then have "0 < pr_wg p" using inv by (simp add: loader_inv_def pub_live_def)
  then show ?thesis
    by (intro loader_inv_pub [OF inv])
      (use ld_exit inv count_okI [of F p q] in \<open>auto simp: loader_inv_def wg_done_def\<close>)
qed


lemma loader_inv_env:
  assumes "loader_env p q" "loader_inv F p"
  shows "loader_inv F q"
  using assms(1)
proof (cases rule: loader_env.cases)
  case ld_notify
  then show ?thesis using assms(2) sig_ok_ops(2) [of p] count_okI [of F p q]
    by (auto simp: loader_inv_def notify_def sig_live_def pub_live_def finished_def)
next
  case ld_tick
  then show ?thesis using assms(2) count_okI [of F p q] by (auto simp: loader_inv_def)
qed

interpretation loader: machine "loader_begin F" "loader_step F" "loader_inv F"
  by unfold_locales
    (auto simp: loader_step_def intro: loader_inv_init loader_inv_own loader_inv_env)

section \<open>Properties\<close>

text \<open>
  C40. The load generator publishes the decimal numbers from 0 on to its topic, one each time and
  never one twice, in the range of its 64-bit counter. With a positive count it never publishes
  more than that, and unless a signal has come it returns only after exactly that many; without
  a positive count only a signal ends it.
\<close>

theorem loader_publishes_count:
  assumes "loader_reachable F p"
  shows "ld_sent p = List.map (\<lambda>j. (lf_topicID F, Itoa (sint (word_of_nat j :: 64 word))))
      [0..<length (ld_sent p)] \<and>
    (0 < sint (lf_loadCount F) \<longrightarrow>
      ld_sent p = List.map (\<lambda>j. (lf_topicID F, Itoa (int j))) [0..<length (ld_sent p)] \<and>
      int (length (ld_sent p)) \<le> sint (lf_loadCount F)) \<and>
    (pr_main p = MReturned \<and> \<not> pr_signalled p \<longrightarrow>
      0 < sint (lf_loadCount F) \<and> int (length (ld_sent p)) = sint (lf_loadCount F))"
proof (intro conjI impI)
  have inv: "loader_inv F p" using loader.reach_inv [OF assms] .
  then have sent: "ld_sent p = numbers (lf_topicID F) (length (ld_sent p))"
    by (simp add: loader_inv_def count_ok_def)
  then show "ld_sent p = List.map (\<lambda>j. (lf_topicID F, Itoa (sint (word_of_nat j :: 64 word))))
      [0..<length (ld_sent p)]"
    by (simp only: numbers_def)
  show le: "int (length (ld_sent p)) \<le> sint (lf_loadCount F)" if "0 < sint (lf_loadCount F)"
    using inv that by (simp add: loader_inv_def count_ok_def word_sless_alt)
  show "ld_sent p = List.map (\<lambda>j. (lf_topicID F, Itoa (int j))) [0..<length (ld_sent p)]"
    if "0 < sint (lf_loadCount F)"
  proof -
    have "int (length (ld_sent p)) \<le> int (2 ^ 63)"
      using le [OF that] sint_lt [of "lf_loadCount F"] by simp
    then have "length (ld_sent p) \<le> 2 ^ 63" by (simp only: of_nat_le_iff)
    with sent show ?thesis by (metis numbers_decimal)
  qed
  have ended: "0 < sint (lf_loadCount F) \<and> int (length (ld_sent p)) = sint (lf_loadCount F)"
    if "pr_main p = MReturned \<and> \<not> pr_signalled p"
  proof -
    have "pr_sig p = SigGone" using inv that by (auto simp: loader_inv_def)
    then have "pr_ctx p" using inv by (simp add: loader_inv_def sig_ok_def)
    then show ?thesis using inv that by (simp add: loader_inv_def finished_def word_sless_alt)
  qed
  show "0 < sint (lf_loadCount F)" if "pr_main p = MReturned \<and> \<not> pr_signalled p" using ended [OF that] by simp
  show "int (length (ld_sent p)) = sint (lf_loadCount F)" if "pr_main p = MReturned \<and> \<not> pr_signalled p"
    using ended [OF that] by simp
qed

text \<open>What is left to do for the goroutines; a tick allows one more round of the publisher.\<close>

definition loader_left :: "loader \<Rightarrow> nat" where
  "loader_left p =
     sig_left p + (case pr_main p of MSpawn n \<Rightarrow> 4 - n | MWait \<Rightarrow> 1 | MReturned \<Rightarrow> 0) +
     (case ld_pub p of PbNone \<Rightarrow> 8 | PbTicker \<Rightarrow> 7 | PbTicked \<Rightarrow> 6 | PbPublish \<Rightarrow> 3 | PbSelect \<Rightarrow> 2
        | PbExit \<Rightarrow> 1 | PbGone \<Rightarrow> 0) +
     5 * of_bool (ld_tick p) + of_bool (\<not> pr_panic p)"

lemma loader_left_less:
  assumes "loader_own F p q" and inv: "loader_inv F p"
  shows "loader_left q < loader_left p"
  using assms(1)
proof (cases rule: loader_own.cases)
  case ld_sig
  note f = sig_step_frame [OF ld_sig(2)] loader_fields [OF sig_step_frame(1) [OF ld_sig(2)]]
  have "0 < pr_wg p" using inv f(5) by (simp add: loader_inv_def)
  with f sig_step_left [OF ld_sig(2)] show ?thesis by (simp add: loader_left_def)
next
  case ld_waited
  then show ?thesis by (simp add: loader_left_def sig_left_def process_ops)
next
  case ld_spawn_sig
  then show ?thesis using inv by (simp add: loader_left_def sig_left_def process_ops loader_inv_def)
next
  case ld_spawn_pub
  then show ?thesis using inv
    by (simp add: loader_left_def sig_left_def process_ops loader_inv_def spawn_pub_def)
next
  case ld_exit
  then have "0 < pr_wg p" using inv by (simp add: loader_inv_def pub_live_def)
  with ld_exit show ?thesis by (simp add: loader_left_def sig_left_def wg_done_def)
qed (auto simp: loader_left_def sig_left_def newTicker_def on_tick_def publish_returns_def process_ops)

lemma loader_can_step:
  assumes "loader_inv F p" "pr_ctx p" "\<not> pr_panic p" "pr_main p \<noteq> MReturned"
  shows "\<exists>q. loader_own F p q"
proof (cases "sig_live p")
  case True
  then show ?thesis using sig_can_step [of p] assms by (blast intro: ld_sig)
next
  case False
  show ?thesis
  proof (cases "ld_pub p")
    case PbNone
    with assms have "pr_main p = MSpawn 0 \<or> pr_main p = MSpawn 1"
      by (cases "pr_main p") (auto simp: loader_inv_def)
    with assms show ?thesis by (blast intro: ld_spawn_sig ld_spawn_pub)
  next
    case PbGone
    with False assms have "pr_main p = MWait" "pr_wg p = 0"
      by (cases "pr_main p"; auto simp: loader_inv_def pub_live_def)+
    with assms show ?thesis by (blast intro: ld_waited)
  qed (use assms in \<open>blast intro: loader_own.intros\<close>)+
qed

text \<open>
  The load generator winds down: between two ticks its goroutines take only finitely many
  steps, and once the context is cancelled they are never stuck before the command has returned,
  with both goroutines gone and the connection closed exactly once. It panics only for an
  interval that is not positive, and then before it has published anything.
\<close>

theorem loader_winds_down:
  assumes "loader_reachable F p"
  shows "\<forall>q. loader_own F p q \<longrightarrow> loader_left q < loader_left p"
    and "pr_ctx p \<Longrightarrow> \<not> pr_panic p \<Longrightarrow>
      (\<exists>q. loader_own F p q) \<or>
      pr_main p = MReturned \<and> pr_sig p = SigGone \<and> ld_pub p = PbGone \<and> cl_connCloses (pr_client p) = 1"
    and "pr_panic p \<Longrightarrow> lf_interval F \<le> 0 \<and> ld_sent p = []"
proof -
  have inv: "loader_inv F p" using loader.reach_inv [OF assms] .
  then show "\<forall>q. loader_own F p q \<longrightarrow> loader_left q < loader_left p"
    by (blast intro: loader_left_less)
  show "(\<exists>q. loader_own F p q) \<or>
      pr_main p = MReturned \<and> pr_sig p = SigGone \<and> ld_pub p = PbGone \<and> cl_connCloses (pr_client p) = 1"
    if "pr_ctx p" "\<not> pr_panic p"
  proof (cases "pr_main p = MReturned")
    case True
    then have "pr_sig p = SigGone" "ld_pub p = PbGone" "cl_connCloses (pr_client p) = 1"
      using inv by (auto simp: loader_inv_def sig_ok_def)
    with True show ?thesis by blast
  qed (use loader_can_step [OF inv that] in blast)
  show "lf_interval F \<le> 0 \<and> ld_sent p = []" if "pr_panic p"
    using inv that by (simp add: loader_inv_def)
qed


section \<open>Concrete runs\<close>

text \<open>A loader that publishes once, from its start to its return, and one without an interval.\<close>

definition toy_flags :: "int \<Rightarrow> loader_flags" where
  "toy_flags interval = (loader_init 0)\<lparr>lf_topicID := ''t'', lf_interval := interval, lf_loadCount := 1\<rparr>"

definition toy_connection :: "bool \<Rightarrow> Client" where
  "toy_connection gone = \<lparr>verifyReceivedMessages = False, cl_closed = gone, cl_closeOnce = gone,
     cl_connCloses = of_bool gone, ackTimeout = 5 * second\<rparr>"

definition lo :: "bool \<Rightarrow> int \<Rightarrow> sig_pc \<Rightarrow> main_pc \<Rightarrow> pub_pc \<Rightarrow> bool \<Rightarrow> 64 word \<Rightarrow>
    (string \<times> string) list \<Rightarrow> loader" where
  "lo ctx wg s m b tick i sent =
     \<lparr>pr_ctx = ctx, pr_sigCh = False, pr_signalled = False,
      pr_client = toy_connection (m = MReturned), pr_wg = wg, pr_sig = s, pr_main = m, pr_panic = False,
      ld_pub = b, ld_tick = tick, ld_i = i, ld_sent = sent\<rparr>"

lemmas lo_eval = loader_step_def loader_own.simps loader_env.simps sig_step.simps lo_def process_ops
  spawn_pub_def newTicker_def on_tick_def publish_returns_def toy_flags_def loader_init_def
  toy_connection_def Client_Close_def second_def millisecond_def

lemma lo_begin: "loader_reachable (toy_flags n) (lo False 0 SigNone (MSpawn 0) PbNone False 0 [])"
proof (rule reach.reach_init)
  have "loader_start (Inr ()) (\<lambda>_ _. None) (toy_flags n) =
      Inr (lo False 0 SigNone (MSpawn 0) PbNone False 0 [])"
    by (simp add: loader_start_def command_start_def NewClient_def process_init_def process.defs lo_eval)
  then show "loader_begin (toy_flags n) (lo False 0 SigNone (MSpawn 0) PbNone False 0 [])"
    unfolding loader_begin_def by blast
qed

lemma lo_started: "loader_reachable (toy_flags n) (lo False 2 SigWait MWait PbTicker False 0 [])"
proof -
  have "loader_step (toy_flags n) (lo False 0 SigNone (MSpawn 0) PbNone False 0 [])
      (lo False 1 SigWait (MSpawn 1) PbNone False 0 [])"
    by (simp add: lo_eval)
  moreover have "loader_step (toy_flags n) (lo False 1 SigWait (MSpawn 1) PbNone False 0 [])
      (lo False 2 SigWait MWait PbTicker False 0 [])"
    by (simp add: lo_eval)
  ultimately show ?thesis using lo_begin [of n] by (metis reach.reach_step)
qed


lemma toy_Itoa: "Itoa 0 = ''0''"
  by code_simp

lemma loader_more: "loader_reachable F p \<Longrightarrow> loader_step F p q \<Longrightarrow> loader_reachable F q"
  by (rule reach.reach_step)

lemma lo_run:
  "loader_step (toy_flags 1) (lo False 2 SigWait MWait PbTicker False 0 [])
     (lo False 2 SigWait MWait PbSelect False 0 [])"
  "loader_step F (lo False 2 SigWait MWait PbSelect False i es) (lo False 2 SigWait MWait PbSelect True i es)"
  "loader_step F (lo False 2 SigWait MWait PbSelect True i es) (lo False 2 SigWait MWait PbTicked False i es)"
  "loader_step (toy_flags 1) (lo False 2 SigWait MWait PbTicked False 0 [])
     (lo False 2 SigWait MWait PbPublish False 0 [(''t'', ''0'')])"
  "loader_step F (lo False 2 SigWait MWait PbPublish False 0 es)
     (lo False 2 SigWait MWait PbSelect False 1 es)"
  "loader_step (toy_flags 1) (lo False 2 SigWait MWait PbTicked False 1 es)
     (lo True 2 SigWait MWait PbExit False 1 es)"
  "loader_step F (lo True 2 SigWait MWait PbExit False 1 es) (lo True 1 SigWait MWait PbGone False 1 es)"
  "loader_step F (lo True 1 SigWait MWait PbGone False 1 es) (lo True 1 SigExit MWait PbGone False 1 es)"
  "loader_step F (lo True 1 SigExit MWait PbGone False 1 es) (lo True 0 SigGone MWait PbGone False 1 es)"
  "loader_step F (lo True 0 SigGone MWait PbGone False 1 es) (lo True 0 SigGone MReturned PbGone False 1 es)"
  by (simp_all add: lo_eval word_sless_alt word_sle_eq toy_Itoa)

lemma lo_returned:
  "loader_reachable (toy_flags 1) (lo True 0 SigGone MReturned PbGone False 1 [(''t'', ''0'')])"
proof -
  note run = lo_started [of 1]
  note run = loader_more [OF run lo_run(1)]
  note run = loader_more [OF run lo_run(2)]
  note run = loader_more [OF run lo_run(3)]
  note run = loader_more [OF run lo_run(4)]
  note run = loader_more [OF run lo_run(5)]
  note run = loader_more [OF run lo_run(2)]
  note run = loader_more [OF run lo_run(3)]
  note run = loader_more [OF run lo_run(6)]
  note run = loader_more [OF run lo_run(7)]
  note run = loader_more [OF run lo_run(8)]
  note run = loader_more [OF run lo_run(9)]
  note run = loader_more [OF run lo_run(10)]
  show ?thesis by (rule run)
qed

lemma lo_panicked:
  "loader_reachable (toy_flags 0) ((lo False 2 SigWait MWait PbTicker False 0 [])\<lparr>pr_panic := True\<rparr>)"
proof -
  have "loader_step (toy_flags 0) (lo False 2 SigWait MWait PbTicker False 0 [])
      ((lo False 2 SigWait MWait PbTicker False 0 [])\<lparr>pr_panic := True\<rparr>)"
    by (simp add: lo_eval)
  then show ?thesis using lo_started by (blast intro: reach.reach_step)
qed

theorem loader_publishes_count_witness:
  "[(''t'', ''0'')] = List.map (\<lambda>j. (''t'', Itoa (int j))) [0..<1] \<and>
   int (length [(''t'', ''0'')]) = sint (1 :: 64 word)"
  using loader_publishes_count [OF lo_returned]
  by (simp add: lo_def toy_flags_def loader_init_def)

theorem loader_winds_down_witness:
  "cl_connCloses (toy_connection True) = 1 \<and> lf_interval (toy_flags 0) \<le> 0"
proof -
  let ?p = "lo True 0 SigGone MReturned PbGone False 1 [(''t'', ''0'')]"
  have "\<nexists>q. loader_own (toy_flags 1) ?p q" by (simp add: lo_eval)
  then have "cl_connCloses (pr_client ?p) = 1"
    using loader_winds_down(1,2) [OF lo_returned] by (simp add: lo_def)
  then show ?thesis using loader_winds_down(3) [OF lo_panicked] by (simp add: lo_def)
qed

end
