(* ===== verification/Interactive.thy ===== *)
theory Interactive
  imports Command "HOL-Library.Sublist"
begin

text \<open>
  \<open>cli/client/client.go\<close>: the interactive client. Its main goroutine, the goroutine for signals,
  the receiver and the sender, and the function that closes the standard input when the context
  ends are one step relation. What arrives over the subscription, when \<open>Subscribe\<close> and \<open>Publish\<close>
  return, what the standard input delivers and the signals are its environment.
\<close>

section \<open>Flags\<close>

record client_flags =
  cf_tlsEnabled :: bool
  cf_hostAddr :: string
  cf_topicID :: string
  cf_nickname :: string

text \<open>The defaults; \<open>r\<close> is the random number drawn when the package starts.\<close>

definition client_init :: "int \<Rightarrow> client_flags" where
  "client_init r = \<lparr>cf_tlsEnabled = False, cf_hostAddr = ''localhost:8080'',
     cf_topicID = ''life is beautiful'', cf_nickname = ''alien-'' @ Itoa r\<rparr>"

section \<open>What is printed\<close>

abbreviation NL :: char where "NL \<equiv> CHR 0x0A"

definition on_new_line :: "bool \<Rightarrow> bytes \<Rightarrow> bytes" where
  "on_new_line newline s = (if newline then bytes_of_string [CHR 0x0D, NL] @ s else s)"

text \<open>The prompt begins with a speech balloon, a message with an envelope, both of four bytes.\<close>

definition printInput :: "string \<Rightarrow> bool \<Rightarrow> bytes" where
  "printInput nickname newline =
     on_new_line newline
       ([0xF0, 0x9F, 0x92, 0xAC] @ bytes_of_string ('' <'' @ nickname @ ''> ''))"

definition hex_digit :: "nat \<Rightarrow> char" where
  "hex_digit n = (if n < 10 then char_of (48 + n) else char_of (87 + n))"

definition hex :: "bytes \<Rightarrow> string" where
  "hex bs = concat (List.map (\<lambda>b. [hex_digit (unat b div 16), hex_digit (unat b mod 16)]) bs)"

text \<open>
  \<open>key[:4]\<close> reslices up to the capacity of the slice; \<open>spare key\<close> stands for the bytes between
  its length and its capacity. The nil slice has none.
\<close>

definition printOutput ::
    "(bytes \<Rightarrow> bytes) \<Rightarrow> bool \<Rightarrow> TimestampedSignedMsgCapsule option \<Rightarrow> bytes outcome" where
  "printOutput spare newline timestamped =
     (let signed = Timestamped_GetSigned timestamped;
          msgCapsule = Signed_GetMsgCapsule signed;
          key = Signature_GetPubKey (Signed_GetSignature signed)
      in if length (key @ spare key) < 4 then Panics ''slice bounds out of range''
         else Returns (on_new_line newline
           ([0xF0, 0x9F, 0x93, 0xA9] @
            bytes_of_string ('' <'' @ hex (take 4 (key @ spare key)) @ ''> ['' @
              Itoa (sint (Timestamped_GetTimestamp timestamped)) @ ''] '') @
            MsgCapsule_GetData msgCapsule)))"

text \<open>The handler given to \<open>Subscribe\<close>: what it prints. It never returns an error.\<close>

definition receiver_handler ::
    "bytes \<Rightarrow> (bytes \<Rightarrow> bytes) \<Rightarrow> string \<Rightarrow> TimestampedSignedMsgCapsule option \<Rightarrow>
     bytes outcome" where
  "receiver_handler pubKeyBytes spare nickname timestamped =
     (let signed = Timestamped_GetSigned timestamped;
          msgCapsule = Signed_GetMsgCapsule signed;
          signature = Signed_GetSignature signed
      in if Signature_GetPubKey signature = pubKeyBytes then Returns []
         else if length (MsgCapsule_GetData msgCapsule) = 0 then Returns []
         else (case printOutput spare True timestamped of
                 Panics m \<Rightarrow> Panics m
               | Returns out \<Rightarrow> Returns (out @ printInput nickname True)))"

section \<open>Reading lines\<close>

definition TrimNewline :: "string \<Rightarrow> string" where
  "TrimNewline s = (if s \<noteq> [] \<and> last s = NL then butlast s else s)"

text \<open>
  \<open>ReadString\<close> on what is buffered: the line up to the delimiter and what is left behind it, or
  nothing if there is no delimiter yet.
\<close>

definition ReadLine :: "string \<Rightarrow> (string \<times> string) option" where
  "ReadLine buf =
     (if NL \<in> set buf
      then Some (takeWhile (\<lambda>c. c \<noteq> NL) buf @ [NL], tl (dropWhile (\<lambda>c. c \<noteq> NL) buf)) else None)"

section \<open>The goroutines\<close>

datatype recv_pc = RcNone | RcSubscribed | RcCancel | RcExit | RcGone
datatype send_pc = SnNone | SnSelect | SnRead | SnPublish | SnExit | SnGone

text \<open>
  \<open>ic_buf\<close> and \<open>ic_readErr\<close> are the buffered reader, \<open>ic_after\<close> says that the function that
  closes the standard input waits for the context. \<open>ic_sent\<close>, \<open>ic_got\<close> and \<open>ic_out\<close> record the
  calls of \<open>Publish\<close>, the capsules given to the handler and what it has printed; \<open>ic_input\<close> is
  what the standard input has delivered, without the unfinished lines that a read error has
  discarded; \<open>ic_subErr\<close> is an error of \<open>Subscribe\<close>.
\<close>

record interactive = process +
  ic_recv :: recv_pc
  ic_send :: send_pc
  ic_after :: bool
  ic_stdinClosed :: bool
  ic_buf :: string
  ic_readErr :: "goerr option"
  ic_sent :: "(string \<times> string) list"
  ic_got :: "TimestampedSignedMsgCapsule list"
  ic_out :: bytes
  ic_input :: string
  ic_subErr :: "goerr option"

definition client_start ::
    "goerr + 'k \<Rightarrow> (string \<Rightarrow> bool \<Rightarrow> goerr option) \<Rightarrow> client_flags \<Rightarrow> goerr + ('k \<times> interactive)" where
  "client_start newKey dial F =
     (case command_start newKey dial (cf_hostAddr F) (cf_tlsEnabled F) of
        Inl err \<Rightarrow> Inl err
      | Inr (privKey, c) \<Rightarrow>
          Inr (privKey, process.extend (process_init c)
            \<lparr>ic_recv = RcNone, ic_send = SnNone, ic_after = True, ic_stdinClosed = False,
             ic_buf = [], ic_readErr = None, ic_sent = [], ic_got = [], ic_out = [], ic_input = [],
             ic_subErr = None\<rparr>))"

definition spawn_recv :: "interactive \<Rightarrow> interactive" where
  "spawn_recv p = (wg_add p)\<lparr>ic_recv := RcSubscribed\<rparr>"

definition spawn_send :: "interactive \<Rightarrow> interactive" where
  "spawn_send p = (wg_add p)\<lparr>ic_send := SnSelect\<rparr>"

text \<open>\<open>context.AfterFunc\<close> and the function it returns.\<close>

definition closes_stdin :: "interactive \<Rightarrow> interactive" where
  "closes_stdin p = p\<lparr>ic_after := False, ic_stdinClosed := True\<rparr>"

definition stopInput :: "interactive \<Rightarrow> interactive" where
  "stopInput p = p\<lparr>ic_after := False\<rparr>"

text \<open>The receiver: a capsule for its handler, and the return of \<open>Subscribe\<close>.\<close>

definition receives :: "bytes \<Rightarrow> (bytes \<Rightarrow> bytes) \<Rightarrow> client_flags \<Rightarrow> TimestampedSignedMsgCapsule \<Rightarrow>
    interactive \<Rightarrow> interactive" where
  "receives pubKeyBytes spare F t p =
     (case receiver_handler pubKeyBytes spare (cf_nickname F) (Some t) of
        Panics m \<Rightarrow> p\<lparr>ic_got := ic_got p @ [t], pr_panic := True\<rparr>
      | Returns out \<Rightarrow> p\<lparr>ic_got := ic_got p @ [t], ic_out := ic_out p @ out\<rparr>)"

definition subscribe_returns :: "goerr option \<Rightarrow> interactive \<Rightarrow> interactive" where
  "subscribe_returns err p =
     (if err \<noteq> None then p\<lparr>ic_recv := RcCancel, ic_subErr := err\<rparr> else p\<lparr>ic_recv := RcExit\<rparr>)"

text \<open>
  The sender after \<open>ReadString\<close>: a line, or, when nothing more is buffered that ends in a new
  line, the pending error of the reader, which it forgets with the unfinished line.
\<close>

definition on_line :: "client_flags \<Rightarrow> string \<Rightarrow> interactive \<Rightarrow> interactive" where
  "on_line F line p =
     (let input = TrimNewline line
      in if input = [] then p\<lparr>ic_send := SnSelect\<rparr>
         else p\<lparr>ic_send := SnPublish, ic_sent := ic_sent p @ [(cf_topicID F, input)]\<rparr>)"

definition on_readErr :: "goerr \<Rightarrow> interactive \<Rightarrow> interactive" where
  "on_readErr err p =
     (if err = IoEOF then p\<lparr>ic_send := SnExit, ic_buf := [], ic_readErr := None\<rparr>
      else p\<lparr>ic_send := SnSelect, ic_buf := [], ic_readErr := None,
             ic_input := take (length (ic_input p) - length (ic_buf p)) (ic_input p)\<rparr>)"

definition reading :: "interactive \<Rightarrow> bool" where
  "reading p \<longleftrightarrow> ic_send p = SnRead \<and> ReadLine (ic_buf p) = None \<and> ic_readErr p = None"

definition stdin_read :: "string \<Rightarrow> goerr option \<Rightarrow> interactive \<Rightarrow> interactive" where
  "stdin_read chunk err p =
     p\<lparr>ic_buf := ic_buf p @ chunk, ic_readErr := err, ic_input := ic_input p @ chunk\<rparr>"

inductive client_own :: "client_flags \<Rightarrow> interactive \<Rightarrow> interactive \<Rightarrow> bool"
  for F :: client_flags where
  ic_sig: "\<not> pr_panic p \<Longrightarrow> sig_step p q \<Longrightarrow> client_own F p q"
| ic_spawn_sig: "\<not> pr_panic p \<Longrightarrow> pr_main p = MSpawn 0 \<Longrightarrow>
    client_own F p ((spawn_sig p)\<lparr>pr_main := MSpawn 1\<rparr>)"
| ic_spawn_recv: "\<not> pr_panic p \<Longrightarrow> pr_main p = MSpawn 1 \<Longrightarrow>
    client_own F p ((spawn_recv p)\<lparr>pr_main := MSpawn 2\<rparr>)"
| ic_spawn_send: "\<not> pr_panic p \<Longrightarrow> pr_main p = MSpawn 2 \<Longrightarrow>
    client_own F p ((spawn_send p)\<lparr>pr_main := MWait\<rparr>)"
| ic_waited: "\<not> pr_panic p \<Longrightarrow> pr_main p = MWait \<Longrightarrow> pr_wg p = 0 \<Longrightarrow>
    client_own F p (main_return (stopInput p))"
| ic_afterFunc: "\<not> pr_panic p \<Longrightarrow> ic_after p \<Longrightarrow> pr_ctx p \<Longrightarrow> client_own F p (closes_stdin p)"
| ic_recv_cancel: "\<not> pr_panic p \<Longrightarrow> ic_recv p = RcCancel \<Longrightarrow>
    client_own F p ((cancel_ctx p)\<lparr>ic_recv := RcExit\<rparr>)"
| ic_recv_exit: "\<not> pr_panic p \<Longrightarrow> ic_recv p = RcExit \<Longrightarrow>
    client_own F p ((wg_done p)\<lparr>ic_recv := RcGone\<rparr>)"
| ic_send_ctx: "\<not> pr_panic p \<Longrightarrow> ic_send p = SnSelect \<Longrightarrow> pr_ctx p \<Longrightarrow>
    client_own F p (p\<lparr>ic_send := SnExit\<rparr>)"
| ic_send_default: "\<not> pr_panic p \<Longrightarrow> ic_send p = SnSelect \<Longrightarrow> \<not> pr_ctx p \<Longrightarrow>
    client_own F p (p\<lparr>ic_send := SnRead\<rparr>)"
| ic_send_line: "\<not> pr_panic p \<Longrightarrow> ic_send p = SnRead \<Longrightarrow> ReadLine (ic_buf p) = Some (line, rest) \<Longrightarrow>
    client_own F p (on_line F line (p\<lparr>ic_buf := rest\<rparr>))"
| ic_send_err: "\<not> pr_panic p \<Longrightarrow> ic_send p = SnRead \<Longrightarrow> ReadLine (ic_buf p) = None \<Longrightarrow>
    ic_readErr p = Some err \<Longrightarrow> client_own F p (on_readErr err p)"
| ic_send_published: "\<not> pr_panic p \<Longrightarrow> ic_send p = SnPublish \<Longrightarrow>
    client_own F p (p\<lparr>ic_send := SnSelect\<rparr>)"
| ic_send_exit: "\<not> pr_panic p \<Longrightarrow> ic_send p = SnExit \<Longrightarrow>
    client_own F p ((wg_done p)\<lparr>ic_send := SnGone\<rparr>)"

inductive client_env :: "bytes \<Rightarrow> (bytes \<Rightarrow> bytes) \<Rightarrow> client_flags \<Rightarrow> interactive \<Rightarrow> interactive \<Rightarrow> bool"
  for pubKeyBytes :: bytes and spare :: "bytes \<Rightarrow> bytes" and F :: client_flags where
  ic_notify: "client_env pubKeyBytes spare F p (notify p)"
| ic_receives: "\<not> pr_panic p \<Longrightarrow> ic_recv p = RcSubscribed \<Longrightarrow>
    client_env pubKeyBytes spare F p (receives pubKeyBytes spare F t p)"
| ic_subscribe_returns: "\<not> pr_panic p \<Longrightarrow> ic_recv p = RcSubscribed \<Longrightarrow>
    client_env pubKeyBytes spare F p (subscribe_returns err p)"
| ic_read: "\<not> pr_panic p \<Longrightarrow> reading p \<Longrightarrow> chunk \<noteq> [] \<or> err \<noteq> None \<Longrightarrow>
    client_env pubKeyBytes spare F p (stdin_read chunk err p)"

definition client_step ::
    "bytes \<Rightarrow> (bytes \<Rightarrow> bytes) \<Rightarrow> client_flags \<Rightarrow> interactive \<Rightarrow> interactive \<Rightarrow> bool" where
  "client_step pubKeyBytes spare F p q \<longleftrightarrow> client_own F p q \<or> client_env pubKeyBytes spare F p q"

definition client_begin :: "client_flags \<Rightarrow> interactive \<Rightarrow> bool" where
  "client_begin F p \<longleftrightarrow>
     (\<exists>(newKey :: goerr + unit) dial k. client_start newKey dial F = Inr (k, p))"

abbreviation client_reachable ::
    "bytes \<Rightarrow> (bytes \<Rightarrow> bytes) \<Rightarrow> client_flags \<Rightarrow> interactive \<Rightarrow> bool" where
  "client_reachable pubKeyBytes spare F \<equiv> reach (client_begin F) (client_step pubKeyBytes spare F)"

end
