(* ===== verification/InteractiveInv.thy ===== *)
theory InteractiveInv
  imports Interactive
begin

text \<open>
  The invariant of the interactive client: who runs in which phase of the main goroutine, what has
  been sent against the lines of the input, what has been printed against what was received. One
  lemma for each step of each goroutine.
\<close>

section \<open>What is to be sent and shown\<close>

text \<open>The terminated lines of a text; the text behind the last new line is none.\<close>

fun split_lines :: "string \<Rightarrow> string \<Rightarrow> string list" where
  "split_lines line [] = []"
| "split_lines line (c # s) = (if c = NL then line # split_lines [] s else split_lines (line @ [c]) s)"

definition complete_lines :: "string \<Rightarrow> string list" where
  "complete_lines s = split_lines [] s"

definition unlines :: "string list \<Rightarrow> string" where
  "unlines ls = concat (List.map (\<lambda>l. l @ [NL]) ls)"

lemma split_lines_free: "NL \<notin> set l \<Longrightarrow> split_lines line (l @ s) = split_lines (line @ l) s"
  by (induction l arbitrary: line) auto

lemma complete_lines_free [simp]: "NL \<notin> set r \<Longrightarrow> complete_lines r = []"
  using split_lines_free [of r "[]" "[]"] by (simp add: complete_lines_def)

lemma complete_unlines:
  "\<forall>l \<in> set ls. NL \<notin> set l \<Longrightarrow> complete_lines (unlines ls @ r) = ls @ complete_lines r"
  by (induction ls) (simp_all add: complete_lines_def unlines_def split_lines_free)

lemma unlines_simps [simp]: "unlines [] = []" "unlines (ls @ [l]) = unlines ls @ l @ [NL]"
  by (simp_all add: unlines_def)

definition own_key :: "bytes \<Rightarrow> TimestampedSignedMsgCapsule \<Rightarrow> bool" where
  "own_key pubKeyBytes t \<longleftrightarrow>
     Signature_GetPubKey (Signed_GetSignature (ts_SignedMsgCapsule t)) = pubKeyBytes"

text \<open>What the handler prints at all, and where it cannot.\<close>

definition to_show :: "bytes \<Rightarrow> TimestampedSignedMsgCapsule \<Rightarrow> bool" where
  "to_show pubKeyBytes t \<longleftrightarrow>
     \<not> own_key pubKeyBytes t \<and> MsgCapsule_GetData (Signed_GetMsgCapsule (ts_SignedMsgCapsule t)) \<noteq> []"

definition short_key :: "(bytes \<Rightarrow> bytes) \<Rightarrow> TimestampedSignedMsgCapsule \<Rightarrow> bool" where
  "short_key spare t \<longleftrightarrow>
     (let key = Signature_GetPubKey (Signed_GetSignature (ts_SignedMsgCapsule t))
      in length (key @ spare key) < 4)"

definition shown :: "(bytes \<Rightarrow> bytes) \<Rightarrow> client_flags \<Rightarrow> TimestampedSignedMsgCapsule \<Rightarrow> bytes" where
  "shown spare F t =
     (case printOutput spare True (Some t) of
        Panics m \<Rightarrow> [] | Returns out \<Rightarrow> out @ printInput (cf_nickname F) True)"

lemma Timestamped_GetSigned_Some: "Timestamped_GetSigned (Some t) = ts_SignedMsgCapsule t"
  by (simp add: Timestamped_GetSigned_def)

lemma receives_cases:
  "receives pubKeyBytes spare F t p =
     (if to_show pubKeyBytes t \<and> short_key spare t then p\<lparr>ic_got := ic_got p @ [t], pr_panic := True\<rparr>
      else p\<lparr>ic_got := ic_got p @ [t],
             ic_out := ic_out p @ (if to_show pubKeyBytes t then shown spare F t else [])\<rparr>)"
  by (auto simp: receives_def receiver_handler_def to_show_def own_key_def short_key_def shown_def
      printOutput_def Timestamped_GetSigned_Some Let_def)

lemma ReadLine_Some:
  assumes "ReadLine buf = Some (line, rest)"
  shows "\<exists>l. NL \<notin> set l \<and> line = l @ [NL] \<and> buf = line @ rest \<and> TrimNewline line = l"
proof -
  let ?l = "takeWhile (\<lambda>c. c \<noteq> NL) buf"
  have "NL \<in> set buf" and l: "line = ?l @ [NL]" and r: "rest = tl (dropWhile (\<lambda>c. c \<noteq> NL) buf)"
    using assms by (auto simp: ReadLine_def split: if_splits)
  then have "dropWhile (\<lambda>c. c \<noteq> NL) buf \<noteq> []" "hd (dropWhile (\<lambda>c. c \<noteq> NL) buf) = NL"
    using hd_dropWhile [of "\<lambda>c. c \<noteq> NL" buf] by (auto simp: dropWhile_eq_Nil_conv)
  then have "buf = line @ rest"
    using takeWhile_dropWhile_id [of "\<lambda>c. c \<noteq> NL" buf] l r by (metis append.assoc append_Cons append_Nil list.collapse)
  moreover have "NL \<notin> set ?l" by (auto dest: set_takeWhileD)
  ultimately show ?thesis using l by (auto simp: TrimNewline_def)
qed

lemma ReadLine_None: "ReadLine buf = None \<longleftrightarrow> NL \<notin> set buf"
  by (simp add: ReadLine_def)

section \<open>The invariant\<close>

definition recv_live :: "interactive \<Rightarrow> bool" where
  "recv_live p \<longleftrightarrow> ic_recv p \<noteq> RcNone \<and> ic_recv p \<noteq> RcGone"

definition send_live :: "interactive \<Rightarrow> bool" where
  "send_live p \<longleftrightarrow> ic_send p \<noteq> SnNone \<and> ic_send p \<noteq> SnGone"

fun client_phase :: "main_pc \<Rightarrow> sig_pc \<Rightarrow> recv_pc \<Rightarrow> send_pc \<Rightarrow> bool" where
  "client_phase (MSpawn n) s r b \<longleftrightarrow> b = SnNone \<and>
     (n = 0 \<and> s = SigNone \<and> r = RcNone \<or> n = 1 \<and> s \<noteq> SigNone \<and> r = RcNone \<or>
      n = 2 \<and> s \<noteq> SigNone \<and> r \<noteq> RcNone)"
| "client_phase MWait s r b \<longleftrightarrow> s \<noteq> SigNone \<and> r \<noteq> RcNone \<and> b \<noteq> SnNone"
| "client_phase MReturned s r b \<longleftrightarrow> s = SigGone \<and> r = RcGone \<and> b = SnGone"

text \<open>The lines that the sender has taken and what they leave of the input.\<close>

definition lines_ok :: "client_flags \<Rightarrow> interactive \<Rightarrow> bool" where
  "lines_ok F p \<longleftrightarrow>
     (\<exists>ls r. ic_input p = unlines ls @ r \<and> (\<forall>l \<in> set ls. NL \<notin> set l) \<and>
        ic_sent p = List.map (Pair (cf_topicID F)) (filter (\<lambda>l. l \<noteq> []) ls) \<and>
        (ic_send p \<notin> {SnExit, SnGone} \<longrightarrow> r = ic_buf p) \<and>
        (ic_send p \<in> {SnExit, SnGone} \<longrightarrow> pr_ctx p \<or> NL \<notin> set r))"

definition got_ok :: "bytes \<Rightarrow> (bytes \<Rightarrow> bytes) \<Rightarrow> client_flags \<Rightarrow> interactive \<Rightarrow> bool" where
  "got_ok pubKeyBytes spare F p \<longleftrightarrow>
     pr_panic p = list_ex (\<lambda>t. to_show pubKeyBytes t \<and> short_key spare t) (ic_got p) \<and>
     ic_out p = concat (List.map (shown spare F)
       (filter (\<lambda>t. to_show pubKeyBytes t \<and> \<not> short_key spare t) (ic_got p)))"

definition client_inv :: "bytes \<Rightarrow> (bytes \<Rightarrow> bytes) \<Rightarrow> client_flags \<Rightarrow> interactive \<Rightarrow> bool" where
  "client_inv pubKeyBytes spare F p \<longleftrightarrow>
     sig_ok p \<and> client_phase (pr_main p) (pr_sig p) (ic_recv p) (ic_send p) \<and>
     pr_wg p = of_bool (sig_live p) + of_bool (recv_live p) + of_bool (send_live p) \<and>
     lines_ok F p \<and> got_ok pubKeyBytes spare F p \<and>
     (pr_ctx p \<longrightarrow> pr_signalled p \<or> ic_subErr p \<noteq> None) \<and>
     (ic_recv p = RcCancel \<longrightarrow> ic_subErr p \<noteq> None) \<and>
     (pr_main p = MReturned \<longrightarrow> cl_closed (pr_client p)) \<and>
     (ic_stdinClosed p \<longrightarrow> pr_ctx p)"


text \<open>What the shared operations leave of the fields of the client.\<close>

lemma client_fields:
  fixes p q :: interactive
  assumes "process.more q = process.more p"
  shows "ic_recv q = ic_recv p" "ic_send q = ic_send p" "ic_after q = ic_after p"
    "ic_stdinClosed q = ic_stdinClosed p" "ic_buf q = ic_buf p" "ic_readErr q = ic_readErr p"
    "ic_sent q = ic_sent p" "ic_got q = ic_got p" "ic_out q = ic_out p" "ic_input q = ic_input p"
    "ic_subErr q = ic_subErr p"
  using assms by (cases p; cases q; simp)+

lemma client_more [simp]:
  fixes p :: interactive
  shows "process.more (cancel_ctx p) = process.more p" "process.more (notify p) = process.more p"
    "process.more (wg_add p) = process.more p" "process.more (wg_done p) = process.more p"
    "process.more (spawn_sig p) = process.more p" "process.more (main_return p) = process.more p"
    "process.more (p\<lparr>pr_main := m\<rparr>) = process.more p"
  by (simp_all add: process_ops)

lemma lines_okI:
  assumes "lines_ok F p" "ic_input q = ic_input p" "ic_sent q = ic_sent p" "ic_buf q = ic_buf p"
    "ic_send q = ic_send p" "pr_ctx p \<longrightarrow> pr_ctx q"
  shows "lines_ok F q"
  using assms unfolding lines_ok_def by auto

lemma got_okI:
  assumes "got_ok pubKeyBytes spare F p" "ic_got q = ic_got p" "ic_out q = ic_out p" "pr_panic q = pr_panic p"
  shows "got_ok pubKeyBytes spare F q"
  using assms by (simp add: got_ok_def)

lemma client_inv_init:
  assumes "client_begin F p"
  shows "client_inv pubKeyBytes spare F p"
proof -
  obtain newKey :: "goerr + unit" and dial k' where "client_start newKey dial F = Inr (k', p)"
    using assms by (auto simp: client_begin_def)
  then obtain k c where "command_start newKey dial (cf_hostAddr F) (cf_tlsEnabled F) = Inr (k, c)"
    and p: "p = process.extend (process_init c)
            \<lparr>ic_recv = RcNone, ic_send = SnNone, ic_after = True, ic_stdinClosed = False,
             ic_buf = [], ic_readErr = None, ic_sent = [], ic_got = [], ic_out = [], ic_input = [],
             ic_subErr = None\<rparr>"
    by (cases "command_start newKey dial (cf_hostAddr F) (cf_tlsEnabled F)")
      (auto simp: client_start_def)
  then have c: "\<not> cl_closed c" "\<not> cl_closeOnce c" "cl_connCloses c = 0"
    by (auto dest: command_start_client)
  have "lines_ok F p"
    unfolding lines_ok_def by (rule exI [of _ "[]"]) (simp add: p process_init_def process.defs)
  with c show ?thesis
    by (simp add: p client_inv_def sig_ok_def process_init_def process.defs got_ok_def
        sig_live_def recv_live_def send_live_def)
qed

text \<open>A step of a running goroutine keeps the invariant if it keeps these parts of it.\<close>

lemma client_inv_thread:
  assumes inv: "client_inv pubKeyBytes spare F p"
    and same: "pr_sig q = pr_sig p" "pr_main q = pr_main p" "pr_client q = pr_client p"
      "pr_sigCh q = pr_sigCh p" "pr_signalled q = pr_signalled p" "pr_ctx p \<longrightarrow> pr_ctx q"
    and recv: "ic_recv q = ic_recv p \<or> ic_recv p \<noteq> RcNone \<and> ic_recv p \<noteq> RcGone \<and> ic_recv q \<noteq> RcNone"
    and send: "ic_send q = ic_send p \<or> ic_send p \<noteq> SnNone \<and> ic_send p \<noteq> SnGone \<and> ic_send q \<noteq> SnNone"
    and wg: "pr_wg q = pr_wg p - of_bool (recv_live p \<and> \<not> recv_live q) - of_bool (send_live p \<and> \<not> send_live q)"
    and rest: "lines_ok F q" "got_ok pubKeyBytes spare F q"
      "pr_ctx q \<longrightarrow> pr_ctx p \<or> ic_subErr q \<noteq> None" "ic_recv q = RcCancel \<longrightarrow> ic_subErr q \<noteq> None"
      "ic_subErr p \<noteq> None \<longrightarrow> ic_subErr q \<noteq> None" "ic_stdinClosed q \<longrightarrow> pr_ctx q"
  shows "client_inv pubKeyBytes spare F q"
proof -
  have "sig_ok q" using inv same by (auto simp: client_inv_def sig_ok_def)
  moreover have "sig_live q = sig_live p" using same by (simp add: sig_live_def)
  moreover have ph: "client_phase (pr_main p) (pr_sig p) (ic_recv p) (ic_send p)"
    using inv unfolding client_inv_def by blast
  moreover have "client_phase (pr_main p) (pr_sig p) (ic_recv q) (ic_send q)"
    using ph recv send by (cases "pr_main p") (simp_all, metis+)
  moreover have wgp: "pr_wg p = of_bool (sig_live p) + of_bool (recv_live p) + of_bool (send_live p)"
    using inv unfolding client_inv_def by blast
  moreover have "pr_wg q = of_bool (sig_live q) + of_bool (recv_live q) + of_bool (send_live q)"
  proof -
    have "recv_live q \<longrightarrow> recv_live p" "send_live q \<longrightarrow> send_live p"
      using recv send by (auto simp: recv_live_def send_live_def)
    then show ?thesis using wg wgp calculation(2) by (auto simp: of_bool_def)
  qed
  moreover have "pr_ctx q \<longrightarrow> pr_signalled q \<or> ic_subErr q \<noteq> None"
    using inv same rest unfolding client_inv_def by metis
  moreover have "pr_main q = MReturned \<longrightarrow> cl_closed (pr_client q)"
    using inv same by (simp add: client_inv_def)
  ultimately show ?thesis using rest same(1,2) unfolding client_inv_def by metis
qed


lemma client_phase_sig:
  "client_phase m s r b \<Longrightarrow> s \<noteq> SigNone \<Longrightarrow> s \<noteq> SigGone \<Longrightarrow> s' \<noteq> SigNone \<Longrightarrow> client_phase m s' r b"
  by (cases m) auto

lemma client_inv_sig:
  assumes "sig_step p q" and inv: "client_inv pubKeyBytes spare F p"
  shows "client_inv pubKeyBytes spare F q"
proof -
  note f = sig_step_frame [OF assms(1)]
  note g = client_fields [OF f(1)]
  have ok: "sig_ok p" "client_phase (pr_main p) (pr_sig p) (ic_recv p) (ic_send p)"
    "lines_ok F p" "got_ok pubKeyBytes spare F p"
    "pr_wg p = of_bool (sig_live p) + of_bool (recv_live p) + of_bool (send_live p)"
    using inv unfolding client_inv_def by blast+
  have wg: "0 < pr_wg p" using ok(5) f(5) by simp
  have "sig_ok q" using sig_step_ok [OF assms(1) ok(1)] .
  moreover have "client_phase (pr_main q) (pr_sig q) (ic_recv q) (ic_send q)"
    unfolding f(2) g
    by (rule client_phase_sig [OF ok(2)]) (use f(5,8) in \<open>auto simp: sig_live_def\<close>)
  moreover have "pr_wg q = of_bool (sig_live q) + of_bool (recv_live q) + of_bool (send_live q)"
    using f(5) f(7) [OF wg] ok(5) by (auto simp: recv_live_def send_live_def g)
  moreover have "lines_ok F q" by (rule lines_okI [OF ok(3)]) (use f(4) in \<open>auto simp: g\<close>)
  moreover have "got_ok pubKeyBytes spare F q" by (rule got_okI [OF ok(4)]) (simp_all add: g f(6) wg)
  moreover have "pr_ctx q \<longrightarrow> pr_signalled q \<or> ic_subErr q \<noteq> None"
    using sig_step_ctx [OF assms(1) ok(1)] inv f(3) unfolding client_inv_def g by metis
  moreover have "(ic_recv q = RcCancel \<longrightarrow> ic_subErr q \<noteq> None) \<and>
      (pr_main q = MReturned \<longrightarrow> cl_closed (pr_client q)) \<and> (ic_stdinClosed q \<longrightarrow> pr_ctx q)"
    using inv f(2,4,9) unfolding client_inv_def g by metis
  ultimately show ?thesis unfolding client_inv_def by blast
qed

lemma lines_take:
  assumes ok: "lines_ok F p" and read: "ic_send p = SnRead" "ReadLine (ic_buf p) = Some (line, rest)"
  shows "lines_ok F (on_line F line (p\<lparr>ic_buf := rest\<rparr>))"
proof -
  obtain ls where ls: "ic_input p = unlines ls @ ic_buf p" "\<forall>l \<in> set ls. NL \<notin> set l"
    "ic_sent p = List.map (Pair (cf_topicID F)) (filter (\<lambda>l. l \<noteq> []) ls)"
    using ok read(1) by (auto simp: lines_ok_def)
  obtain l where l: "NL \<notin> set l" "line = l @ [NL]" "ic_buf p = line @ rest" "TrimNewline line = l"
    using ReadLine_Some [OF read(2)] by blast
  show ?thesis
    unfolding lines_ok_def
    by (rule exI [of _ "ls @ [l]"]) (use ls l in \<open>auto simp: on_line_def Let_def\<close>)
qed

lemma lines_err:
  assumes ok: "lines_ok F p" and read: "ic_send p = SnRead" "ReadLine (ic_buf p) = None"
  shows "lines_ok F (on_readErr err p)"
proof -
  obtain ls where ls: "ic_input p = unlines ls @ ic_buf p" "\<forall>l \<in> set ls. NL \<notin> set l"
    "ic_sent p = List.map (Pair (cf_topicID F)) (filter (\<lambda>l. l \<noteq> []) ls)"
    using ok read(1) by (auto simp: lines_ok_def)
  show ?thesis
    unfolding lines_ok_def
    by (rule exI [of _ ls]) (use ls read in \<open>auto simp: on_readErr_def ReadLine_None\<close>)
qed

lemma lines_move:
  assumes "lines_ok F p" "ic_send p \<notin> {SnExit, SnGone}" "ic_send q \<in> {SnExit, SnGone} \<longrightarrow> pr_ctx q"
    "ic_input q = ic_input p" "ic_sent q = ic_sent p" "ic_buf q = ic_buf p"
  shows "lines_ok F q"
  using assms unfolding lines_ok_def by auto

lemma client_own_frames [simp]:
  fixes p :: interactive
  shows "ic_input (wg_done p) = ic_input p" "ic_sent (wg_done p) = ic_sent p"
    "ic_buf (wg_done p) = ic_buf p" "ic_send (wg_done p) = ic_send p" "pr_ctx (wg_done p) = pr_ctx p"
    "ic_got (wg_done p) = ic_got p" "ic_out (wg_done p) = ic_out p"
    "ic_recv (wg_done p) = ic_recv p" "ic_subErr (wg_done p) = ic_subErr p"
    "ic_stdinClosed (wg_done p) = ic_stdinClosed p"
  by (simp_all add: wg_done_def)

lemma wg_pos:
  assumes "client_inv pubKeyBytes spare F p" "recv_live p \<or> send_live p"
  shows "0 < pr_wg p"
proof -
  have "pr_wg p = of_bool (sig_live p) + of_bool (recv_live p) + of_bool (send_live p)"
    using assms(1) unfolding client_inv_def by blast
  with assms(2) show ?thesis by (auto simp: of_bool_def)
qed

lemma client_invD:
  assumes "client_inv pubKeyBytes spare F p"
  shows "sig_ok p" "client_phase (pr_main p) (pr_sig p) (ic_recv p) (ic_send p)"
    "pr_wg p = of_bool (sig_live p) + of_bool (recv_live p) + of_bool (send_live p)"
    "lines_ok F p" "got_ok pubKeyBytes spare F p"
    "pr_ctx p \<Longrightarrow> pr_signalled p \<or> ic_subErr p \<noteq> None"
    "ic_recv p = RcCancel \<Longrightarrow> ic_subErr p \<noteq> None"
    "pr_main p = MReturned \<Longrightarrow> cl_closed (pr_client p)" "ic_stdinClosed p \<Longrightarrow> pr_ctx p"
  using assms unfolding client_inv_def by blast+


text \<open>The goroutines of the client, and then its environment.\<close>

lemma client_inv_main:
  assumes inv: "client_inv pubKeyBytes spare F p"
    and same: "pr_client q = pr_client p" "pr_sigCh q = pr_sigCh p" "pr_signalled q = pr_signalled p"
      "pr_ctx q = pr_ctx p" "ic_stdinClosed q = ic_stdinClosed p" "ic_subErr q = ic_subErr p"
      "lines_ok F q" "got_ok pubKeyBytes spare F q" "pr_main q \<noteq> MReturned"
      "ic_recv q \<noteq> RcCancel \<or> ic_recv p = RcCancel"
    and phase: "client_phase (pr_main q) (pr_sig q) (ic_recv q) (ic_send q)"
    and sig: "pr_sig q = pr_sig p \<or> pr_sig q = SigWait"
    and wg: "pr_wg q = of_bool (sig_live q) + of_bool (recv_live q) + of_bool (send_live q)"
  shows "client_inv pubKeyBytes spare F q"
proof -
  have "sig_ok q"
    using client_invD(1) [OF inv] sig unfolding sig_ok_def same(1-4) by (elim disjE) simp_all
  then show ?thesis
    using client_invD(6,7,9) [OF inv] same(7-10) phase wg unfolding client_inv_def same(1-6) by blast
qed

lemma client_inv_spawn_sig:
  assumes inv: "client_inv pubKeyBytes spare F p"
    and ic_spawn_sig: "q = (spawn_sig p)\<lparr>pr_main := MSpawn 1\<rparr>" "pr_main p = MSpawn 0"
  shows "client_inv pubKeyBytes spare F q"
proof -
  have "lines_ok F q" "got_ok pubKeyBytes spare F q"
    using lines_okI [OF client_invD(4) [OF inv], of q] got_okI [OF client_invD(5) [OF inv], of q]
      ic_spawn_sig by (simp_all add: process_ops)
  then show ?thesis
    by (intro client_inv_main [OF inv])
      (use ic_spawn_sig client_invD(2,3) [OF inv] in
        \<open>auto simp: process_ops sig_live_def recv_live_def send_live_def\<close>)
qed

lemma client_inv_spawn_recv:
  assumes inv: "client_inv pubKeyBytes spare F p"
    and ic_spawn_recv: "q = (spawn_recv p)\<lparr>pr_main := MSpawn 2\<rparr>" "pr_main p = MSpawn 1"
  shows "client_inv pubKeyBytes spare F q"
proof -
  have "lines_ok F q" "got_ok pubKeyBytes spare F q"
    using lines_okI [OF client_invD(4) [OF inv], of q] got_okI [OF client_invD(5) [OF inv], of q]
      ic_spawn_recv by (simp_all add: process_ops spawn_recv_def)
  then show ?thesis
    by (intro client_inv_main [OF inv])
      (use ic_spawn_recv client_invD(2,3) [OF inv] in
        \<open>auto simp: process_ops spawn_recv_def sig_live_def recv_live_def send_live_def\<close>)
qed

lemma client_inv_spawn_send:
  assumes inv: "client_inv pubKeyBytes spare F p"
    and ic_spawn_send: "q = (spawn_send p)\<lparr>pr_main := MWait\<rparr>" "pr_main p = MSpawn 2"
  shows "client_inv pubKeyBytes spare F q"
proof -
  have "lines_ok F q" "got_ok pubKeyBytes spare F q"
    using lines_move [OF client_invD(4) [OF inv], of q] got_okI [OF client_invD(5) [OF inv], of q]
      ic_spawn_send client_invD(2) [OF inv] by (simp_all add: process_ops spawn_send_def)
  then show ?thesis
    by (intro client_inv_main [OF inv])
      (use ic_spawn_send client_invD(2,3) [OF inv] in
        \<open>auto simp: process_ops spawn_send_def sig_live_def recv_live_def send_live_def\<close>)
qed

lemma client_inv_waited:
  assumes inv: "client_inv pubKeyBytes spare F p"
    and ic_waited: "q = main_return (stopInput p)" "pr_main p = MWait" "pr_wg p = 0"
  shows "client_inv pubKeyBytes spare F q"
proof -
  from ic_waited have w: "\<not> sig_live p" "\<not> recv_live p" "\<not> send_live p" "client_phase MWait (pr_sig p) (ic_recv p) (ic_send p)"
    using client_invD(2,3) [OF inv] by (auto simp: of_bool_def split: if_splits)
  then have pc: "pr_sig p = SigGone" "ic_recv p = RcGone" "ic_send p = SnGone"
    by (auto simp: sig_live_def recv_live_def send_live_def)
  have stop: "sig_ok (stopInput p)" using client_invD(1) [OF inv] by (simp add: sig_ok_def stopInput_def)
  then have ctx: "pr_ctx p" using pc by (simp add: sig_ok_def stopInput_def)
  have "lines_ok F q" "got_ok pubKeyBytes spare F q"
    using lines_okI [OF client_invD(4) [OF inv], of q] got_okI [OF client_invD(5) [OF inv], of q]
      ic_waited by (simp_all add: process_ops stopInput_def)
  moreover have "cl_closed (pr_client q)" "pr_ctx q" "pr_signalled q = pr_signalled p"
    "ic_subErr q = ic_subErr p" "pr_sig q = SigGone" "ic_recv q = RcGone" "ic_send q = SnGone" "pr_wg q = 0"
    "pr_main q = MReturned"
    using ic_waited pc client_invD(1) [OF inv]
    by (simp_all add: process_ops stopInput_def Client_Close_def sig_ok_def)
  moreover have "sig_ok q" using sig_ok_ops(7) [OF stop] ic_waited by simp
  ultimately show ?thesis
    using client_invD(6) [OF inv ctx] unfolding client_inv_def sig_live_def recv_live_def send_live_def by simp
qed

lemma client_inv_afterFunc:
  assumes inv: "client_inv pubKeyBytes spare F p"
    and ic_afterFunc: "q = closes_stdin p" "ic_after p" "pr_ctx p"
  shows "client_inv pubKeyBytes spare F q"
proof -
  have "lines_ok F q" "got_ok pubKeyBytes spare F q"
    using lines_okI [OF client_invD(4) [OF inv], of q] got_okI [OF client_invD(5) [OF inv], of q]
      ic_afterFunc by (simp_all add: closes_stdin_def)
  then show ?thesis
    by (intro client_inv_thread [OF inv])
      (use ic_afterFunc client_invD(7) [OF inv] in \<open>auto simp: closes_stdin_def recv_live_def send_live_def\<close>)
qed

lemma client_inv_recv_cancel:
  assumes inv: "client_inv pubKeyBytes spare F p"
    and ic_recv_cancel: "q = (cancel_ctx p)\<lparr>ic_recv := RcExit\<rparr>" "ic_recv p = RcCancel"
  shows "client_inv pubKeyBytes spare F q"
proof -
  have "lines_ok F q" "got_ok pubKeyBytes spare F q"
    using lines_okI [OF client_invD(4) [OF inv], of q] got_okI [OF client_invD(5) [OF inv], of q]
      ic_recv_cancel by (simp_all add: cancel_ctx_def)
  then show ?thesis
    by (intro client_inv_thread [OF inv])
      (use ic_recv_cancel client_invD(7) [OF inv] in
        \<open>auto simp: cancel_ctx_def recv_live_def send_live_def\<close>)
qed

lemma client_inv_recv_exit:
  assumes inv: "client_inv pubKeyBytes spare F p"
    and ic_recv_exit: "q = (wg_done p)\<lparr>ic_recv := RcGone\<rparr>" "ic_recv p = RcExit"
  shows "client_inv pubKeyBytes spare F q"
proof -
  from ic_recv_exit have pos: "0 < pr_wg p" using wg_pos [OF inv] by (simp add: recv_live_def)
  have "lines_ok F q" "got_ok pubKeyBytes spare F q"
    using lines_okI [OF client_invD(4) [OF inv], of q] got_okI [OF client_invD(5) [OF inv], of q]
      ic_recv_exit pos by (simp_all add: wg_done_def)
  then show ?thesis
    by (intro client_inv_thread [OF inv])
      (use ic_recv_exit pos client_invD(9) [OF inv] in
        \<open>auto simp: wg_done_def recv_live_def send_live_def\<close>)
qed

lemma client_inv_send_ctx:
  assumes inv: "client_inv pubKeyBytes spare F p"
    and ic_send_ctx: "q = p\<lparr>ic_send := SnExit\<rparr>" "ic_send p = SnSelect" "pr_ctx p"
  shows "client_inv pubKeyBytes spare F q"
proof -
  have "lines_ok F q" "got_ok pubKeyBytes spare F q"
    using lines_move [OF client_invD(4) [OF inv], of q] got_okI [OF client_invD(5) [OF inv], of q]
      ic_send_ctx by simp_all
  then show ?thesis
    by (intro client_inv_thread [OF inv])
      (use ic_send_ctx client_invD(7) [OF inv] in \<open>auto simp: recv_live_def send_live_def\<close>)
qed

lemma client_inv_send_default:
  assumes inv: "client_inv pubKeyBytes spare F p"
    and ic_send_default: "q = p\<lparr>ic_send := SnRead\<rparr>" "ic_send p = SnSelect" "\<not> pr_ctx p"
  shows "client_inv pubKeyBytes spare F q"
proof -
  have "lines_ok F q" "got_ok pubKeyBytes spare F q"
    using lines_move [OF client_invD(4) [OF inv], of q] got_okI [OF client_invD(5) [OF inv], of q]
      ic_send_default by simp_all
  then show ?thesis
    by (intro client_inv_thread [OF inv])
      (use ic_send_default client_invD(7,9) [OF inv] in \<open>auto simp: recv_live_def send_live_def\<close>)
qed

lemma client_inv_send_line:
  assumes inv: "client_inv pubKeyBytes spare F p"
    and ic_send_line: "q = on_line F line (p\<lparr>ic_buf := rest\<rparr>)" "ic_send p = SnRead" "ReadLine (ic_buf p) = Some (line, rest)"
  shows "client_inv pubKeyBytes spare F q"
proof -
  have "lines_ok F q" using lines_take [OF client_invD(4) [OF inv]] ic_send_line by simp
  moreover have "got_ok pubKeyBytes spare F q"
    using got_okI [OF client_invD(5) [OF inv], of q] ic_send_line by (simp add: on_line_def Let_def)
  ultimately show ?thesis
    by (intro client_inv_thread [OF inv])
      (use ic_send_line client_invD(7,9) [OF inv] in
        \<open>auto simp: on_line_def Let_def recv_live_def send_live_def\<close>)
qed

lemma client_inv_send_err:
  assumes inv: "client_inv pubKeyBytes spare F p"
    and ic_send_err: "q = on_readErr err p" "ic_send p = SnRead" "ReadLine (ic_buf p) = None" "ic_readErr p = Some err"
  shows "client_inv pubKeyBytes spare F q"
proof -
  have "lines_ok F q" using lines_err [OF client_invD(4) [OF inv]] ic_send_err by simp
  moreover have "got_ok pubKeyBytes spare F q"
    using got_okI [OF client_invD(5) [OF inv], of q] ic_send_err by (simp add: on_readErr_def)
  ultimately show ?thesis
    by (intro client_inv_thread [OF inv])
      (use ic_send_err client_invD(7,9) [OF inv] in
        \<open>auto simp: on_readErr_def recv_live_def send_live_def\<close>)
qed

lemma client_inv_send_published:
  assumes inv: "client_inv pubKeyBytes spare F p"
    and ic_send_published: "q = p\<lparr>ic_send := SnSelect\<rparr>" "ic_send p = SnPublish"
  shows "client_inv pubKeyBytes spare F q"
proof -
  have "lines_ok F q" "got_ok pubKeyBytes spare F q"
    using lines_move [OF client_invD(4) [OF inv], of q] got_okI [OF client_invD(5) [OF inv], of q]
      ic_send_published by simp_all
  then show ?thesis
    by (intro client_inv_thread [OF inv])
      (use ic_send_published client_invD(7,9) [OF inv] in \<open>auto simp: recv_live_def send_live_def\<close>)
qed

lemma client_inv_send_exit:
  assumes inv: "client_inv pubKeyBytes spare F p"
    and ic_send_exit: "q = (wg_done p)\<lparr>ic_send := SnGone\<rparr>" "ic_send p = SnExit"
  shows "client_inv pubKeyBytes spare F q"
proof -
  from ic_send_exit have pos: "0 < pr_wg p" using wg_pos [OF inv] by (simp add: send_live_def)
  have "lines_ok F q"
    using client_invD(4) [OF inv] ic_send_exit pos unfolding lines_ok_def by (simp add: wg_done_def)
  moreover have "got_ok pubKeyBytes spare F q"
    using got_okI [OF client_invD(5) [OF inv], of q] ic_send_exit pos by (simp add: wg_done_def)
  ultimately show ?thesis
    by (intro client_inv_thread [OF inv])
      (use ic_send_exit pos client_invD(7,9) [OF inv] in
        \<open>auto simp: wg_done_def recv_live_def send_live_def\<close>)
qed

lemmas client_inv_goroutines = client_inv_spawn_sig client_inv_spawn_recv client_inv_spawn_send client_inv_waited
  client_inv_afterFunc client_inv_recv_cancel client_inv_recv_exit client_inv_send_ctx
  client_inv_send_default client_inv_send_line client_inv_send_err client_inv_send_published
  client_inv_send_exit

lemma client_inv_own:
  assumes "client_own F p q" and inv: "client_inv pubKeyBytes spare F p"
  shows "client_inv pubKeyBytes spare F q"
  using assms(1)
proof (cases rule: client_own.cases)
  case ic_sig
  then show ?thesis using client_inv_sig inv by blast
qed (rule client_inv_goroutines [OF inv]; assumption)+

lemma client_inv_env:
  assumes "client_env pubKeyBytes spare F p q" and inv: "client_inv pubKeyBytes spare F p"
  shows "client_inv pubKeyBytes spare F q"
  using assms(1)
proof (cases rule: client_env.cases)
  case ic_notify
  have "lines_ok F q" "got_ok pubKeyBytes spare F q"
    using lines_okI [OF client_invD(4) [OF inv], of q] got_okI [OF client_invD(5) [OF inv], of q]
      ic_notify by (simp_all add: notify_def)
  moreover have "sig_ok q" using ic_notify client_invD(1) [OF inv] by simp
  moreover have "sig_live q = sig_live p" "recv_live q = recv_live p" "send_live q = send_live p"
    using ic_notify by (simp_all add: notify_def sig_live_def recv_live_def send_live_def)
  ultimately show ?thesis
    using ic_notify client_invD(2,3,7,8,9) [OF inv] by (simp add: client_inv_def notify_def)
next
  case (ic_receives t)
  have "lines_ok F q"
    using lines_okI [OF client_invD(4) [OF inv], of q] ic_receives by (simp add: receives_cases)
  moreover have "got_ok pubKeyBytes spare F q"
    using client_invD(5) [OF inv] ic_receives by (auto simp: receives_cases got_ok_def)
  ultimately show ?thesis
    by (intro client_inv_thread [OF inv])
      (use ic_receives client_invD(9) [OF inv] in
        \<open>auto simp: receives_cases recv_live_def send_live_def\<close>)
next
  case (ic_subscribe_returns err)
  have "lines_ok F q" "got_ok pubKeyBytes spare F q"
    using lines_okI [OF client_invD(4) [OF inv], of q] got_okI [OF client_invD(5) [OF inv], of q]
      ic_subscribe_returns by (simp_all add: subscribe_returns_def)
  then show ?thesis
    by (intro client_inv_thread [OF inv])
      (use ic_subscribe_returns client_invD(9) [OF inv] in
        \<open>auto simp: subscribe_returns_def recv_live_def send_live_def\<close>)
next
  case (ic_read chunk err)
  have "lines_ok F q"
    using client_invD(4) [OF inv] ic_read by (auto simp: lines_ok_def stdin_read_def reading_def)
  moreover have "got_ok pubKeyBytes spare F q"
    using got_okI [OF client_invD(5) [OF inv], of q] ic_read by (simp add: stdin_read_def)
  ultimately show ?thesis
    by (intro client_inv_thread [OF inv])
      (use ic_read client_invD(7,9) [OF inv] in
        \<open>auto simp: stdin_read_def recv_live_def send_live_def\<close>)
qed

interpretation client_process: machine "client_begin F" "client_step pubKeyBytes spare F"
  "client_inv pubKeyBytes spare F"
  by unfold_locales
    (auto simp: client_step_def intro: client_inv_init client_inv_own client_inv_env)

end
