(* ===== verification/InteractiveSafety.thy ===== *)
theory InteractiveSafety
  imports InteractiveInv
begin

text \<open>
  The properties of the interactive client: what it sends, what it shows and when it panics, and
  how it ends. The runs at the end are where they are applied.
\<close>

section \<open>Properties\<close>

text \<open>
  C37. The sender publishes exactly the non-empty lines that the user has finished, in order and
  each to the topic of the command: what has been published is a prefix of them, and all of
  them once the sender waits for more input or has left at its end. An unfinished last line is
  not published.
\<close>

theorem client_sends_lines:
  assumes "client_reachable pubKeyBytes spare F p"
  shows "let expected = List.map (Pair (cf_topicID F)) (filter (\<lambda>l. l \<noteq> []) (complete_lines (ic_input p)))
    in prefix (ic_sent p) expected \<and>
      (reading p \<or> ic_send p \<in> {SnExit, SnGone} \<and> \<not> pr_ctx p \<longrightarrow> ic_sent p = expected)"
proof -
  have "lines_ok F p" using client_invD(4) [OF client_process.reach_inv [OF assms]] .
  then obtain ls r where ls: "ic_input p = unlines ls @ r" "\<forall>l \<in> set ls. NL \<notin> set l"
      "ic_sent p = List.map (Pair (cf_topicID F)) (filter (\<lambda>l. l \<noteq> []) ls)"
      "ic_send p \<notin> {SnExit, SnGone} \<longrightarrow> r = ic_buf p"
      "ic_send p \<in> {SnExit, SnGone} \<longrightarrow> pr_ctx p \<or> NL \<notin> set r"
    unfolding lines_ok_def by blast
  have lines: "complete_lines (ic_input p) = ls @ complete_lines r"
    using complete_unlines ls(1,2) by simp
  moreover have "NL \<notin> set r" if "reading p \<or> ic_send p \<in> {SnExit, SnGone} \<and> \<not> pr_ctx p"
    using that ls(4,5) by (auto simp: reading_def ReadLine_None)
  ultimately show ?thesis using ls(3) by (auto simp: Let_def)
qed

text \<open>
  C38. What the receiver prints, and when it panics: of the capsules that arrive, those with the
  key of the command itself and those without data are left out, the others are printed in
  order, each followed by a prompt. The command panics exactly when one that is to be printed
  has a key whose slice has room for less than four bytes (its bytes and the spare ones up to its
  capacity), as the nil key of a capsule without a signature has; a shorter key in a slice with
  room for four is printed with what lies behind it.
\<close>

theorem client_shows_foreign:
  assumes "client_reachable pubKeyBytes spare F p"
  shows "pr_panic p = list_ex (\<lambda>t. to_show pubKeyBytes t \<and> short_key spare t) (ic_got p) \<and>
    ic_out p = concat (List.map (shown spare F)
      (filter (\<lambda>t. to_show pubKeyBytes t \<and> \<not> short_key spare t) (ic_got p)))"
  using client_invD(5) [OF client_process.reach_inv [OF assms]] by (simp add: got_ok_def)

text \<open>
  What is left to do for the goroutines; what is buffered of the input, and its pending error,
  allow one more round of the sender each.
\<close>

definition client_left :: "interactive \<Rightarrow> nat" where
  "client_left p =
     sig_left p + (case pr_main p of MSpawn n \<Rightarrow> 5 - n | MWait \<Rightarrow> 1 | MReturned \<Rightarrow> 0) +
     (case ic_recv p of RcNone \<Rightarrow> 4 | RcSubscribed \<Rightarrow> 3 | RcCancel \<Rightarrow> 2 | RcExit \<Rightarrow> 1 | RcGone \<Rightarrow> 0) +
     (case ic_send p of SnNone \<Rightarrow> 4 | SnSelect \<Rightarrow> 3 | SnRead \<Rightarrow> 2 | SnPublish \<Rightarrow> 4 | SnExit \<Rightarrow> 1
        | SnGone \<Rightarrow> 0) +
     4 * length (ic_buf p) + 4 * of_bool (ic_readErr p \<noteq> None) + of_bool (ic_after p)"

lemma client_left_less:
  assumes "client_own F p q" and inv: "client_inv pubKeyBytes spare F p"
  shows "client_left q < client_left p"
  using assms(1)
proof (cases rule: client_own.cases)
  case ic_sig
  note g = client_fields [OF sig_step_frame(1) [OF ic_sig(2)]]
  show ?thesis using sig_step_left [OF ic_sig(2)]
    by (simp add: client_left_def g sig_step_frame(2) [OF ic_sig(2)])
next
  case ic_spawn_sig
  then show ?thesis using client_invD(2) [OF inv] by (simp add: client_left_def sig_left_def process_ops)
next
  case ic_spawn_recv
  then show ?thesis using client_invD(2) [OF inv]
    by (auto simp: client_left_def sig_left_def process_ops spawn_recv_def split: sig_pc.splits)
next
  case ic_spawn_send
  then show ?thesis using client_invD(2) [OF inv]
    by (auto simp: client_left_def sig_left_def process_ops spawn_send_def split: sig_pc.splits recv_pc.splits)
next
  case ic_waited
  then show ?thesis by (simp add: client_left_def sig_left_def process_ops stopInput_def)
next
  case ic_recv_exit
  then have "0 < pr_wg p" using wg_pos [OF inv] by (simp add: recv_live_def)
  with ic_recv_exit show ?thesis by (simp add: client_left_def sig_left_def wg_done_def)
next
  case ic_send_exit
  then have "0 < pr_wg p" using wg_pos [OF inv] by (simp add: send_live_def)
  with ic_send_exit show ?thesis by (simp add: client_left_def sig_left_def wg_done_def)
next
  case (ic_send_line line rest)
  then have "length rest < length (ic_buf p)" using ReadLine_Some [of "ic_buf p" line rest] by auto
  with ic_send_line show ?thesis
    by (simp add: client_left_def sig_left_def on_line_def Let_def)
next
  case (ic_send_err err)
  then show ?thesis by (simp add: client_left_def sig_left_def on_readErr_def)
qed (simp_all add: client_left_def sig_left_def closes_stdin_def cancel_ctx_def)

lemma client_can_step:
  assumes inv: "client_inv pubKeyBytes spare F p" and "pr_ctx p" "\<not> pr_panic p" "pr_main p \<noteq> MReturned"
    and "ic_recv p \<noteq> RcSubscribed" "\<not> reading p"
  shows "\<exists>q. client_own F p q"
proof (cases "sig_live p \<or> send_live p \<or> recv_live p")
  case True
  then consider "sig_live p" | "send_live p" | "recv_live p" by blast
  then show ?thesis
  proof cases
    case 1
    then show ?thesis using sig_can_step [of p] assms(2,3) by (blast intro: client_own.ic_sig)
  next
    case 2
    then show ?thesis
    proof (cases "ic_send p")
      case SnRead
      show ?thesis
      proof (cases "ReadLine (ic_buf p)")
        case None
        then obtain err where "ic_readErr p = Some err" using SnRead assms(6) by (auto simp: reading_def)
        with None SnRead assms(3) show ?thesis by (blast intro: client_own.ic_send_err)
      next
        case (Some lr)
        with SnRead assms(3) show ?thesis by (cases lr) (blast intro: client_own.ic_send_line)
      qed
    qed (use assms(2,3) in \<open>auto simp: send_live_def intro: client_own.intros\<close>)
  next
    case 3
    then show ?thesis using assms(3,5)
      by (cases "ic_recv p") (auto simp: recv_live_def intro: client_own.intros)
  qed
next
  case False
  then have pr: "pr_wg p = 0" using client_invD(3) [OF inv] by simp
  show ?thesis
  proof (cases "pr_main p")
    case (MSpawn n)
    then have "n \<in> {0, 1, 2}" using client_invD(2) [OF inv] by auto
    with MSpawn assms(3) show ?thesis
      by (auto simp only: insert_iff empty_iff
          intro: client_own.ic_spawn_sig client_own.ic_spawn_recv client_own.ic_spawn_send)
  next
    case MWait
    with pr assms(3) show ?thesis by (blast intro: client_own.ic_waited)
  qed (use assms(4) in simp)
qed

text \<open>
  C39. How the interactive client ends: its goroutines take only finitely many steps between two
  events of their environment, and once the context is cancelled something is left to do only
  as long as \<open>Subscribe\<close> or a read of the terminal has not come back. It returns with all its
  goroutines gone and the connection closed exactly once, and only because of a signal or an
  error of \<open>Subscribe\<close>, so never because the input is at its end.
\<close>

theorem client_winds_down:
  assumes "client_reachable pubKeyBytes spare F p"
  shows "(\<forall>q. client_own F p q \<longrightarrow> client_left q < client_left p) \<and>
    (pr_ctx p \<and> \<not> pr_panic p \<longrightarrow>
      (\<exists>q. client_own F p q) \<or> ic_recv p = RcSubscribed \<or> reading p \<or> pr_main p = MReturned) \<and>
    (pr_main p = MReturned \<longrightarrow>
      pr_sig p = SigGone \<and> ic_recv p = RcGone \<and> ic_send p = SnGone \<and>
      cl_connCloses (pr_client p) = 1 \<and> (pr_signalled p \<or> ic_subErr p \<noteq> None))"
proof -
  have inv: "client_inv pubKeyBytes spare F p" using client_process.reach_inv [OF assms] .
  then have less: "\<forall>q. client_own F p q \<longrightarrow> client_left q < client_left p"
    by (blast intro: client_left_less)
  have go: "(\<exists>q. client_own F p q) \<or> ic_recv p = RcSubscribed \<or> reading p \<or> pr_main p = MReturned"
    if "pr_ctx p" "\<not> pr_panic p"
    using client_can_step [OF inv that] by blast
  have "pr_sig p = SigGone \<and> ic_recv p = RcGone \<and> ic_send p = SnGone \<and>
      cl_connCloses (pr_client p) = 1 \<and> (pr_signalled p \<or> ic_subErr p \<noteq> None)"
    if "pr_main p = MReturned"
    using client_invD(1,2) [OF inv] client_invD(8) [OF inv that] client_invD(6) [OF inv] that
    by (auto simp: sig_ok_def)
  then show ?thesis using less go by blast
qed


section \<open>Concrete runs\<close>

text \<open>
  A user who types a line and the beginning of another; then either a capsule without a signature
  arrives, or \<open>Subscribe\<close> fails and the command ends.
\<close>

definition toy_client_flags :: client_flags where
  "toy_client_flags = (client_init 0)\<lparr>cf_topicID := ''t''\<rparr>"

definition toy_link :: "bool \<Rightarrow> Client" where
  "toy_link gone = \<lparr>verifyReceivedMessages = False, cl_closed = gone, cl_closeOnce = gone,
     cl_connCloses = of_bool gone, ackTimeout = 5 * second\<rparr>"

definition toy_text :: string where "toy_text = [CHR ''a'', NL, CHR ''b'']"

definition ci :: "bool \<Rightarrow> int \<Rightarrow> sig_pc \<Rightarrow> main_pc \<Rightarrow> recv_pc \<Rightarrow> send_pc \<Rightarrow> bool \<Rightarrow> string \<Rightarrow>
    goerr option \<Rightarrow> (string \<times> string) list \<Rightarrow> string \<Rightarrow> goerr option \<Rightarrow> interactive" where
  "ci ctx wg s m r b after buf e sent input err =
     \<lparr>pr_ctx = ctx, pr_sigCh = False, pr_signalled = False, pr_client = toy_link (m = MReturned),
      pr_wg = wg, pr_sig = s, pr_main = m, pr_panic = False,
      ic_recv = r, ic_send = b, ic_after = after, ic_stdinClosed = False, ic_buf = buf, ic_readErr = e,
      ic_sent = sent, ic_got = [], ic_out = [], ic_input = input, ic_subErr = err\<rparr>"

lemmas ci_eval = client_step_def client_own.simps client_env.simps sig_step.simps ci_def process_ops
  spawn_recv_def spawn_send_def stopInput_def subscribe_returns_def on_line_def on_readErr_def
  stdin_read_def reading_def ReadLine_def TrimNewline_def toy_client_flags_def client_init_def
  toy_link_def toy_text_def Client_Close_def

abbreviation toy_client_reachable :: "interactive \<Rightarrow> bool" where
  "toy_client_reachable \<equiv> client_reachable [7, 7, 7, 7] (\<lambda>_. []) toy_client_flags"

abbreviation toy_client_step :: "interactive \<Rightarrow> interactive \<Rightarrow> bool" where
  "toy_client_step \<equiv> client_step [7, 7, 7, 7] (\<lambda>_. []) toy_client_flags"

lemma client_step_more:
  "toy_client_reachable p \<Longrightarrow> toy_client_step p q \<Longrightarrow> toy_client_reachable q"
  by (rule reach.reach_step)

lemma ci_begin:
  "toy_client_reachable (ci False 0 SigNone (MSpawn 0) RcNone SnNone True [] None [] [] None)"
proof (rule reach.reach_init)
  have "client_start (Inr ()) (\<lambda>_ _. None) toy_client_flags =
      Inr ((), ci False 0 SigNone (MSpawn 0) RcNone SnNone True [] None [] [] None)"
    by (simp add: client_start_def command_start_def NewClient_def process_init_def process.defs ci_def
        toy_link_def)
  then show "client_begin toy_client_flags
      (ci False 0 SigNone (MSpawn 0) RcNone SnNone True [] None [] [] None)"
    unfolding client_begin_def by blast
qed

lemma ci_run:
  "toy_client_step (ci False 0 SigNone (MSpawn 0) RcNone SnNone True [] None [] [] None)
     (ci False 1 SigWait (MSpawn 1) RcNone SnNone True [] None [] [] None)"
  "toy_client_step (ci False 1 SigWait (MSpawn 1) RcNone SnNone True [] None [] [] None)
     (ci False 2 SigWait (MSpawn 2) RcSubscribed SnNone True [] None [] [] None)"
  "toy_client_step (ci False 2 SigWait (MSpawn 2) RcSubscribed SnNone True [] None [] [] None)
     (ci False 3 SigWait MWait RcSubscribed SnSelect True [] None [] [] None)"
  "toy_client_step (ci False 3 SigWait MWait RcSubscribed SnSelect True buf e sent input None)
     (ci False 3 SigWait MWait RcSubscribed SnRead True buf e sent input None)"
  "toy_client_step (ci False 3 SigWait MWait RcSubscribed SnRead True [] None [] [] None)
     (ci False 3 SigWait MWait RcSubscribed SnRead True toy_text None [] toy_text None)"
  "toy_client_step (ci False 3 SigWait MWait RcSubscribed SnRead True toy_text None [] toy_text None)
     (ci False 3 SigWait MWait RcSubscribed SnPublish True ''b'' None [(''t'', ''a'')] toy_text None)"
  "toy_client_step (ci False 3 SigWait MWait RcSubscribed SnPublish True buf None sent input None)
     (ci False 3 SigWait MWait RcSubscribed SnSelect True buf None sent input None)"
  by (simp_all add: ci_eval)

definition toy_typed :: interactive where
  "toy_typed = ci False 3 SigWait MWait RcSubscribed SnRead True ''b'' None [(''t'', ''a'')] toy_text None"

lemma ci_typed: "toy_client_reachable toy_typed"
proof -
  note run = client_step_more [OF ci_begin ci_run(1)]
  note run = client_step_more [OF run ci_run(2)]
  note run = client_step_more [OF run ci_run(3)]
  note run = client_step_more [OF run ci_run(4)]
  note run = client_step_more [OF run ci_run(5)]
  note run = client_step_more [OF run ci_run(6)]
  note run = client_step_more [OF run ci_run(7)]
  note run = client_step_more [OF run ci_run(4)]
  show ?thesis unfolding toy_typed_def by (rule run)
qed

lemma ci_fails:
  "toy_client_step (ci False 3 SigWait MWait RcSubscribed SnRead True ''b'' None sent toy_text None)
     (ci False 3 SigWait MWait RcCancel SnRead True ''b'' None sent toy_text (Some CtxCanceled))"
  using client_env.ic_subscribe_returns [of "ci False 3 SigWait MWait RcSubscribed SnRead True ''b'' None sent
      toy_text None" "[7, 7, 7, 7]" "\<lambda>_. []" toy_client_flags "Some CtxCanceled"]
  by (simp add: client_step_def ci_def subscribe_returns_def)

lemma ci_end:
  "toy_client_step (ci False 3 SigWait MWait RcCancel SnRead True ''b'' None sent toy_text err)
     (ci True 3 SigWait MWait RcExit SnRead True ''b'' None sent toy_text err)"
  "toy_client_step (ci True 3 SigWait MWait RcExit SnRead True ''b'' None sent toy_text err)
     (ci True 2 SigWait MWait RcGone SnRead True ''b'' None sent toy_text err)"
  "toy_client_step (ci True 2 SigWait MWait RcGone SnRead True ''b'' None sent toy_text err)
     (ci True 2 SigExit MWait RcGone SnRead True ''b'' None sent toy_text err)"
  "toy_client_step (ci True 2 SigExit MWait RcGone SnRead True ''b'' None sent toy_text err)
     (ci True 1 SigGone MWait RcGone SnRead True ''b'' None sent toy_text err)"
  "toy_client_step (ci True 1 SigGone MWait RcGone SnRead True ''b'' None sent toy_text err)
     (ci True 1 SigGone MWait RcGone SnRead True ''b'' (Some IoEOF) sent toy_text err)"
  "toy_client_step (ci True 1 SigGone MWait RcGone SnRead True ''b'' (Some IoEOF) sent toy_text err)
     (ci True 1 SigGone MWait RcGone SnExit True [] None sent toy_text err)"
  "toy_client_step (ci True 1 SigGone MWait RcGone SnExit True [] None sent toy_text err)
     (ci True 0 SigGone MWait RcGone SnGone True [] None sent toy_text err)"
  "toy_client_step (ci True 0 SigGone MWait RcGone SnGone True [] None sent toy_text err)
     (ci True 0 SigGone MReturned RcGone SnGone False [] None sent toy_text err)"
  by (simp_all add: ci_eval)

definition toy_ended :: interactive where
  "toy_ended = ci True 0 SigGone MReturned RcGone SnGone False [] None [(''t'', ''a'')] toy_text (Some CtxCanceled)"

lemma ci_ended: "toy_client_reachable toy_ended"
proof -
  note run = client_step_more [OF ci_typed [unfolded toy_typed_def] ci_fails]
  note run = client_step_more [OF run ci_end(1)]
  note run = client_step_more [OF run ci_end(2)]
  note run = client_step_more [OF run ci_end(3)]
  note run = client_step_more [OF run ci_end(4)]
  note run = client_step_more [OF run ci_end(5)]
  note run = client_step_more [OF run ci_end(6)]
  note run = client_step_more [OF run ci_end(7)]
  note run = client_step_more [OF run ci_end(8)]
  show ?thesis unfolding toy_ended_def by (rule run)
qed

definition toy_unsigned :: TimestampedSignedMsgCapsule where
  "toy_unsigned = \<lparr>ts_Timestamp = 0, ts_SignedMsgCapsule = Some
     \<lparr>sm_MsgCapsule = Some \<lparr>mc_TopicId = ''t'', mc_Data = [1], mc_IsEncrypted = False, mc_unknownFields = []\<rparr>,
      sm_Signature = None, sm_unknownFields = []\<rparr>, ts_unknownFields = []\<rparr>"

lemma toy_unsigned_short: "to_show [7, 7, 7, 7] toy_unsigned" "short_key (\<lambda>_. []) toy_unsigned"
  by (simp_all add: to_show_def own_key_def short_key_def toy_unsigned_def capsule_getters)

lemma ci_panicked:
  "toy_client_reachable (receives [7, 7, 7, 7] (\<lambda>_. []) toy_client_flags toy_unsigned toy_typed)"
  by (rule client_step_more [OF ci_typed])
    (auto simp: client_step_def toy_typed_def ci_def intro!: client_env.ic_receives)

theorem client_sends_lines_witness: "[(''t'', ''a'')] = List.map (Pair ''t'') (complete_lines toy_text)"
  using client_sends_lines [OF ci_typed]
  by (simp add: toy_typed_def ci_def reading_def ReadLine_def toy_client_flags_def complete_lines_def
      toy_text_def)

theorem client_shows_foreign_witness:
  "pr_panic (receives [7, 7, 7, 7] (\<lambda>_. []) toy_client_flags toy_unsigned toy_typed)"
  using client_shows_foreign [OF ci_panicked] toy_unsigned_short
  by (simp add: receives_cases)

theorem client_winds_down_witness: "cl_connCloses (toy_link True) = 1 \<and> ic_subErr toy_ended \<noteq> None"
proof -
  have "pr_main toy_ended = MReturned" "pr_client toy_ended = toy_link True" "\<not> pr_signalled toy_ended"
    "pr_ctx toy_ended" "\<not> pr_panic toy_ended"
    by (simp_all add: toy_ended_def ci_def)
  then show ?thesis using client_winds_down [OF ci_ended] by auto
qed


text \<open>The two ends of the panic: a capsule without a signature, and one with a key of four bytes.\<close>

lemma unsigned_capsule_panics:
  assumes "spare [] = []" and "pubKeyBytes \<noteq> []"
    and "MsgCapsule_GetData (capsule_of (Some t)) \<noteq> []"
    and "Signed_GetSignature (Timestamped_GetSigned (Some t)) = None"
  shows "receiver_handler pubKeyBytes spare nickname (Some t) = Panics ''slice bounds out of range''"
  using assms
  by (simp add: receiver_handler_def printOutput_def Signature_GetPubKey_def capsule_of_def)

lemma signed_capsule_shown:
  assumes "Signature_GetPubKey (Signed_GetSignature (Timestamped_GetSigned (Some t))) = key"
    and "4 \<le> length key"
  shows "\<exists>line. receiver_handler pubKeyBytes spare nickname (Some t) = Returns line"
  using assms by (simp add: receiver_handler_def printOutput_def Let_def)

end
