(* ===== verification/Agent.thy ===== *)
theory Agent
  imports Lake
begin

text \<open>
  \<open>cli/agent/agent.go\<close>: the life of the agent process. Every \<open>select\<close> is a race whose outcome
  the environment decides; the calls by which the agent shuts its service and its server down
  are logged. Times and durations are in nanoseconds; the one printed in an error is the
  argument of its format.
\<close>

definition DefaultRelayerPortMin :: int where "DefaultRelayerPortMin = 1024"
definition DefaultRelayerPortMax :: int where "DefaultRelayerPortMax = 49151"

definition shutdownTimeout :: int where "shutdownTimeout = 10 * 1000000000"

text \<open>\<open>draw m\<close> is the outcome of \<open>rand.Int\<close> below \<open>m\<close>; an error panics.\<close>

definition randomRelayerPort :: "(int \<Rightarrow> goerr + int) \<Rightarrow> int outcome" where
  "randomRelayerPort draw =
     (case draw (DefaultRelayerPortMax - DefaultRelayerPortMin) of
        Inl err \<Rightarrow> Panics ''rand.Int'' | Inr n \<Rightarrow> Returns (n + DefaultRelayerPortMin))"

definition relayerAddrs :: "int \<Rightarrow> string list" where
  "relayerAddrs port =
     [''/ip4/0.0.0.0/udp/'' @ Itoa port @ ''/quic-v1'', ''/ip6/::/udp/'' @ Itoa port @ ''/quic-v1'']"

definition DefaultGrpcListenAddr :: string where "DefaultGrpcListenAddr = ''0.0.0.0:8080''"

record agent_flags =
  af_grpcListenAddr :: string
  af_relayerAddrs :: "string list"
  af_seed :: string
  af_mdnsEnabled :: bool
  af_dhtEnabled :: bool
  af_bootstrapPeers :: "string list"

text \<open>The defaults of the flags, which are set when the package starts.\<close>

definition agent_init :: "(int \<Rightarrow> goerr + int) \<Rightarrow> agent_flags outcome" where
  "agent_init draw =
     (case randomRelayerPort draw of
        Panics m \<Rightarrow> Panics m
      | Returns port \<Rightarrow> Returns \<lparr>af_grpcListenAddr = DefaultGrpcListenAddr,
          af_relayerAddrs = relayerAddrs port, af_seed = [], af_mdnsEnabled = False,
          af_dhtEnabled = False, af_bootstrapPeers = []\<rparr>)"

section \<open>Results that come late\<close>

text \<open>
  The race of a constructor against a signal. After a signal the result may still come, and
  its cleanup may return before the timer; the second component of the answers is what the
  goroutine that waits for the late result cleans up.
\<close>

datatype 'a race = ResultFirst 'a | SignalFirst "'a option"

definition listenWithSignal ::
    "(goerr + 'l) race \<Rightarrow> ('l option \<times> bool \<times> goerr option) \<times> 'l list" where
  "listenWithSignal race =
     (case race of
        ResultFirst (Inl err) \<Rightarrow> ((None, False, Some err), [])
      | ResultFirst (Inr listener) \<Rightarrow> ((Some listener, False, None), [])
      | SignalFirst late \<Rightarrow>
          ((None, True, None), (case late of Some (Inr listener) \<Rightarrow> [listener] | _ \<Rightarrow> [])))"

text \<open>\<open>cleanup\<close> is the outcome of cleaning a late result; \<open>inTime\<close>: it beats the timer.\<close>

definition awaitInitialization ::
    "('a \<Rightarrow> goerr option) \<Rightarrow> int \<Rightarrow> 'a race \<Rightarrow> bool \<Rightarrow>
     ('a option \<times> bool \<times> goerr option) \<times> 'a list" where
  "awaitInitialization cleanup timeout race inTime =
     (case race of
        ResultFirst result \<Rightarrow> ((Some result, False, None), [])
      | SignalFirst late \<Rightarrow>
          let exceeded = Some (Errorf ''shutdown during initialization exceeded %s'' [Itoa timeout])
          in case late of
               None \<Rightarrow> ((None, True, exceeded), [])
             | Some r \<Rightarrow> ((None, True, if inTime then cleanup r else exceeded), [r]))"

section \<open>Shutting down within a time\<close>

datatype lifecycle =
    HealthShutdown
  | BeginShutdownCall
  | GracefulStopCall
  | CloseCall
  | CancelBackendCall
  | StopCall

datatype shutdown_event = GrpcDone | CleanupDone "goerr option" | TimerFired

text \<open>
  The loop: \<open>grpc\<close> and \<open>cleanup\<close> say that the channel is not yet set to nil; a nil channel is
  never ready. The answer is the cleanup error, or \<open>None\<close> inside when the timer has fired.
\<close>

fun shutdown_loop ::
    "bool \<Rightarrow> bool \<Rightarrow> goerr option \<Rightarrow> shutdown_event list \<Rightarrow> (goerr option) option option" where
  "shutdown_loop grpc cleanup cleanupErr es =
     (if \<not> grpc \<and> \<not> cleanup then Some (Some cleanupErr)
      else
        (case es of
           [] \<Rightarrow> None
         | GrpcDone # es \<Rightarrow> shutdown_loop False cleanup cleanupErr es
         | CleanupDone err # es \<Rightarrow>
             if cleanup then shutdown_loop grpc False err es
             else shutdown_loop grpc cleanup cleanupErr es
         | TimerFired # es \<Rightarrow> Some None))"

declare shutdown_loop.simps [simp del]

definition exceeded_err :: "int \<Rightarrow> goerr" where
  "exceeded_err timeout = Errorf ''shutdown exceeded %s'' [Itoa timeout]"

text \<open>
  \<open>at\<close> is when the shutdown was asked for, \<open>left\<close> the time at which the loop is left.
  \<open>None\<close>: still waiting.
\<close>

definition shutdownServiceWithin ::
    "int \<Rightarrow> int \<Rightarrow> shutdown_event list \<Rightarrow> int \<Rightarrow> (goerr option) option \<times> lifecycle list" where
  "shutdownServiceWithin at timeout es left =
     (let deadline = at + timeout;
          calls = [BeginShutdownCall, GracefulStopCall, CloseCall];
          exceeded = (Some (Some (exceeded_err timeout)), calls @ [CancelBackendCall, StopCall])
      in case shutdown_loop True True None es of
           None \<Rightarrow> (None, calls)
         | Some None \<Rightarrow> exceeded
         | Some (Some cleanupErr) \<Rightarrow>
             if deadline - left \<le> 0 then exceeded else (Some cleanupErr, calls))"

definition shutdownService ::
    "int \<Rightarrow> shutdown_event list \<Rightarrow> int \<Rightarrow> (goerr option) option \<times> lifecycle list" where
  "shutdownService at es left = shutdownServiceWithin at shutdownTimeout es left"

text \<open>The time of a signal that has come, and otherwise the present.\<close>

definition shutdownStart :: "int option \<Rightarrow> int \<Rightarrow> int" where
  "shutdownStart signalAt now = (case signalAt of Some at \<Rightarrow> at | None \<Rightarrow> now)"

section \<open>The agent\<close>

datatype serve_event = ServeSignal | Served "goerr option"

text \<open>
  \<open>ae_signalAt\<close> is the time of the signal, if one comes before the shutdown starts; \<open>ae_now\<close>
  and \<open>ae_left\<close> are the clock when it starts without one and when its loop is left.
\<close>

record ('s, 'l) agent_env =
  ae_level :: "goerr option"
  ae_init :: "(goerr + 's) race"
  ae_inTime :: bool
  ae_lateClose :: "'s \<Rightarrow> goerr option"
  ae_listen :: "(goerr + 'l) race"
  ae_serve :: serve_event
  ae_shutdown :: "shutdown_event list"
  ae_signalAt :: "int option"
  ae_now :: int
  ae_left :: int

text \<open>The cleanup of a service that appears after the signal.\<close>

definition late_cleanup :: "('s, 'l) agent_env \<Rightarrow> goerr + 's \<Rightarrow> goerr option" where
  "late_cleanup A late = (case late of Inr service \<Rightarrow> ae_lateClose A service | Inl err \<Rightarrow> Some err)"

definition agent_stop :: "('s, 'l) agent_env \<Rightarrow> (goerr option) option \<times> lifecycle list" where
  "agent_stop A =
     (let (res, calls) = shutdownService (shutdownStart (ae_signalAt A) (ae_now A))
            (ae_shutdown A) (ae_left A)
      in (res, HealthShutdown # calls))"

definition join_stop :: "goerr option \<Rightarrow> (goerr option) option \<times> 'c \<Rightarrow> (goerr option) option \<times> 'c" where
  "join_stop err stopped = (map_option (\<lambda>e. errors_Join [err, e]) (fst stopped), snd stopped)"

text \<open>
  What \<open>runAgent\<close> returns (\<open>None\<close> while its shutdown still waits), the calls it makes on its
  service and server, the late services and the late listeners that are closed.
\<close>

definition runAgent ::
    "('s, 'l) agent_env \<Rightarrow>
     ((goerr option) option \<times> lifecycle list) \<times> (goerr + 's) list \<times> 'l list" where
  "runAgent A =
     (if ae_level A \<noteq> None then ((Some (ae_level A), []), [], [])
      else
        let ((result, aborted, err), late) =
              awaitInitialization (late_cleanup A) shutdownTimeout (ae_init A) (ae_inTime A)
        in if aborted then ((Some err, []), late, [])
           else
             (case result of
                Some (Inr service) \<Rightarrow>
                  let ((listener, interrupted, err), lateListeners) = listenWithSignal (ae_listen A)
                  in if interrupted then (agent_stop A, late, lateListeners)
                     else if err \<noteq> None then (join_stop err (agent_stop A), late, lateListeners)
                     else
                       (case ae_serve A of
                          ServeSignal \<Rightarrow> (agent_stop A, late, lateListeners)
                        | Served err \<Rightarrow> (join_stop err (agent_stop A), late, lateListeners))
              | Some (Inl err) \<Rightarrow> ((Some (Some err), []), late, [])
              | None \<Rightarrow> ((Some None, []), late, [])))"

text \<open>What the agent relies on of the service: a shutdown begins once.\<close>

interpretation service_down: stoppable "\<lambda>_::unit. BeginShutdown" shuttingDown "\<lambda>_. ()"
  by unfold_locales (auto simp: BeginShutdown_def)

section \<open>Properties\<close>

lemma shutdown_loop_spec:
  "shutdown_loop grpc cleanup cleanupErr es =
     (let before = takeWhile (\<lambda>e. e \<noteq> TimerFired) es;
          errs = List.map_filter (\<lambda>e. case e of CleanupDone err \<Rightarrow> Some err | _ \<Rightarrow> None) before
      in if (\<not> grpc \<or> GrpcDone \<in> set before) \<and> (\<not> cleanup \<or> errs \<noteq> [])
         then Some (Some (if cleanup then hd errs else cleanupErr))
         else if TimerFired \<in> set es then Some None else None)"
proof (induction es arbitrary: grpc cleanup cleanupErr)
  case Nil
  show ?case by (simp add: shutdown_loop.simps [of grpc cleanup cleanupErr "[]"] map_filter_simps)
next
  case (Cons e es)
  show ?case
    by (cases e; subst shutdown_loop.simps; simp add: Cons.IH map_filter_simps Let_def)
qed

text \<open>
  What a shutdown comes to: both have finished before the timer, in time for the deadline, or it
  is over without that, or it still waits.
\<close>

definition cleanup_errs :: "shutdown_event list \<Rightarrow> goerr option list" where
  "cleanup_errs es = List.map_filter (\<lambda>e. case e of CleanupDone err \<Rightarrow> Some err | _ \<Rightarrow> None)
     (takeWhile (\<lambda>e. e \<noteq> TimerFired) es)"

definition both_finished :: "shutdown_event list \<Rightarrow> bool" where
  "both_finished es \<longleftrightarrow> GrpcDone \<in> set (takeWhile (\<lambda>e. e \<noteq> TimerFired) es) \<and> cleanup_errs es \<noteq> []"

lemma shutdown_answer:
  "shutdownServiceWithin at timeout es left =
     (if both_finished es \<and> left < at + timeout
      then (Some (hd (cleanup_errs es)), [BeginShutdownCall, GracefulStopCall, CloseCall])
      else if both_finished es \<or> TimerFired \<in> set es
      then (Some (Some (exceeded_err timeout)),
            [BeginShutdownCall, GracefulStopCall, CloseCall, CancelBackendCall, StopCall])
      else (None, [BeginShutdownCall, GracefulStopCall, CloseCall]))"
  by (auto simp: shutdownServiceWithin_def shutdown_loop_spec both_finished_def cleanup_errs_def Let_def)

text \<open>
  C35. Bounded shutdown: the service and the server are told to stop first of all; once the timer
  has fired the agent has an answer. It answers the error of the cleanup exactly when the
  graceful stop and the cleanup have both finished before the timer and the deadline has not
  passed; otherwise it gives up with an error, cancels the backend and stops the server hard.
\<close>

theorem shutdown_bounded:
  "let (res, calls) = shutdownServiceWithin at timeout es left;
       before = takeWhile (\<lambda>e. e \<noteq> TimerFired) es;
       errs = List.map_filter (\<lambda>e. case e of CleanupDone err \<Rightarrow> Some err | _ \<Rightarrow> None) before;
       finished = (GrpcDone \<in> set before \<and> errs \<noteq> []);
       passed = (at + timeout \<le> left)
   in res = (if finished \<and> \<not> passed then Some (hd errs)
             else if finished \<or> TimerFired \<in> set es then Some (Some (exceeded_err timeout))
             else None) \<and>
      calls = [BeginShutdownCall, GracefulStopCall, CloseCall] @
        (if res \<noteq> None \<and> \<not> (finished \<and> \<not> passed) then [CancelBackendCall, StopCall] else [])"
  by (simp add: shutdownServiceWithin_def shutdown_loop_spec Let_def split: prod.split)

text \<open>
  The error, if any, that the agent already has when it shuts its service down: \<open>None\<close> after a
  signal, otherwise the outcome of listening or serving.
\<close>

definition way_out :: "('s, 'l) agent_env \<Rightarrow> goerr option option" where
  "way_out A =
     (case ae_listen A of
        SignalFirst l \<Rightarrow> None
      | ResultFirst (Inl err) \<Rightarrow> Some (Some err)
      | ResultFirst (Inr listener) \<Rightarrow>
          (case ae_serve A of ServeSignal \<Rightarrow> None | Served err \<Rightarrow> Some err))"

text \<open>
  C36. The agent never drops a service: if the service was built in time, on every way out of
  \<open>runAgent\<close>, listening or serving with or without errors, it makes these calls, each once and in
  this order (the last two each in a goroutine of its own): the health server is shut down, the
  service begins its shutdown, the server stops gracefully, the service is closed; and when that
  is not finished in the ten seconds from the signal the backend is cancelled and the server
  stopped hard. The outcome is that of the shutdown,
  joined to the error of listening or serving if there is one. A service that appears only after
  the signal is closed, exactly that one, and so is a listener that appears late; without a
  service nothing is called.
\<close>

theorem agent_always_shuts_down:
  "let ((res, calls), late, lateListeners) = runAgent A;
       deadline = (case ae_signalAt A of Some t \<Rightarrow> t | None \<Rightarrow> ae_now A) + 10 * 1000000000;
       clean = (both_finished (ae_shutdown A) \<and> ae_left A < deadline);
       waiting = (\<not> both_finished (ae_shutdown A) \<and> TimerFired \<notin> set (ae_shutdown A));
       stopped = (if clean then hd (cleanup_errs (ae_shutdown A)) else Some (exceeded_err shutdownTimeout));
       late_err = Some (Errorf ''shutdown during initialization exceeded %s'' [Itoa shutdownTimeout])
   in if ae_level A \<noteq> None then res = Some (ae_level A) \<and> calls = [] \<and> late = [] \<and> lateListeners = []
      else
        (case ae_init A of
           ResultFirst (Inr service) \<Rightarrow>
             calls = [HealthShutdown, BeginShutdownCall, GracefulStopCall, CloseCall] @
               (if clean \<or> waiting then [] else [CancelBackendCall, StopCall]) \<and>
             res = (if waiting then None
                    else Some (case way_out A of None \<Rightarrow> stopped | Some err \<Rightarrow> errors_Join [err, stopped])) \<and>
             late = [] \<and>
             lateListeners = (case ae_listen A of SignalFirst (Some (Inr listener)) \<Rightarrow> [listener] | _ \<Rightarrow> [])
         | ResultFirst (Inl err) \<Rightarrow>
             res = Some (Some err) \<and> calls = [] \<and> late = [] \<and> lateListeners = []
         | SignalFirst None \<Rightarrow>
             res = Some late_err \<and> calls = [] \<and> late = [] \<and> lateListeners = []
         | SignalFirst (Some s) \<Rightarrow>
             res = Some (if ae_inTime A
                         then (case s of Inr service \<Rightarrow> ae_lateClose A service | Inl err \<Rightarrow> Some err)
                         else late_err) \<and>
             calls = [] \<and> late = [s] \<and> lateListeners = [])"
proof -
  have stop: "agent_stop A =
      (let deadline = (case ae_signalAt A of Some t \<Rightarrow> t | None \<Rightarrow> ae_now A) + 10 * 1000000000;
           clean = (both_finished (ae_shutdown A) \<and> ae_left A < deadline);
           waiting = (\<not> both_finished (ae_shutdown A) \<and> TimerFired \<notin> set (ae_shutdown A));
           stopped = (if clean then hd (cleanup_errs (ae_shutdown A)) else Some (exceeded_err shutdownTimeout))
       in (if waiting then None else Some stopped,
           [HealthShutdown, BeginShutdownCall, GracefulStopCall, CloseCall] @
             (if clean \<or> waiting then [] else [CancelBackendCall, StopCall])))"
    by (auto simp: agent_stop_def shutdownService_def shutdown_answer shutdownStart_def
        shutdownTimeout_def Let_def split: option.split)
  show ?thesis
    by (auto simp: runAgent_def awaitInitialization_def late_cleanup_def listenWithSignal_def stop
        way_out_def join_stop_def Let_def split: race.split sum.split option.split serve_event.split)
qed

lemma relayer_port_bounds:
  assumes "\<And>m n. draw m = Inr n \<Longrightarrow> 0 \<le> n \<and> n < m" and "randomRelayerPort draw = Returns p"
  shows "DefaultRelayerPortMin \<le> p \<and> p < DefaultRelayerPortMax"
  using assms(2) assms(1) [of "DefaultRelayerPortMax - DefaultRelayerPortMin"]
  by (auto simp: randomRelayerPort_def split: sum.splits)

end
