(* ===== verification/Health.thy ===== *)
theory Health
  imports Agent "HOL-Library.Sublist"
begin

text \<open>
  The processes around the agent: the gRPC server it builds with its health service
  (\<open>newGRPCServer\<close> of \<open>cli/agent/agent.go\<close>), the health check
  (\<open>cmd/msg-lake-health/main.go\<close>) and the entry point \<open>cmd/msg-lake/main.go\<close>. The health
  server belongs to the gRPC library, so its operations are parameters; a process that exits is
  its exit code and what it has printed.
\<close>

definition MsgLake_ServiceName :: string where "MsgLake_ServiceName = ''MsgLake''"

text \<open>The statuses of the health protocol.\<close>

definition health_SERVING :: nat where "health_SERVING = 1"
definition health_NOT_SERVING :: nat where "health_NOT_SERVING = 2"

text \<open>
  \<open>h\<close> is a new health server and \<open>setStatus\<close> its \<open>SetServingStatus\<close>; the gRPC server is the list
  of what is registered with it.
\<close>

datatype 'i registered = UnaryInterceptor 'i | MsgLakeServer | HealthServer

definition newGRPCServer ::
    "'i \<Rightarrow> 'h \<Rightarrow> (string \<Rightarrow> nat \<Rightarrow> 'h \<Rightarrow> 'h) \<Rightarrow> 'i registered list \<times> 'h" where
  "newGRPCServer interceptor h setStatus =
     ([UnaryInterceptor interceptor, MsgLakeServer, HealthServer],
      setStatus MsgLake_ServiceName health_SERVING h)"

text \<open>
  \<open>dial\<close> is the outcome of creating the connection and \<open>response\<close> that of the health RPC on it,
  given the service asked for; the second component counts the closes of the connection.
\<close>

definition checkWithOptions ::
    "(nat \<Rightarrow> string) \<Rightarrow> (string \<Rightarrow> goerr option) \<Rightarrow> (string \<Rightarrow> string \<Rightarrow> goerr + nat) \<Rightarrow> string \<Rightarrow>
     goerr option \<times> nat" where
  "checkWithOptions status_String dial response target =
     (case dial target of
        Some err \<Rightarrow> (Some err, 0)
      | None \<Rightarrow>
          (case response target MsgLake_ServiceName of
             Inl err \<Rightarrow> (Some err, 1)
           | Inr status \<Rightarrow>
               (if status \<noteq> health_SERVING
                then Some (Errorf ''MsgLake health: %s'' [status_String status]) else None, 1)))"

definition check ::
    "(nat \<Rightarrow> string) \<Rightarrow> (string \<Rightarrow> goerr option) \<Rightarrow> (string \<Rightarrow> string \<Rightarrow> goerr + nat) \<Rightarrow> string \<Rightarrow>
     goerr option \<times> nat" where
  "check status_String dial response target = checkWithOptions status_String dial response target"

text \<open>
  \<open>flag\<close> is the target on the command line, if one is given; \<open>response\<close> also depends on the
  time within which the RPC must end.
\<close>

definition health_main ::
    "(nat \<Rightarrow> string) \<Rightarrow> (string \<Rightarrow> goerr option) \<Rightarrow> (int \<Rightarrow> string \<Rightarrow> string \<Rightarrow> goerr + nat) \<Rightarrow>
     string option \<Rightarrow> nat \<times> goerr list" where
  "health_main status_String dial response flag =
     (let target = (case flag of None \<Rightarrow> ''localhost:8080'' | Some t \<Rightarrow> t)
      in case fst (check status_String dial (response (2 * 1000000000)) target) of
           Some err \<Rightarrow> (1, [err])
         | None \<Rightarrow> (0, []))"

definition lake_main :: "goerr option \<Rightarrow> nat \<times> goerr list" where
  "lake_main executed = (case executed of Some err \<Rightarrow> (1, [err]) | None \<Rightarrow> (0, []))"

section \<open>Properties\<close>

text \<open>The first thing an agent does when it shuts down is to shut down its health server.\<close>

lemma runAgent_calls: "snd (fst (runAgent A)) = [] \<or> (\<exists>cs. snd (fst (runAgent A)) = HealthShutdown # cs)"
  by (auto simp: runAgent_def awaitInitialization_def listenWithSignal_def agent_stop_def
      join_stop_def Let_def split: race.split sum.split option.split serve_event.split prod.split)

text \<open>
  The health check tells whether the agent serves. A new health server
  answers with the status set for a service, and with \<open>NOT_SERVING\<close> once it is shut down; then the check of an agent
  that can be reached exits with 0 as long as the agent has made none of the calls by which it
  shuts down, of which that to the health server is the first, with 1 and
  an error afterwards, and with 1 when the agent cannot be reached; it closes a connection that
  it has made exactly once.
\<close>

theorem health_follows_agent:
  assumes set: "\<And>name status. ask name (setStatus name status fresh) = Inr status"
    and down: "\<And>name status. ask name (shut (setStatus name status fresh)) = Inr health_NOT_SERVING"
    and agent: "h = snd (newGRPCServer interceptor fresh setStatus)"
      "prefix calls (snd (fst (runAgent A)))"
    and reached: "response = (\<lambda>_ _ name. ask name (if HealthShutdown \<in> set calls then shut h else h))"
  shows "health_main status_String dial response flag =
      (case dial (case flag of None \<Rightarrow> ''localhost:8080'' | Some t \<Rightarrow> t) of
         Some err \<Rightarrow> (1, [err])
       | None \<Rightarrow> if calls = [] then (0, [])
           else (1, [Errorf ''MsgLake health: %s'' [status_String health_NOT_SERVING]]))"
    and "snd (check status_String dial (response timeout) target) = of_bool (dial target = None)"
proof -
  have "HealthShutdown \<in> set calls \<longleftrightarrow> calls \<noteq> []"
    using runAgent_calls [of A] agent(2) by (cases calls) auto
  then have reached: "response = (\<lambda>_ _ name. ask name (if calls = [] then h else shut h))"
    using reached by (cases "calls = []") simp_all
  show "health_main status_String dial response flag =
      (case dial (case flag of None \<Rightarrow> ''localhost:8080'' | Some t \<Rightarrow> t) of
         Some err \<Rightarrow> (1, [err])
       | None \<Rightarrow> if calls = [] then (0, [])
           else (1, [Errorf ''MsgLake health: %s'' [status_String health_NOT_SERVING]]))"
    using set down agent(1)
    by (auto simp: reached health_main_def check_def checkWithOptions_def newGRPCServer_def
        health_SERVING_def health_NOT_SERVING_def Let_def split: option.splits)
  show "snd (check status_String dial (response timeout) target) = of_bool (dial target = None)"
    using set down agent(1)
    by (auto simp: reached check_def checkWithOptions_def newGRPCServer_def split: option.splits)
qed

text \<open>A health server as the library has it: the statuses, and whether it is shut down.\<close>

definition toy_set :: "string \<Rightarrow> nat \<Rightarrow> (string \<Rightarrow> nat option) \<times> bool \<Rightarrow> (string \<Rightarrow> nat option) \<times> bool" where
  "toy_set name status h = ((fst h)(name \<mapsto> status), snd h)"

definition toy_ask :: "string \<Rightarrow> (string \<Rightarrow> nat option) \<times> bool \<Rightarrow> goerr + nat" where
  "toy_ask name h =
     (if snd h then Inr health_NOT_SERVING
      else (case fst h name of None \<Rightarrow> Inl (Status 5 ''unknown service'') | Some s \<Rightarrow> Inr s))"


definition toy_agent :: "(unit, unit) agent_env" where
  "toy_agent = \<lparr>ae_level = None, ae_init = ResultFirst (Inr ()), ae_inTime = True,
     ae_lateClose = (\<lambda>_. None), ae_listen = ResultFirst (Inr ()), ae_serve = ServeSignal,
     ae_shutdown = [GrpcDone, CleanupDone None], ae_signalAt = Some 0, ae_now = 0, ae_left = 1\<rparr>"

theorem health_follows_agent_witness:
  "health_main (\<lambda>_. ''NOT_SERVING'') (\<lambda>_. None)
     (\<lambda>_ _ name. toy_ask name (if HealthShutdown \<in> set [HealthShutdown]
        then (\<lambda>h. (fst h, True)) (snd (newGRPCServer () (Map.empty, False) toy_set))
        else snd (newGRPCServer () (Map.empty, False) toy_set))) None =
     (1, [Errorf ''MsgLake health: %s'' [''NOT_SERVING'']])"
proof -
  have ask: "toy_ask name (toy_set name status (Map.empty, False)) = Inr status"
    "toy_ask name ((\<lambda>h. (fst h, True)) (toy_set name status (Map.empty, False))) = Inr health_NOT_SERVING"
    for name status
    by (simp_all add: toy_ask_def toy_set_def)
  have calls: "prefix [HealthShutdown] (snd (fst (runAgent toy_agent)))"
    by (simp add: runAgent_def toy_agent_def awaitInitialization_def listenWithSignal_def agent_stop_def
        shutdownService_def split: prod.split)
  show ?thesis
    using health_follows_agent(1) [where ask = toy_ask and setStatus = toy_set and fresh = "(Map.empty, False)"
        and shut = "\<lambda>h. (fst h, True)" and calls = "[HealthShutdown]" and A = toy_agent and flag = None
        and dial = "\<lambda>_. None" and interceptor = "()" and status_String = "\<lambda>_. ''NOT_SERVING''",
        OF ask refl calls refl]
    by simp
qed

end
