(* ===== verification/CommandTree.thy ===== *)
theory CommandTree
  imports Main
begin

text \<open>
  The command tree (\<open>cli/root.go\<close>, \<open>cli/tools/tools.go\<close> and the \<open>Cmd\<close> of each command) and the key of
  a command (\<open>cli/identity/identity.go\<close>). A command is what the composite literals of
  \<open>cobra.Command\<close> set; the library's \<open>AddCommand\<close> and the generation of a key are parameters.
\<close>

datatype command = Command (cmd_Use: string) (cmd_Short: string) (cmd_runs: bool) (cmd_subs: "command list")

definition agent_Cmd :: command where
  "agent_Cmd = Command ''agent'' ''run msg lake agent'' True []"

definition client_Cmd :: command where
  "client_Cmd = Command ''client'' ''run msg lake client (interactive)'' True []"

definition loader_Cmd :: command where
  "loader_Cmd = Command ''loader'' ''tool for load test'' True []"

definition tools_Cmd :: "(command \<Rightarrow> command list \<Rightarrow> command) \<Rightarrow> command" where
  "tools_Cmd AddCommand =
     AddCommand (Command ''tools'' ''useful tools for msg-lake'' False []) [loader_Cmd]"

definition RootCmd :: "(command \<Rightarrow> command list \<Rightarrow> command) \<Rightarrow> command" where
  "RootCmd AddCommand =
     AddCommand (Command ''lake'' ''simple msg lake'' False []) [agent_Cmd, client_Cmd, tools_Cmd AddCommand]"

text \<open>What the initialisers of the two inner commands set the library's switch to.\<close>

definition EnableCommandSorting :: bool where "EnableCommandSorting = False"

definition NewDemoKey :: "'k \<Rightarrow> 'k" where
  "NewDemoKey GenPrivKey = GenPrivKey"

section \<open>What can be run\<close>

text \<open>The command lines that run something, as the words from the root on.\<close>

fun runnable :: "command \<Rightarrow> string list list" where
  "runnable (Command use' short runs subs) =
     List.map ((#) use') ((if runs then [[]] else []) @ concat (List.map runnable subs))"

text \<open>\<open>AddCommand\<close> as its documentation has it: the commands come after those that are there.\<close>

definition append_subs :: "command \<Rightarrow> command list \<Rightarrow> command" where
  "append_subs c subs = Command (cmd_Use c) (cmd_Short c) (cmd_runs c) (cmd_subs c @ subs)"

lemma runnable_root:
  "runnable (RootCmd append_subs) =
     [[''lake'', ''agent''], [''lake'', ''client''], [''lake'', ''tools'', ''loader'']]"
  by (simp add: RootCmd_def tools_Cmd_def append_subs_def agent_Cmd_def client_Cmd_def loader_Cmd_def)

text \<open>No command line is ambiguous.\<close>

lemma runnable_distinct: "distinct (runnable (RootCmd append_subs))"
  by (simp add: runnable_root)

end
