(* ===== verification/Spec2Isabelle.thy ===== *)
theory Spec2Isabelle
  imports Config Protocol PublishPath BoxJoin CenterSpec ClientSafety BoxLake LakeClose ServiceRelayer
    Loader InteractiveSafety Health CommandTree
begin

text \<open>
  Verification of msg-lake, a relay of signed messages: clients publish capsules to topics and
  subscribe to topics over gRPC; agents exchange the capsules of a topic by GossipSub.

  \<^bold>\<open>The program and its theories.\<close> Each theory models one part of \<open>src/\<close> and names its
  definitions after the Go functions.

  \<^item> \<open>Prelude\<close>: reachability (\<open>reach\<close>, \<open>steps\<close>) and the locale \<open>machine\<close> of a transition
    system with an invariant, which every step relation below interprets. \<open>GoRuntime\<close>: bytes,
    error values with \<open>errors.Is\<close> and \<open>errors.Join\<close>, and two contracts as locales, \<open>stoppable\<close> (a
    stop guarded by \<open>sync.Once\<close>) and \<open>bounded_chan\<close> (a buffered channel with a send that gives
    up). Their interpretations are in the theories of the components that provide them.
  \<^item> \<open>Proto\<close> (\<open>proto/msg-lake.pb.go\<close>): the messages and their nil-safe getters. \<open>Protocol\<close>
    (\<open>protocol/signature.go\<close>): what is signed and how signatures are checked; the locale
    \<open>capsule_check\<close> is what validator and client rely on. Key parsing, signature checking and the
    deterministic encoder are the fields of a record \<open>crypto\<close>.
  \<^item> \<open>Config\<close> (\<open>util/util.go\<close>, \<open>util/grpc.go\<close>, the initialisers of \<open>msg/box.go\<close>): environment
    settings with \<open>strconv.Atoi\<close> and \<open>Itoa\<close>, random identifiers with their Base64 form, the
    rate-limiting interceptor.
  \<^item> \<open>Subscriber\<close> (\<open>msg/msg.go\<close>), \<open>Validator\<close> (\<open>msg/validator.go\<close>).
  \<^item> \<open>Box\<close>, \<open>BoxLoops\<close>, \<open>BoxSystem\<close> (\<open>msg/box.go\<close>): the dispatcher's state and handlers, their
    loops, and the goroutines of a box (dispatcher, workers, callers) as a step relation;
    \<open>BoxLife\<close>, \<open>BoxRefs\<close>, \<open>BoxInv\<close> its invariant, \<open>BoxRun\<close> a concrete run, \<open>BoxSafety\<close> its
    properties: joins are answered once, own and leave no orphan, one worker lives at a time,
    messages reach the active subscribers and no others, done means closed. \<open>BoxClose\<close>: closing a
    box, by a measure that only decreases and a step that is always possible; what the library may
    still hand out after the cancel, undecodable messages, is the one step that does not count. \<open>BoxJoin\<close>: every
    join can return, by the steps of the box's workers and of its own.
  \<^item> \<open>Center\<close> (\<open>msg/center.go\<close>): the registry of boxes, its entries and the goroutines in
    \<open>GetBox\<close>, \<open>LeaveBox\<close>, \<open>cleanupEntry\<close> and \<open>Close\<close> as a step relation; \<open>CenterInv\<close>,
    \<open>CenterSteps\<close> its invariant, \<open>CenterSafety\<close> its properties: one open box a topic, no channel
    closed twice, failed cleanups are kept and reported to whoever asks, the goroutines at work on
    an entry finish it without anybody's help (\<open>own_step\<close>), \<open>Close\<close> reports all.
    \<open>CenterSpec\<close>: the state machine of one topic that the registry refines.
  \<^item> \<open>Lake\<close> (\<open>lake/lake.go\<close>): \<open>Publish\<close> as a function, \<open>Subscribe\<close> as handler and sender of
    each stream, admission and shutdown as steps of the service; \<open>LakeInv\<close>, \<open>LakeSteps\<close> its
    invariant, \<open>LakeSafety\<close> its properties: what is published, the order and shape of what a
    stream sends, why it ends, what \<open>Close\<close> waits for. \<open>LakeSpec\<close>: the abstract shutdown machine
    the service refines step by step, with the activities that really run as abstraction; \<open>LakeJoin\<close>: the goroutine that cancels a join on shutdown;
    \<open>LakeClose\<close>: \<open>Close\<close> comes to an end.
  \<^item> \<open>Client\<close> (\<open>client/client.go\<close>): \<open>Publish\<close>, \<open>Subscribe\<close> with its attempts and its back-off;
    \<open>ClientSafety\<close>: what the handler gets, when \<open>Subscribe\<close> returns, the waits, and the client
    against the service of \<open>Lake\<close>, end to end.
  \<^item> \<open>Relayer\<close> (\<open>relayer/relayer.go\<close>): what is acquired and released, discovery; \<open>ServiceRelayer\<close>: the
    service with its relayer. \<open>Agent\<close> (\<open>cli/agent/agent.go\<close>): initialisation, serving and bounded
    shutdown of the process. \<open>Health\<close> (\<open>cmd/msg-lake-health/main.go\<close>, \<open>newGRPCServer\<close>): what the
    health check says of an agent, and the exit codes. \<open>CommandTree\<close> (\<open>cli/root.go\<close>, \<open>cli/tools/tools.go\<close>,
    \<open>cli/identity/identity.go\<close>): the commands of the process.
  \<^item> \<open>Command\<close>: the context, the signals and the wait group that two commands share; \<open>Loader\<close>
    (\<open>cli/tools/loader/loader.go\<close>) and \<open>Interactive\<close> (\<open>cli/client/client.go\<close>, with \<open>InteractiveInv\<close>
    and \<open>InteractiveSafety\<close>): their goroutines as step relations with invariants, what they publish
    and print, and how they end.

  \<^bold>\<open>How the parts meet.\<close> \<open>Publish\<close> takes the registry's \<open>GetBox\<close> and the box's \<open>Publish\<close> as
  arguments acting on a world; a stream of the service meets its box at the subscriber's queue
  (\<open>feed_step\<close> of \<open>Lake\<close>: \<open>BoxLake\<close> shows that the steps of the box are nothing else, and that the
  reason of a stop is final); \<open>PublishPath\<close> follows a capsule from the service through the box and
  the adapters of \<open>msg/box.go\<close> to the validators of all agents; the client meets the service at the
  responses a stream has sent. What a component leaves to its environment (the outcome of a library call, of a box, of the network, the
  choice of a \<open>select\<close>) is a free argument of a rule or of a function, so that the theorems
  hold for every behaviour of it.

  \<^bold>\<open>Concurrency.\<close> One rule of a step relation is one critical section, one channel operation or
  one call; goroutines are program counters. Ghost fields (marked where they are declared)
  are written and never read by the steps.

  \<^bold>\<open>Bounds and fuel.\<close> No function is cut off by fuel. Loops that wait for their environment
  (\<open>receive_loop\<close>, \<open>subscribe_loop\<close>, \<open>shutdown_loop\<close>, \<open>discover_loop\<close>) recurse over what the
  environment does and say whether they have returned when it stops. Integers of the source that are stored or sent are words; counters and
  durations that stay far below the bounds of their type are \<open>nat\<close> and \<open>int\<close>, and settings are
  checked against the range of \<open>int\<close> by \<open>Atoi\<close>.

  \<^bold>\<open>Not modelled.\<close> Logging, and printing except what the interactive client shows of the messages;
  the wire encoding, cryptography, libp2p and gRPC (their outcomes are parameters); the rounding
  of \<open>float64\<close> in the jitter of the client's waits; the parsing of the command
  line by its library; signals after a command has
  returned; generated code beyond messages and getters.
\<close>

end
